(* ===== verification/Keri_Prelude.thy ===== *)
theory Keri_Prelude
  imports Main "HOL-Library.Word" "HOL-Library.AList"
begin

section \<open>Shared vocabulary of the KERI development\<close>

text \<open>
  What every component uses of the Rust language and its standard library:
  \<^item> \<open>Result\<close> is the sum type, \<open>Inl\<close> the error; the \<open>?\<close> operator is \<open>bindR\<close> and
    \<open>iter().map(f).collect::<Result<Vec<_>, _>>()\<close> is \<open>mapR\<close>;
  \<^item> \<open>&str\<close>, \<open>String\<close>, \<open>&[u8]\<close> and \<open>Vec<u8>\<close> are lists of Isabelle characters, each of
    which is one byte, so \<open>length\<close> counts bytes as Rust's \<open>len()\<close> does;
  \<^item> \<open>u64\<close> and \<open>u32\<close> are machine words (\<open>+\<close> wraps, as in a release build), \<open>usize\<close>
    counts are natural numbers below \<open>2 ^ 64\<close> where they are parsed;
  \<^item> \<open>from_str_radix\<close>, \<open>str::parse\<close>, \<open>format!("{:x}")\<close> and their kin are written out.
  The locale \<open>codec\<close> is the contract of a printer and a parser that belong together; the
  tags, numbers, version strings, database keys and thresholds of the program all
  interpret it.
\<close>

named_theorems res_simps \<open>equations that take a successful Result apart\<close>

type_synonym bytes = "char list"
type_synonym u8 = "8 word"
type_synonym u32 = "32 word"
type_synonym u64 = "64 word"


subsection \<open>Results\<close>

definition bindR :: "'e + 'a \<Rightarrow> ('a \<Rightarrow> 'e + 'b) \<Rightarrow> 'e + 'b" where
  "bindR r f = (case r of Inl e \<Rightarrow> Inl e | Inr v \<Rightarrow> f v)"

definition map_err :: "('e \<Rightarrow> 'f) \<Rightarrow> 'e + 'a \<Rightarrow> 'f + 'a" where
  "map_err g r = (case r of Inl e \<Rightarrow> Inl (g e) | Inr v \<Rightarrow> Inr v)"

definition ok_or :: "'e \<Rightarrow> 'a option \<Rightarrow> 'e + 'a" where
  "ok_or e o' = (case o' of None \<Rightarrow> Inl e | Some v \<Rightarrow> Inr v)"

definition is_ok :: "'e + 'a \<Rightarrow> bool" where
  "is_ok r = (case r of Inl _ \<Rightarrow> False | Inr _ \<Rightarrow> True)"

definition okR :: "'e + 'a \<Rightarrow> 'a option" where
  "okR r = (case r of Inl _ \<Rightarrow> None | Inr v \<Rightarrow> Some v)"

fun mapR :: "('a \<Rightarrow> 'e + 'b) \<Rightarrow> 'a list \<Rightarrow> 'e + 'b list" where
  "mapR f [] = Inr []"
| "mapR f (x # xs) = bindR (f x) (\<lambda>y. bindR (mapR f xs) (\<lambda>ys. Inr (y # ys)))"

lemma bindR_simps [simp]:
  "bindR (Inl e) f = Inl e"
  "bindR (Inr v) f = f v"
  by (simp_all add: bindR_def)

lemma bindR_eq_Inr [res_simps]: "bindR r f = Inr b \<longleftrightarrow> (\<exists>a. r = Inr a \<and> f a = Inr b)"
  by (cases r) auto

lemma bindR_cong [fundef_cong]:
  "r = r' \<Longrightarrow> (\<And>v. r' = Inr v \<Longrightarrow> f v = g v) \<Longrightarrow> bindR r f = bindR r' g"
  by (cases r') auto

lemma bindR_assoc: "bindR (bindR r f) g = bindR r (\<lambda>v. bindR (f v) g)"
  by (cases r) auto

lemma bindR_if: "bindR (if b then r else r') f = (if b then bindR r f else bindR r' f)"
  by simp

lemma map_err_simps [simp]:
  "map_err g (Inl e) = Inl (g e)"
  "map_err g (Inr v) = Inr v"
  by (simp_all add: map_err_def)

lemma map_err_eq_Inr [simp]: "map_err g r = Inr v \<longleftrightarrow> r = Inr v"
  by (cases r) auto

lemma ok_or_simps [simp]:
  "ok_or e None = Inl e"
  "ok_or e (Some v) = Inr v"
  by (simp_all add: ok_or_def)

lemma ok_or_eq_Inr [simp]: "ok_or e r = Inr v \<longleftrightarrow> r = Some v"
  by (cases r) auto

lemma is_ok_simps [simp]: "\<not> is_ok (Inl e)" "is_ok (Inr v)"
  by (simp_all add: is_ok_def)

lemma is_ok_iff: "is_ok r \<longleftrightarrow> (\<exists>v. r = Inr v)"
  by (cases r) auto

lemma okR_simps [simp]: "okR (Inl e) = None" "okR (Inr v) = Some v"
  by (simp_all add: okR_def)

lemma okR_eq_Some [simp]: "okR r = Some v \<longleftrightarrow> r = Inr v"
  by (cases r) auto

lemma if_Inl_eq_Inr [res_simps]:
  "(if b then Inl e else r) = Inr v \<longleftrightarrow> \<not> b \<and> r = Inr v"
  "(if b then r else Inl e) = Inr v \<longleftrightarrow> b \<and> r = Inr v"
  by auto

lemma mapR_length: "mapR f xs = Inr ys \<Longrightarrow> length ys = length xs"
  by (induction xs arbitrary: ys) (auto simp: res_simps)

lemma mapR_nth: "mapR f xs = Inr ys \<Longrightarrow> i < length xs \<Longrightarrow> f (xs ! i) = Inr (ys ! i)"
proof (induction xs arbitrary: ys i)
  case (Cons x xs)
  then show ?case by (cases i) (auto simp: res_simps)
qed simp

lemma mapR_append: "mapR f (xs @ ys) = bindR (mapR f xs) (\<lambda>as. bindR (mapR f ys) (\<lambda>bs. Inr (as @ bs)))"
  by (induction xs) (auto simp: bindR_def split: sum.splits)

lemma mapR_map: "mapR f (map g xs) = mapR (f \<circ> g) xs"
  by (induction xs) auto

lemma mapR_all_Inr: "(\<And>x. x \<in> set xs \<Longrightarrow> f x = Inr (g x)) \<Longrightarrow> mapR f xs = Inr (map g xs)"
  by (induction xs) auto

lemma mapR_eq_Inr_conv: "mapR f xs = Inr ys \<longleftrightarrow> list_all2 (\<lambda>x y. f x = Inr y) xs ys"
  by (induction xs arbitrary: ys) (auto simp: res_simps list_all2_Cons1)

lemma mapR_list_all: "mapR f xs = Inr ys \<Longrightarrow> (\<And>x y. f x = Inr y \<Longrightarrow> P y) \<Longrightarrow> list_all P ys"
  by (induction xs arbitrary: ys) (auto simp: res_simps)

lemma mapR_cong [fundef_cong]:
  "xs = ys \<Longrightarrow> (\<And>x. x \<in> set ys \<Longrightarrow> f x = g x) \<Longrightarrow> mapR f xs = mapR g ys"
  by (induction ys arbitrary: xs) auto


subsection \<open>A printer and a parser that belong together\<close>

locale codec =
  fixes enc :: "'a \<Rightarrow> 'b" and dec :: "'b \<Rightarrow> 'a option" and valid :: "'a \<Rightarrow> bool"
  assumes dec_enc: "valid x \<Longrightarrow> dec (enc x) = Some x"
begin

lemma enc_inject: "valid x \<Longrightarrow> valid y \<Longrightarrow> enc x = enc y \<longleftrightarrow> x = y"
  using dec_enc by (metis option.inject)

lemma inj_on_enc: "inj_on enc {x. valid x}"
  by (rule inj_onI) (simp add: enc_inject)

lemma map_enc_inject:
  "list_all valid xs \<Longrightarrow> list_all valid ys \<Longrightarrow> map enc xs = map enc ys \<longleftrightarrow> xs = ys"
proof (induction xs arbitrary: ys)
  case (Cons x xs)
  then show ?case by (cases ys) (auto simp: enc_inject)
qed auto

end

text \<open>A codec whose parser accepts nothing but what the printer writes.\<close>

locale exact_codec = codec +
  assumes enc_dec: "dec y = Some x \<Longrightarrow> valid x \<and> enc x = y"
begin

lemma dec_eq_Some: "dec y = Some x \<longleftrightarrow> valid x \<and> y = enc x"
  using dec_enc enc_dec by blast

lemma dec_eq_None: "dec y = None \<longleftrightarrow> (\<forall>x. valid x \<longrightarrow> y \<noteq> enc x)"
  by (metis dec_eq_Some not_None_eq)

end


subsection \<open>Bytes and strings\<close>

definition byte :: "char \<Rightarrow> nat" where
  "byte c = of_char c"

definition is_ascii :: "bytes \<Rightarrow> bool" where
  "is_ascii bs = list_all (\<lambda>c. byte c < 128) bs"

text \<open>\<open>u8::is_ascii_whitespace\<close>: space, tab, line feed, form feed, carriage return.\<close>

definition is_ascii_whitespace :: "char \<Rightarrow> bool" where
  "is_ascii_whitespace c = (byte c \<in> {32, 9, 10, 12, 13})"

text \<open>\<open>str::split_once\<close> at the first occurrence of a separator character.\<close>

fun split_once :: "char \<Rightarrow> string \<Rightarrow> (string \<times> string) option" where
  "split_once sep [] = None"
| "split_once sep (c # cs) =
     (if c = sep then Some ([], cs)
      else map_option (\<lambda>(a, b). (c # a, b)) (split_once sep cs))"

text \<open>\<open>str::split(sep)\<close>: the pieces between the separators, at least one.\<close>

fun split_on :: "char \<Rightarrow> string \<Rightarrow> string list" where
  "split_on sep [] = [[]]"
| "split_on sep (c # cs) =
     (if c = sep then [] # split_on sep cs
      else (case split_on sep cs of [] \<Rightarrow> [[c]] | w # ws \<Rightarrow> (c # w) # ws))"

definition strip_prefix :: "string \<Rightarrow> string \<Rightarrow> string option" where
  "strip_prefix p s = (if take (length p) s = p then Some (drop (length p) s) else None)"

definition starts_with :: "string \<Rightarrow> string \<Rightarrow> bool" where
  "starts_with p s = (take (length p) s = p)"

text \<open>\<open>std::str::from_utf8\<close>: whether a byte sequence is well-formed UTF-8 (RFC 3629).\<close>

definition utf8_cont :: "nat \<Rightarrow> nat \<Rightarrow> char \<Rightarrow> bool" where
  "utf8_cont lo hi c = (lo \<le> byte c \<and> byte c \<le> hi)"

fun utf8_ok :: "bytes \<Rightarrow> bool" where
  "utf8_ok [] = True"
| "utf8_ok (c # cs) =
     (let b = byte c in
      if b < 128 then utf8_ok cs
      else if 194 \<le> b \<and> b \<le> 223 then
        (case cs of c1 # r \<Rightarrow> utf8_cont 128 191 c1 \<and> utf8_ok r | _ \<Rightarrow> False)
      else if 224 \<le> b \<and> b \<le> 239 then
        (case cs of
           c1 # c2 # r \<Rightarrow>
             utf8_cont (if b = 224 then 160 else 128) (if b = 237 then 159 else 191) c1 \<and>
             utf8_cont 128 191 c2 \<and> utf8_ok r
         | _ \<Rightarrow> False)
      else if 240 \<le> b \<and> b \<le> 244 then
        (case cs of
           c1 # c2 # c3 # r \<Rightarrow>
             utf8_cont (if b = 240 then 144 else 128) (if b = 244 then 143 else 191) c1 \<and>
             utf8_cont 128 191 c2 \<and> utf8_cont 128 191 c3 \<and> utf8_ok r
         | _ \<Rightarrow> False)
      else False)"

lemma is_ascii_simps [simp]:
  "is_ascii []"
  "is_ascii (c # cs) \<longleftrightarrow> byte c < 128 \<and> is_ascii cs"
  "is_ascii (xs @ ys) \<longleftrightarrow> is_ascii xs \<and> is_ascii ys"
  by (simp_all add: is_ascii_def)

lemma is_ascii_take_drop: "is_ascii xs \<Longrightarrow> is_ascii (take n xs) \<and> is_ascii (drop n xs)"
  by (simp add: is_ascii_def list_all_iff) (meson in_set_takeD in_set_dropD)

lemma utf8_ok_ascii [simp]: "is_ascii bs \<Longrightarrow> utf8_ok bs"
  by (induction bs) auto

lemma byte_inject [simp]: "byte c = byte d \<longleftrightarrow> c = d"
  by (simp add: byte_def)

lemma byte_char_of [simp]: "n < 256 \<Longrightarrow> byte (char_of n) = n"
  by (simp add: byte_def)

lemma split_on_not_Nil [simp]: "split_on sep s \<noteq> []"
  by (induction s) (auto split: list.splits)

lemma split_on_no_sep: "sep \<notin> set s \<Longrightarrow> split_on sep s = [s]"
  by (induction s) auto

lemma split_on_append:
  "sep \<notin> set a \<Longrightarrow> split_on sep (a @ sep # b) = a # split_on sep b"
  by (induction a) auto

lemma split_once_append: "sep \<notin> set a \<Longrightarrow> split_once sep (a @ sep # b) = Some (a, b)"
  by (induction a) auto

lemma split_once_None: "split_once sep s = None \<longleftrightarrow> sep \<notin> set s"
  by (induction s) auto

lemma starts_with_append [simp]: "starts_with p (p @ s)"
  by (simp add: starts_with_def)

lemma starts_with_iff: "starts_with p s \<longleftrightarrow> (\<exists>t. s = p @ t)"
  by (metis append_eq_conv_conj append_take_drop_id starts_with_def)

lemma strip_prefix_append [simp]: "strip_prefix p (p @ s) = Some s"
  by (simp add: strip_prefix_def)

lemma strip_prefix_eq_Some: "strip_prefix p s = Some t \<longleftrightarrow> s = p @ t"
  by (auto simp: strip_prefix_def) (metis append_take_drop_id)


subsection \<open>Numbers in a radix\<close>

text \<open>\<open>char::to_digit\<close> for radices up to 36.\<close>

definition char_digit :: "nat \<Rightarrow> char \<Rightarrow> nat option" where
  "char_digit r c =
     (let n = byte c;
          d = (if 48 \<le> n \<and> n \<le> 57 then n - 48
               else if 97 \<le> n \<and> n \<le> 122 then n - 87
               else if 65 \<le> n \<and> n \<le> 90 then n - 55
               else 36)
      in if d < r \<and> d < 36 then Some d else None)"

fun digits_value :: "nat \<Rightarrow> nat \<Rightarrow> string \<Rightarrow> nat option" where
  "digits_value r acc [] = Some acc"
| "digits_value r acc (c # cs) =
     (case char_digit r c of None \<Rightarrow> None | Some d \<Rightarrow> digits_value r (acc * r + d) cs)"

text \<open>
  \<open>from_str_radix\<close> of an unsigned type with values below \<open>bound\<close>: the empty string and a
  lone sign are errors, one leading \<open>+\<close> is accepted, a value that does not fit is an
  error. (The library stops at the first bad digit or overflow; which of the two errors
  it reports is not observable in this program, so both are \<open>None\<close>.)
\<close>

definition from_str_radix :: "nat \<Rightarrow> nat \<Rightarrow> string \<Rightarrow> nat option" where
  "from_str_radix bound r s =
     (case s of
        [] \<Rightarrow> None
      | c # cs \<Rightarrow>
          if c = CHR ''+'' \<and> cs = [] then None
          else (case digits_value r 0 (if c = CHR ''+'' then cs else c # cs) of
                  None \<Rightarrow> None
                | Some n \<Rightarrow> if n < bound then Some n else None))"

definition digit_char :: "nat \<Rightarrow> char" where
  "digit_char d = char_of (if d < 10 then 48 + d else 87 + d)"

text \<open>\<open>format!("{:x}")\<close> (radix 16) and \<open>to_string\<close> (radix 10) of an unsigned value.\<close>

function to_radix :: "nat \<Rightarrow> nat \<Rightarrow> string" where
  "to_radix r n =
     (if r < 2 \<or> n < r then [digit_char n] else to_radix r (n div r) @ [digit_char (n mod r)])"
  by pat_completeness auto
termination
  by (relation "measure snd") auto

declare to_radix.simps [simp del]

text \<open>\<open>{:0w$x}\<close>: zero-padded to at least \<open>w\<close> digits.\<close>

definition to_radix_padded :: "nat \<Rightarrow> nat \<Rightarrow> nat \<Rightarrow> string" where
  "to_radix_padded r w n =
     (let s = to_radix r n in replicate (w - length s) (CHR ''0'') @ s)"

definition hex :: "nat \<Rightarrow> string" where
  "hex n = to_radix 16 n"

definition dec :: "nat \<Rightarrow> string" where
  "dec n = to_radix 10 n"

definition hex_padded :: "nat \<Rightarrow> nat \<Rightarrow> string" where
  "hex_padded w n = to_radix_padded 16 w n"

definition u64_from_hex :: "string \<Rightarrow> u64 option" where
  "u64_from_hex s = map_option of_nat (from_str_radix (2 ^ 64) 16 s)"

definition usize_from_hex :: "string \<Rightarrow> nat option" where
  "usize_from_hex s = from_str_radix (2 ^ 64) 16 s"

definition usize_from_dec :: "string \<Rightarrow> nat option" where
  "usize_from_dec s = from_str_radix (2 ^ 64) 10 s"

definition u32_from_dec :: "string \<Rightarrow> u32 option" where
  "u32_from_dec s = map_option of_nat (from_str_radix (2 ^ 32) 10 s)"

definition u64_hex :: "u64 \<Rightarrow> string" where
  "u64_hex w = hex (unat w)"

lemma char_digit_digit_char: "d < r \<Longrightarrow> r \<le> 16 \<Longrightarrow> char_digit r (digit_char d) = Some d"
  by (auto simp: char_digit_def digit_char_def Let_def)

lemma char_digit_less: "char_digit r c = Some d \<Longrightarrow> d < r"
  by (auto simp: char_digit_def Let_def split: if_splits)

lemma digits_value_append:
  "digits_value r acc (xs @ ys) =
     (case digits_value r acc xs of None \<Rightarrow> None | Some a \<Rightarrow> digits_value r a ys)"
  by (induction xs arbitrary: acc) (auto split: option.splits)

lemma digits_value_less:
  "0 < r \<Longrightarrow> digits_value r acc s = Some n \<Longrightarrow> n < (acc + 1) * r ^ length s"
proof (induction s arbitrary: acc)
  case (Cons c s)
  from Cons.prems obtain d where d: "char_digit r c = Some d" and n: "digits_value r (acc * r + d) s = Some n"
    by (auto split: option.splits)
  have "acc * r + d + 1 \<le> (acc + 1) * r" using char_digit_less [OF d] by simp
  then have "(acc * r + d + 1) * r ^ length s \<le> (acc + 1) * r * r ^ length s" by (rule mult_le_mono1)
  with Cons.IH [OF Cons.prems(1) n] have "n < (acc + 1) * r * r ^ length s" by (rule less_le_trans)
  then show ?case by (simp add: algebra_simps)
qed simp

lemma from_str_radix_less_length:
  assumes "0 < r" "from_str_radix bound r s = Some n"
  shows "n < r ^ length s"
proof (cases s)
  case (Cons c cs)
  let ?t = "if c = CHR ''+'' then cs else s"
  from Cons assms have "digits_value r 0 ?t = Some n" "length ?t \<le> length s"
    by (auto simp: from_str_radix_def split: if_splits option.splits)
  then show ?thesis
    using digits_value_less [of r 0 ?t n] power_increasing [of "length ?t" "length s" r] assms(1) by simp
qed (use assms in \<open>simp add: from_str_radix_def\<close>)

lemma digits_value_zeros:
  "0 < r \<Longrightarrow> digits_value r 0 (replicate k (CHR ''0'') @ s) = digits_value r 0 s"
  by (induction k) (auto simp: char_digit_def byte_def Let_def)

lemma digits_value_to_radix:
  "2 \<le> r \<Longrightarrow> r \<le> 16 \<Longrightarrow>
     digits_value r acc (to_radix r n) = Some (acc * r ^ length (to_radix r n) + n)"
proof (induction r n arbitrary: acc rule: to_radix.induct)
  case (1 r n)
  show ?case
  proof (cases "n < r")
    case True
    with 1 show ?thesis
      by (simp add: to_radix.simps [of r n] char_digit_digit_char)
  next
    case False
    with 1 show ?thesis
      by (simp add: to_radix.simps [of r n] digits_value_append char_digit_digit_char algebra_simps)
  qed
qed

lemma to_radix_not_Nil [simp]: "to_radix r n \<noteq> []"
  by (subst to_radix.simps) simp

lemma digit_char_not_plus: "d < 16 \<Longrightarrow> digit_char d \<noteq> CHR ''+''"
proof
  assume "d < 16" and "digit_char d = CHR ''+''"
  then have "byte (digit_char d) = byte (CHR ''+'')" by simp
  with \<open>d < 16\<close> show False by (auto simp: digit_char_def byte_def split: if_splits)
qed

lemma set_to_radix: "2 \<le> r \<Longrightarrow> r \<le> 16 \<Longrightarrow> c \<in> set (to_radix r n) \<Longrightarrow> \<exists>d < r. c = digit_char d"
proof (induction r n rule: to_radix.induct)
  case (1 r n)
  show ?case
  proof (cases "n < r")
    case True
    with 1 show ?thesis by (auto simp: to_radix.simps [of r n])
  next
    case False
    have "n mod r < r" using 1 by simp
    then have "\<exists>d<r. digit_char (n mod r) = digit_char d" by blast
    with 1 False show ?thesis by (auto simp: to_radix.simps [of r n])
  qed
qed

lemma to_radix_no_plus: "2 \<le> r \<Longrightarrow> r \<le> 16 \<Longrightarrow> CHR ''+'' \<notin> set (to_radix r n)"
  using set_to_radix digit_char_not_plus by (metis order_less_le_trans)

lemma from_str_radix_no_plus:
  "CHR ''+'' \<notin> set s \<Longrightarrow> s \<noteq> [] \<Longrightarrow> digits_value r 0 s = Some n \<Longrightarrow> n < bound \<Longrightarrow>
     from_str_radix bound r s = Some n"
  by (auto simp: from_str_radix_def split: list.splits)

lemma from_str_radix_to_radix:
  "2 \<le> r \<Longrightarrow> r \<le> 16 \<Longrightarrow> n < bound \<Longrightarrow> from_str_radix bound r (to_radix r n) = Some n"
  by (intro from_str_radix_no_plus) (simp_all add: to_radix_no_plus digits_value_to_radix)

lemma from_str_radix_to_radix_padded:
  "2 \<le> r \<Longrightarrow> r \<le> 16 \<Longrightarrow> n < bound \<Longrightarrow> from_str_radix bound r (to_radix_padded r w n) = Some n"
  by (intro from_str_radix_no_plus)
     (simp_all add: to_radix_padded_def Let_def to_radix_no_plus digits_value_zeros digits_value_to_radix)

lemma from_str_radix_bound: "from_str_radix bound r s = Some n \<Longrightarrow> n < bound"
  by (auto simp: from_str_radix_def split: list.splits if_splits option.splits)

lemma unat_u64_less [simp]: "unat (w :: u64) < 18446744073709551616"
  using unsigned_less [of w] by simp

lemma unat_u32_less [simp]: "unat (w :: u32) < 4294967296"
  using unsigned_less [of w] by simp

text \<open>Hexadecimal and decimal numbers are codecs: parsing what was printed gives it back.\<close>

interpretation u64_codec: codec u64_hex u64_from_hex "\<lambda>_. True"
proof
  fix w :: u64
  show "u64_from_hex (u64_hex w) = Some w"
    by (simp add: u64_from_hex_def u64_hex_def hex_def from_str_radix_to_radix)
qed

interpretation dec_codec: codec "dec" usize_from_dec "\<lambda>n. n < 2 ^ 64"
  by unfold_locales (simp add: dec_def usize_from_dec_def from_str_radix_to_radix)

interpretation u32_codec: codec "\<lambda>w. dec (unat w)" u32_from_dec "\<lambda>_. True"
proof
  fix w :: u32
  show "u32_from_dec (dec (unat w)) = Some w"
    by (simp add: u32_from_dec_def dec_def from_str_radix_to_radix)
qed

lemma length_to_radix_le:
  "2 \<le> r \<Longrightarrow> n < r ^ w \<Longrightarrow> 0 < w \<Longrightarrow> length (to_radix r n) \<le> w"
proof (induction r n arbitrary: w rule: to_radix.induct)
  case (1 r n)
  show ?case
  proof (cases "n < r")
    case True
    with 1 show ?thesis by (simp add: to_radix.simps [of r n])
  next
    case False
    then obtain v where w: "w = Suc v" "0 < v"
      using 1 by (cases w; cases "w - 1") auto
    have "n div r < r ^ v"
      using 1 w by (simp add: less_mult_imp_div_less mult.commute)
    with 1 False w show ?thesis by (simp add: to_radix.simps [of r n])
  qed
qed

lemma length_to_radix_padded:
  "2 \<le> r \<Longrightarrow> n < r ^ w \<Longrightarrow> 0 < w \<Longrightarrow> length (to_radix_padded r w n) = w"
  using length_to_radix_le [of r n w] by (simp add: to_radix_padded_def Let_def)

lemma length_to_radix_padded_ge: "w \<le> length (to_radix_padded r w n)"
  by (simp add: to_radix_padded_def Let_def)

lemma byte_digit_char: "d < 16 \<Longrightarrow> 48 \<le> byte (digit_char d) \<and> byte (digit_char d) < 128"
  by (auto simp: digit_char_def)

lemma set_to_radix_padded:
  "2 \<le> r \<Longrightarrow> r \<le> 16 \<Longrightarrow> c \<in> set (to_radix_padded r w n) \<Longrightarrow> 48 \<le> byte c \<and> byte c < 128"
  using set_to_radix [of r c n] byte_digit_char
  by (auto simp: to_radix_padded_def Let_def byte_def split: if_splits dest: order_less_le_trans)

lemma is_ascii_to_radix_padded: "2 \<le> r \<Longrightarrow> r \<le> 16 \<Longrightarrow> is_ascii (to_radix_padded r w n)"
  using set_to_radix_padded by (auto simp: is_ascii_def list_all_iff)

text \<open>\<open>usize::checked_mul\<close> and \<open>checked_add\<close> on 64-bit words.\<close>

definition checked_mul :: "u64 \<Rightarrow> u64 \<Rightarrow> u64 option" where
  "checked_mul a b = (if unat a * unat b < 2 ^ 64 then Some (a * b) else None)"

definition checked_add :: "u64 \<Rightarrow> u64 \<Rightarrow> u64 option" where
  "checked_add a b = (if unat a + unat b < 2 ^ 64 then Some (a + b) else None)"

lemma checked_mul_Some: "checked_mul a b = Some c \<longleftrightarrow> unat c = unat a * unat b"
proof -
  have "unat a * unat b < 18446744073709551616" if "unat c = unat a * unat b"
    using that unat_u64_less [of c] by simp
  then show ?thesis by (auto simp: checked_mul_def word_unat_eq_iff unat_word_ariths)
qed

lemma checked_add_Some: "checked_add a b = Some c \<longleftrightarrow> unat c = unat a + unat b"
proof -
  have "unat a + unat b < 18446744073709551616" if "unat c = unat a + unat b"
    using that unat_u64_less [of c] by simp
  then show ?thesis by (auto simp: checked_add_def word_unat_eq_iff unat_word_ariths)
qed

lemma checked_mul_None: "checked_mul a b = None \<longleftrightarrow> 2 ^ 64 \<le> unat a * unat b"
  by (simp add: checked_mul_def)

lemma checked_add_None: "checked_add a b = None \<longleftrightarrow> 2 ^ 64 \<le> unat a + unat b"
  by (simp add: checked_add_def)

end
