(* ===== verification/Keri_Json.thy ===== *)
theory Keri_Json
  imports Keri_Prelude
begin

section \<open>JSON values and the derived decoders\<close>

text \<open>
  \<open>serde_json::Value\<close> as the program uses it. The workspace builds \<open>serde_json\<close> with
  \<open>preserve_order\<close>, so an object is an insertion-ordered map: an association list whose
  keys are distinct (\<open>json_ok\<close>), \<open>get\<close> is a lookup, and \<open>insert\<close> replaces the value of
  a key where it stands or appends a new pair (\<open>AList.update\<close>).

  \<open>struct_fields\<close> is what \<open>#[derive(Deserialize)]\<close> does for a struct whose fields are all
  required: an object yields the values of the named fields, whatever their order and
  whatever else it holds; an array yields its elements by position and must have exactly
  as many. The decoders of the field types are the ones the structs of the program use.
\<close>

datatype jnumber = PosInt u64 | NegInt int | Float string

datatype json =
    JNull
  | JBool bool
  | JNumber jnumber
  | JString string
  | JArray "json list"
  | JObject "(string \<times> json) list"

type_synonym jobject = "(string \<times> json) list"

fun as_str :: "json \<Rightarrow> string option" where
  "as_str (JString s) = Some s"
| "as_str _ = None"

fun as_array :: "json \<Rightarrow> json list option" where
  "as_array (JArray xs) = Some xs"
| "as_array _ = None"

fun as_object :: "json \<Rightarrow> jobject option" where
  "as_object (JObject obj) = Some obj"
| "as_object _ = None"

text \<open>\<open>Number::as_u64\<close>: only a non-negative integer has one.\<close>

fun as_u64 :: "jnumber \<Rightarrow> u64 option" where
  "as_u64 (PosInt n) = Some n"
| "as_u64 _ = None"

text \<open>\<open>Value::get\<close> with a string index: \<open>None\<close> on anything but an object.\<close>

fun jget :: "json \<Rightarrow> string \<Rightarrow> json option" where
  "jget (JObject obj) k = map_of obj k"
| "jget _ _ = None"

definition get_str :: "json \<Rightarrow> string \<Rightarrow> string option" where
  "get_str v k = Option.bind (jget v k) as_str"

text \<open>
  \<open>obj.insert(k, v)\<close> on the object of a value, and \<open>v[k] = x\<close>; both are only used on
  objects.
\<close>

fun jinsert :: "string \<Rightarrow> json \<Rightarrow> json \<Rightarrow> json" where
  "jinsert k x (JObject obj) = JObject (AList.update k x obj)"
| "jinsert k x v = v"

text \<open>Objects hold each key once, at every depth.\<close>

fun json_ok :: "json \<Rightarrow> bool" where
  "json_ok (JArray xs) = list_all json_ok xs"
| "json_ok (JObject obj) = (distinct (map fst obj) \<and> list_all (\<lambda>p. json_ok (snd p)) obj)"
| "json_ok _ = True"

text \<open>
  \<open>==\<close> on values: objects are compared as maps, whatever the order of their members.
\<close>

lemma size_zip_member: "(x, y) \<in> set (zip xs ys) \<Longrightarrow> size x < Suc (size_list size xs)"
  using size_list_estimation' [of x xs "size x" size] by (auto dest: set_zip_leftD)

lemma size_pair_member: "(k, y) \<in> set a \<Longrightarrow> size y < Suc (size_list (size_prod (\<lambda>_. 0) size) a)"
  using size_list_estimation' [of "(k, y)" a "size y" "size_prod (\<lambda>_. 0) size"] by simp

function jeq :: "json \<Rightarrow> json \<Rightarrow> bool" where
  "jeq (JArray xs) (JArray ys) = (length xs = length ys \<and> (\<forall>(x, y) \<in> set (zip xs ys). jeq x y))"
| "jeq (JObject a) (JObject b) =
     (length a = length b \<and>
      (\<forall>(k, x) \<in> set a. case map_of b k of None \<Rightarrow> False | Some y \<Rightarrow> jeq x y))"
| "jeq JNull w = (w = JNull)"
| "jeq (JBool p) w = (w = JBool p)"
| "jeq (JNumber n) w = (w = JNumber n)"
| "jeq (JString s) w = (w = JString s)"
| "jeq (JArray xs) JNull = False"
| "jeq (JArray xs) (JBool q) = False"
| "jeq (JArray xs) (JNumber m) = False"
| "jeq (JArray xs) (JString t) = False"
| "jeq (JArray xs) (JObject b) = False"
| "jeq (JObject a) JNull = False"
| "jeq (JObject a) (JBool q) = False"
| "jeq (JObject a) (JNumber m) = False"
| "jeq (JObject a) (JString t) = False"
| "jeq (JObject a) (JArray ys) = False"
  by pat_completeness auto
termination
  by (relation "measure (\<lambda>p. size (fst p))") (auto simp: size_zip_member size_pair_member)

lemma jeq_JString [simp]: "jeq w (JString s) \<longleftrightarrow> w = JString s"
  by (cases w) auto

lemma get_str_eq_Some: "get_str v k = Some s \<longleftrightarrow> jget v k = Some (JString s)"
proof -
  have "as_str w = Some s \<longleftrightarrow> w = JString s" for w by (cases w) auto
  then show ?thesis by (auto simp: get_str_def bind_eq_Some_conv)
qed

lemma jget_eq_Some_object: "jget v k = Some x \<Longrightarrow> \<exists>obj. v = JObject obj"
  by (cases v) auto

lemma jget_jinsert:
  "v = JObject obj \<Longrightarrow> jget (jinsert k x v) l = (if l = k then Some x else jget v l)"
  by (simp add: update_conv)

lemma jget_jinsert_object [simp]:
  "jget (jinsert k x (JObject obj)) l = (if l = k then Some x else jget (JObject obj) l)"
  by (simp add: update_conv)

lemma as_object_jinsert [simp]:
  "as_object (jinsert k x v) = map_option (AList.update k x) (as_object v)"
  by (cases v) auto

lemma keys_update:
  "map fst (AList.update k x al) = (if k \<in> set (map fst al) then map fst al else map fst al @ [k])"
  by (induction al) auto

lemma update_update_same [simp]: "AList.update k x (AList.update k y al) = AList.update k x al"
  by (induction al) auto

lemma update_swap:
  "k \<noteq> l \<Longrightarrow> k \<in> set (map fst al) \<Longrightarrow>
     AList.update k x (AList.update l y al) = AList.update l y (AList.update k x al)"
  by (induction al) (auto simp: image_iff)

lemma update_idem: "distinct (map fst al) \<Longrightarrow> map_of al k = Some x \<Longrightarrow> AList.update k x al = al"
proof (induction al)
  case (Cons p al)
  then show ?case by (cases p) (auto split: if_splits)
qed simp

lemma jinsert_same [simp]: "jinsert k x (jinsert k y v) = jinsert k x v"
  by (cases v) auto

lemma jinsert_swap:
  "k \<noteq> l \<Longrightarrow> jget v k = Some a \<Longrightarrow> jinsert k x (jinsert l y v) = jinsert l y (jinsert k x v)"
proof (cases v)
  case (JObject obj)
  assume "k \<noteq> l" and "jget v k = Some a"
  with JObject show ?thesis by (force intro: update_swap dest: map_of_SomeD)
qed auto

lemma jinsert_idem: "json_ok v \<Longrightarrow> jget v k = Some x \<Longrightarrow> jinsert k x v = v"
  by (cases v) (auto simp: update_idem)

lemma json_ok_update:
  "json_ok x \<Longrightarrow> json_ok (JObject obj) \<Longrightarrow> json_ok (JObject (AList.update k x obj))"
proof -
  assume x: "json_ok x" and obj: "json_ok (JObject obj)"
  have "list_all (\<lambda>p. json_ok (snd p)) (AList.update k x obj)"
    using x obj by (induction obj) (auto split: if_splits)
  then show ?thesis using obj by (simp add: distinct_update)
qed

lemma json_ok_jinsert: "json_ok x \<Longrightarrow> json_ok v \<Longrightarrow> json_ok (jinsert k x v)"
  by (cases v) (use json_ok_update in auto)


subsection \<open>Derived struct decoders\<close>

definition struct_fields :: "string list \<Rightarrow> json \<Rightarrow> json list option" where
  "struct_fields names v =
     (case v of
        JObject obj \<Rightarrow> those (map (map_of obj) names)
      | JArray xs \<Rightarrow> if length xs = length names then Some xs else None
      | _ \<Rightarrow> None)"

text \<open>\<open>Vec<String>\<close>: an array, all of whose elements are strings.\<close>

definition string_list :: "json \<Rightarrow> string list option" where
  "string_list v = Option.bind (as_array v) (\<lambda>xs. those (map as_str xs))"

definition jstrings :: "string list \<Rightarrow> json" where
  "jstrings ss = JArray (map JString ss)"

lemma those_eq_Some: "those xs = Some ys \<longleftrightarrow> list_all2 (\<lambda>x y. x = Some y) xs ys"
  by (induction xs arbitrary: ys)
     (auto split: option.splits simp: list_all2_Cons1)

lemma those_map_Some [simp]: "those (map (\<lambda>x. Some (f x)) xs) = Some (map f xs)"
  by (induction xs) auto

lemma string_list_jstrings [simp]: "string_list (jstrings ss) = Some ss"
proof -
  have "map as_str (map JString ss) = map (\<lambda>s. Some s) ss" by simp
  then show ?thesis
    using those_map_Some [of "\<lambda>s. s" ss] by (simp add: string_list_def jstrings_def comp_def)
qed

lemma as_str_eq_Some [simp]: "as_str v = Some s \<longleftrightarrow> v = JString s"
  by (cases v) auto

lemma as_array_eq_Some [simp]: "as_array v = Some xs \<longleftrightarrow> v = JArray xs"
  by (cases v) auto

lemma as_object_eq_Some [simp]: "as_object v = Some obj \<longleftrightarrow> v = JObject obj"
  by (cases v) auto

lemma string_list_eq_Some: "string_list v = Some ss \<longleftrightarrow> v = jstrings ss"
proof
  assume "string_list v = Some ss"
  then obtain xs where v: "v = JArray xs" and "list_all2 (\<lambda>x s. as_str x = Some s) xs ss"
    by (auto simp: string_list_def bind_eq_Some_conv those_eq_Some list_all2_map1)
  then have "xs = map JString ss"
    by (auto simp: list_all2_conv_all_nth list_eq_iff_nth_eq)
  with v show "v = jstrings ss" by (simp add: jstrings_def)
qed simp

lemma struct_fields_object:
  "struct_fields names (JObject obj) = those (map (map_of obj) names)"
  by (simp add: struct_fields_def)

interpretation strings_codec: exact_codec jstrings string_list "\<lambda>_. True"
  by unfold_locales (auto simp: string_list_eq_Some)

end
