(* ===== verification/Keri_Errors.thy ===== *)
theory Keri_Errors
  imports Keri_Json
begin

section \<open>Error types\<close>

text \<open>
  The error enums of the four crates. A variant keeps the source's constructor and its
  structured payload; a free-text payload is a string, of which the model keeps the fixed
  words that tell the failing check apart (the interpolated values are left out). The
  errors of third-party crates (CESR, \<open>serde_json\<close>, \<open>heed\<close>) are opaque messages.
\<close>

text \<open>\<open>affinidi-keri-crypto/src/error.rs\<close>\<close>

datatype crypto_error =
    CryptoCesr string
  | InvalidKeySize nat nat
  | VerificationFailed
  | DigestMismatch
  | UnsupportedAlgorithm string
  | KeyDerivation string
  | Conversion string
  | MissingVerfer
  | InvalidSignature string
  | InvalidKey string

text \<open>\<open>affinidi-keri-core/src/error.rs\<close>\<close>

datatype core_error =
    Cesr string
  | Crypto crypto_error
  | Json string
  | Cbor string
  | MsgPack string
  | UnexpectedIlk string
  | MissingField string
  | SaidMismatch
  | OutOfOrder u64 u64
  | ThresholdNotMet
  | DuplicateEvent u64
  | InvalidPrefix string
  | InvalidVersion string
  | ParseError string
  | Validation string

text \<open>\<open>affinidi-keri-db/src/error.rs\<close>\<close>

datatype db_error =
    Database string
  | DbNotFound string
  | Serialization string
  | Lmdb string
  | Transaction string
  | Duplicate string

text \<open>\<open>affinidi-keri/src/error.rs\<close>\<close>

datatype keri_error =
    KeriCesr string
  | KeriCrypto crypto_error
  | KeriCore core_error
  | KeriDb db_error
  | KeriConfig string
  | NotFound string
  | AlreadyExists string

type_synonym 'a crypto_result = "crypto_error + 'a"
type_synonym 'a core_result = "core_error + 'a"
type_synonym 'a db_result = "db_error + 'a"
type_synonym 'a keri_result = "keri_error + 'a"

text \<open>The \<open>#[from]\<close> conversions that the \<open>?\<close> operator inserts.\<close>

abbreviation crypto :: "'a crypto_result \<Rightarrow> 'a core_result" where
  "crypto \<equiv> map_err Crypto"

abbreviation core :: "'a core_result \<Rightarrow> 'a keri_result" where
  "core \<equiv> map_err KeriCore"

abbreviation db :: "'a db_result \<Rightarrow> 'a keri_result" where
  "db \<equiv> map_err KeriDb"

end
