(* ===== verification/Keri_Prims.thy ===== *)
theory Keri_Prims
  imports Keri_Errors
begin

section \<open>Third-party code as a parameter\<close>

text \<open>
  The program calls code that is not in the repository: the CESR codec
  (\<open>affinidi-cesr\<close>), the signature and digest crates, Argon2, and the JSON, CBOR and
  MessagePack (de)serialisers. The record \<open>prims\<close> collects what the program calls of
  them; every definition that needs one takes a \<open>prims\<close> as its first argument, and no
  definition is made up for them. \<open>Matter\<close>, \<open>Indexer\<close> and \<open>Counter\<close> are known by their
  accessors only.

  What a property relies on is one of the named hypotheses below, each a documented
  behaviour of that code.
\<close>

record matter =
  mat_code :: string
  mat_raw :: bytes

record indexer =
  idx_code :: string
  idx_index :: nat
  idx_ondex :: "nat option"
  idx_raw :: bytes

record counter =
  ctr_code :: string
  ctr_count :: nat

record prims =
  \<comment> \<open>\<open>affinidi_cesr\<close>; error values are its messages\<close>
  matter_new :: "string \<Rightarrow> bytes \<Rightarrow> string + matter"
  matter_from_qb64 :: "string \<Rightarrow> string + matter"
  matter_qb64 :: "matter \<Rightarrow> string + string"
  matter_fs :: "string \<Rightarrow> nat option" \<comment> \<open>\<open>tables::matter_sizage(code).fs\<close>\<close>
  indexer_new :: "string \<Rightarrow> nat \<Rightarrow> nat option \<Rightarrow> bytes \<Rightarrow> string + indexer"
  indexer_from_qb64 :: "string \<Rightarrow> string + indexer"
  indexer_qb64 :: "indexer \<Rightarrow> string + string"
  indexer_fs :: "string \<Rightarrow> nat option" \<comment> \<open>\<open>tables::indexer_sizage(code).fs\<close>\<close>
  hardage :: "char \<Rightarrow> nat option"
  counter_new :: "string \<Rightarrow> nat \<Rightarrow> string + counter"
  counter_from_qb64 :: "string \<Rightarrow> string + counter"
  counter_qb64 :: "counter \<Rightarrow> string + string"
  counter_full_size :: "counter \<Rightarrow> nat"
  \<comment> \<open>\<open>ed25519_dalek\<close>\<close>
  ed25519_public :: "bytes \<Rightarrow> bytes"
  ed25519_sign :: "bytes \<Rightarrow> bytes \<Rightarrow> bytes"
  ed25519_point_ok :: "bytes \<Rightarrow> bool"
  ed25519_verify :: "bytes \<Rightarrow> bytes \<Rightarrow> bytes \<Rightarrow> bool"
  \<comment> \<open>\<open>k256::ecdsa\<close>\<close>
  k256_secret_ok :: "bytes \<Rightarrow> bool"
  k256_public :: "bytes \<Rightarrow> bytes"
  k256_sign :: "bytes \<Rightarrow> bytes \<Rightarrow> bytes"
  k256_point_ok :: "bytes \<Rightarrow> bool"
  k256_sig_ok :: "bytes \<Rightarrow> bool"
  k256_verify :: "bytes \<Rightarrow> bytes \<Rightarrow> bytes \<Rightarrow> bool"
  \<comment> \<open>\<open>p256::ecdsa\<close>\<close>
  p256_secret_ok :: "bytes \<Rightarrow> bool"
  p256_public :: "bytes \<Rightarrow> bytes"
  p256_sign :: "bytes \<Rightarrow> bytes \<Rightarrow> bytes"
  p256_point_ok :: "bytes \<Rightarrow> bool"
  p256_sig_ok :: "bytes \<Rightarrow> bool"
  p256_verify :: "bytes \<Rightarrow> bytes \<Rightarrow> bytes \<Rightarrow> bool"
  \<comment> \<open>digests: the output of each hash function the crate calls\<close>
  h_blake3_256 :: "bytes \<Rightarrow> bytes"
  h_blake3_512 :: "bytes \<Rightarrow> bytes"
  h_blake2b_256 :: "bytes \<Rightarrow> bytes"
  h_blake2b_512 :: "bytes \<Rightarrow> bytes"
  h_blake2s_256 :: "bytes \<Rightarrow> bytes"
  h_sha3_256 :: "bytes \<Rightarrow> bytes"
  h_sha3_512 :: "bytes \<Rightarrow> bytes"
  h_sha2_256 :: "bytes \<Rightarrow> bytes"
  h_sha2_512 :: "bytes \<Rightarrow> bytes"
  \<comment> \<open>\<open>argon2\<close>: memory, time and lane costs, output length, password, salt\<close>
  argon2id :: "nat \<Rightarrow> nat \<Rightarrow> nat \<Rightarrow> nat \<Rightarrow> bytes \<Rightarrow> bytes \<Rightarrow> string + bytes"
  \<comment> \<open>\<open>serde_json\<close>, \<open>ciborium\<close>, \<open>rmp_serde\<close>\<close>
  json_to_vec :: "json \<Rightarrow> string + bytes"
  json_from_slice :: "bytes \<Rightarrow> string + json"
  cbor_to_vec :: "json \<Rightarrow> string + bytes"
  cbor_from_slice :: "bytes \<Rightarrow> string + json"
  msgpack_to_vec :: "json \<Rightarrow> string + bytes"
  msgpack_from_slice :: "bytes \<Rightarrow> string + json"


subsection \<open>Documented behaviour that properties may assume\<close>

text \<open>\<open>Matter::new\<close> keeps what it is given, and its qb64 text reads back as it.\<close>

definition matter_laws :: "prims \<Rightarrow> bool" where
  "matter_laws pr \<longleftrightarrow>
     (\<forall>c r m. matter_new pr c r = Inr m \<longrightarrow> mat_code m = c \<and> mat_raw m = r) \<and>
     (\<forall>c r m. matter_new pr c r = Inr m \<longrightarrow>
        (\<exists>q. matter_qb64 pr m = Inr q \<and> matter_from_qb64 pr q = Inr m \<and>
             (\<forall>n. matter_fs pr c = Some n \<longrightarrow> 0 < n \<longrightarrow> length q = n)))"

text \<open>A signature scheme verifies what it signed, and its keys and signatures are well formed.\<close>

definition signature_laws :: "prims \<Rightarrow> bool" where
  "signature_laws pr \<longleftrightarrow>
     (\<forall>sk. length sk = 32 \<longrightarrow>
        length (ed25519_public pr sk) = 32 \<and> ed25519_point_ok pr (ed25519_public pr sk) \<and>
        (\<forall>m. length (ed25519_sign pr sk m) = 64 \<and>
             ed25519_verify pr (ed25519_public pr sk) m (ed25519_sign pr sk m))) \<and>
     (\<forall>sk. k256_secret_ok pr sk \<longrightarrow>
        k256_point_ok pr (k256_public pr sk) \<and>
        (\<forall>m. k256_sig_ok pr (k256_sign pr sk m) \<and>
             k256_verify pr (k256_public pr sk) m (k256_sign pr sk m))) \<and>
     (\<forall>sk. p256_secret_ok pr sk \<longrightarrow>
        p256_point_ok pr (p256_public pr sk) \<and>
        (\<forall>m. p256_sig_ok pr (p256_sign pr sk m) \<and>
             p256_verify pr (p256_public pr sk) m (p256_sign pr sk m)))"

text \<open>\<open>serde_json\<close> reads the text it printed for a value back as the value.\<close>

definition reads_back :: "prims \<Rightarrow> json \<Rightarrow> bool" where
  "reads_back pr v \<longleftrightarrow> (\<exists>bs. json_to_vec pr v = Inr bs \<and> json_from_slice pr bs = Inr v)"

text \<open>An indexed signature keeps the code, index and bytes it is made of.\<close>

definition indexer_laws :: "prims \<Rightarrow> bool" where
  "indexer_laws pr \<longleftrightarrow>
     (\<forall>c i o' r x. indexer_new pr c i o' r = Inr x \<longrightarrow> x = \<lparr>idx_code = c, idx_index = i, idx_ondex = o', idx_raw = r\<rparr>)"

text \<open>
  \<open>serde_json\<close> writes a text without escapes as it is: to replace one such text of an
  object by another changes the length of the output by the difference of their lengths.
\<close>

definition plain :: "string \<Rightarrow> bool" where
  "plain s \<longleftrightarrow> list_all (\<lambda>c. 32 \<le> byte c \<and> byte c < 127 \<and> byte c \<noteq> 34 \<and> byte c \<noteq> 92) s"

definition width_laws :: "prims \<Rightarrow> bool" where
  "width_laws pr \<longleftrightarrow>
     (\<forall>obj k s t bs. plain s \<longrightarrow> plain t \<longrightarrow> json_to_vec pr (jinsert k (JString s) (JObject obj)) = Inr bs \<longrightarrow>
        (\<exists>bs'. json_to_vec pr (jinsert k (JString t) (JObject obj)) = Inr bs' \<and>
           length bs' + length s = length bs + length t))"

lemma width_lawsE:
  assumes "width_laws pr" "plain s" "plain t" "json_to_vec pr (jinsert k (JString s) (JObject obj)) = Inr bs"
  obtains bs' where "json_to_vec pr (jinsert k (JString t) (JObject obj)) = Inr bs'"
    "length bs' + length s = length bs + length t"
  using assms unfolding width_laws_def by blast

text \<open>
  A value of texts without escapes, which \<open>serde_json\<close> writes as they are, nested at most
  \<open>n\<close> deep: what key event messages are made of, apart from numbers in the seals they anchor.
\<close>

fun text_json :: "nat \<Rightarrow> json \<Rightarrow> bool" where
  "text_json n (JString s) = plain s"
| "text_json n (JArray xs) = (0 < n \<and> list_all (text_json (n - 1)) xs)"
| "text_json n (JObject obj) =
     (0 < n \<and> distinct (map fst obj) \<and> list_all (\<lambda>p. plain (fst p) \<and> text_json (n - 1) (snd p)) obj)"
| "text_json n (JNumber x) = False"
| "text_json n _ = True"

lemma text_json_update:
  assumes "plain k" "text_json (n - 1) x" "text_json n (JObject obj)"
  shows "text_json n (JObject (AList.update k x obj))"
proof -
  have "list_all (\<lambda>p. plain (fst p) \<and> text_json (n - 1) (snd p)) (AList.update k x obj)"
    using assms by (induction obj) (auto split: if_splits)
  then show ?thesis using assms(3) by (simp add: distinct_update)
qed

lemma text_json_jinsert: "plain k \<Longrightarrow> text_json (n - 1) x \<Longrightarrow> text_json n v \<Longrightarrow> text_json n (jinsert k x v)"
  by (cases v) (use text_json_update in auto)

text \<open>The qb64 text of a primitive is of the URL-safe Base64 alphabet.\<close>

definition text_laws :: "prims \<Rightarrow> bool" where
  "text_laws pr \<longleftrightarrow> (\<forall>c r m q. matter_new pr c r = Inr m \<longrightarrow> matter_qb64 pr m = Inr q \<longrightarrow> plain q)"

lemma matter_lawsD:
  "matter_laws pr \<Longrightarrow> matter_new pr c r = Inr m \<Longrightarrow> mat_code m = c \<and> mat_raw m = r"
  by (simp add: matter_laws_def)

lemma matter_laws_qb64:
  assumes "matter_laws pr" "matter_new pr c r = Inr m"
  obtains q where "matter_qb64 pr m = Inr q" "matter_from_qb64 pr q = Inr m"
    "\<And>n. matter_fs pr c = Some n \<Longrightarrow> 0 < n \<Longrightarrow> length q = n"
  using assms unfolding matter_laws_def by blast

end
