(* ===== verification/Keri_Crypto.thy ===== *)
theory Keri_Crypto
  imports Keri_Prims
begin

section \<open>Cryptographic primitives (affinidi-keri-crypto)\<close>

text \<open>
  \<open>Verfer\<close> (public keys), \<open>Diger\<close> (digests), \<open>Siger\<close> and \<open>Cigar\<close> (indexed and plain
  signatures), \<open>Signer\<close> (private keys), \<open>Salter\<close> (key derivation) and \<open>Prefixer\<close>
  (identifier prefixes). All are thin layers of code checks and dispatch over the CESR
  and signature crates, which come in through \<open>prims\<close>. Constant-time comparison
  (\<open>ct_eq\<close>) is equality here.
\<close>


subsection \<open>Verfer\<close>

record verfer =
  vf_matter :: matter

definition verfer_codes :: "string list" where
  "verfer_codes = [''B'', ''D'', ''1AAA'', ''1AAB'', ''1AAI'', ''1AAJ'']"

definition verfer_validate_code :: "string \<Rightarrow> unit crypto_result" where
  "verfer_validate_code code =
     (if List.member verfer_codes code then Inr ()
      else Inl (UnsupportedAlgorithm ''unsupported verfer code''))"

definition verfer_new :: "prims \<Rightarrow> string \<Rightarrow> bytes \<Rightarrow> verfer crypto_result" where
  "verfer_new pr code raw =
     bindR (verfer_validate_code code) (\<lambda>_.
     bindR (map_err CryptoCesr (matter_new pr code raw)) (\<lambda>m.
     Inr \<lparr>vf_matter = m\<rparr>))"

definition verfer_from_qb64 :: "prims \<Rightarrow> string \<Rightarrow> verfer crypto_result" where
  "verfer_from_qb64 pr qb64 =
     bindR (map_err CryptoCesr (matter_from_qb64 pr qb64)) (\<lambda>m.
     bindR (verfer_validate_code (mat_code m)) (\<lambda>_.
     Inr \<lparr>vf_matter = m\<rparr>))"

definition verfer_code :: "verfer \<Rightarrow> string" where
  "verfer_code v = mat_code (vf_matter v)"

definition verfer_raw :: "verfer \<Rightarrow> bytes" where
  "verfer_raw v = mat_raw (vf_matter v)"

definition verfer_qb64 :: "prims \<Rightarrow> verfer \<Rightarrow> string crypto_result" where
  "verfer_qb64 pr v = map_err CryptoCesr (matter_qb64 pr (vf_matter v))"

definition verfer_transferable :: "verfer \<Rightarrow> bool" where
  "verfer_transferable v = List.member [''D'', ''1AAB'', ''1AAJ''] (verfer_code v)"

definition verify_ed25519 :: "prims \<Rightarrow> verfer \<Rightarrow> bytes \<Rightarrow> bytes \<Rightarrow> bool crypto_result" where
  "verify_ed25519 pr v message signature =
     (if length (verfer_raw v) \<noteq> 32 then Inl (InvalidKeySize 32 (length (verfer_raw v)))
      else if \<not> ed25519_point_ok pr (verfer_raw v) then Inl (InvalidKey ''invalid Ed25519 public key'')
      else if length signature \<noteq> 64 then Inl (InvalidSignature ''invalid Ed25519 signature length'')
      else Inr (ed25519_verify pr (verfer_raw v) message signature))"

definition verify_secp256k1 :: "prims \<Rightarrow> verfer \<Rightarrow> bytes \<Rightarrow> bytes \<Rightarrow> bool crypto_result" where
  "verify_secp256k1 pr v message signature =
     (if \<not> k256_point_ok pr (verfer_raw v) then Inl (InvalidKey ''invalid secp256k1 public key'')
      else if \<not> k256_sig_ok pr signature then Inl (InvalidSignature ''invalid secp256k1 signature'')
      else Inr (k256_verify pr (verfer_raw v) message signature))"

definition verify_secp256r1 :: "prims \<Rightarrow> verfer \<Rightarrow> bytes \<Rightarrow> bytes \<Rightarrow> bool crypto_result" where
  "verify_secp256r1 pr v message signature =
     (if \<not> p256_point_ok pr (verfer_raw v) then Inl (InvalidKey ''invalid secp256r1 public key'')
      else if \<not> p256_sig_ok pr signature then Inl (InvalidSignature ''invalid secp256r1 signature'')
      else Inr (p256_verify pr (verfer_raw v) message signature))"

definition verfer_verify :: "prims \<Rightarrow> verfer \<Rightarrow> bytes \<Rightarrow> bytes \<Rightarrow> bool crypto_result" where
  "verfer_verify pr v message signature =
     (if List.member [''B'', ''D''] (verfer_code v) then verify_ed25519 pr v message signature
      else if List.member [''1AAA'', ''1AAB''] (verfer_code v) then verify_secp256k1 pr v message signature
      else if List.member [''1AAI'', ''1AAJ''] (verfer_code v) then verify_secp256r1 pr v message signature
      else Inl (UnsupportedAlgorithm (verfer_code v)))"


subsection \<open>Diger\<close>

record diger =
  dg_matter :: matter

definition diger_codes :: "string list" where
  "diger_codes = [''E'', ''F'', ''G'', ''H'', ''I'', ''0D'', ''0E'', ''0F'', ''0G'']"

definition diger_validate_code :: "string \<Rightarrow> unit crypto_result" where
  "diger_validate_code code =
     (if List.member diger_codes code then Inr ()
      else Inl (UnsupportedAlgorithm ''unsupported digest code''))"

definition compute_digest :: "prims \<Rightarrow> string \<Rightarrow> bytes \<Rightarrow> bytes crypto_result" where
  "compute_digest pr code data =
     (if code = ''E'' then Inr (h_blake3_256 pr data)
      else if code = ''F'' then Inr (h_blake2b_256 pr data)
      else if code = ''G'' then Inr (h_blake2s_256 pr data)
      else if code = ''H'' then Inr (h_sha3_256 pr data)
      else if code = ''I'' then Inr (h_sha2_256 pr data)
      else if code = ''0D'' then Inr (h_blake3_512 pr data)
      else if code = ''0E'' then Inr (h_blake2b_512 pr data)
      else if code = ''0F'' then Inr (h_sha3_512 pr data)
      else if code = ''0G'' then Inr (h_sha2_512 pr data)
      else Inl (UnsupportedAlgorithm ''unsupported digest code''))"

definition diger_new :: "prims \<Rightarrow> string \<Rightarrow> bytes \<Rightarrow> diger crypto_result" where
  "diger_new pr code raw =
     bindR (diger_validate_code code) (\<lambda>_.
     bindR (map_err CryptoCesr (matter_new pr code raw)) (\<lambda>m.
     Inr \<lparr>dg_matter = m\<rparr>))"

definition diger_from_data :: "prims \<Rightarrow> string \<Rightarrow> bytes \<Rightarrow> diger crypto_result" where
  "diger_from_data pr code data =
     bindR (compute_digest pr code data) (\<lambda>raw.
     bindR (map_err CryptoCesr (matter_new pr code raw)) (\<lambda>m.
     Inr \<lparr>dg_matter = m\<rparr>))"

definition diger_from_qb64 :: "prims \<Rightarrow> string \<Rightarrow> diger crypto_result" where
  "diger_from_qb64 pr qb64 =
     bindR (map_err CryptoCesr (matter_from_qb64 pr qb64)) (\<lambda>m.
     bindR (diger_validate_code (mat_code m)) (\<lambda>_.
     Inr \<lparr>dg_matter = m\<rparr>))"

definition diger_qb64 :: "prims \<Rightarrow> diger \<Rightarrow> string crypto_result" where
  "diger_qb64 pr d = map_err CryptoCesr (matter_qb64 pr (dg_matter d))"

definition diger_verify :: "prims \<Rightarrow> diger \<Rightarrow> bytes \<Rightarrow> bool crypto_result" where
  "diger_verify pr d data =
     bindR (compute_digest pr (mat_code (dg_matter d)) data) (\<lambda>recomputed.
     Inr (recomputed = mat_raw (dg_matter d)))"

text \<open>The qb64 text of the digest of some data, as the callers of \<open>Diger::from_data\<close> want it.\<close>

definition digest_qb64 :: "prims \<Rightarrow> string \<Rightarrow> bytes \<Rightarrow> string crypto_result" where
  "digest_qb64 pr code data = bindR (diger_from_data pr code data) (diger_qb64 pr)"


subsection \<open>Siger and Cigar\<close>

record siger =
  sg_indexer :: indexer
  sg_verfer :: "verfer option"

definition siger_new :: "prims \<Rightarrow> string \<Rightarrow> nat \<Rightarrow> nat option \<Rightarrow> bytes \<Rightarrow> siger crypto_result" where
  "siger_new pr code index ondex raw =
     bindR (map_err CryptoCesr (indexer_new pr code index ondex raw)) (\<lambda>ix.
     Inr \<lparr>sg_indexer = ix, sg_verfer = None\<rparr>)"

definition siger_new_with_verfer ::
    "prims \<Rightarrow> string \<Rightarrow> nat \<Rightarrow> nat option \<Rightarrow> bytes \<Rightarrow> verfer \<Rightarrow> siger crypto_result" where
  "siger_new_with_verfer pr code index ondex raw v =
     bindR (map_err CryptoCesr (indexer_new pr code index ondex raw)) (\<lambda>ix.
     Inr \<lparr>sg_indexer = ix, sg_verfer = Some v\<rparr>)"

definition siger_from_qb64 :: "prims \<Rightarrow> string \<Rightarrow> siger crypto_result" where
  "siger_from_qb64 pr qb64 =
     bindR (map_err CryptoCesr (indexer_from_qb64 pr qb64)) (\<lambda>ix.
     Inr \<lparr>sg_indexer = ix, sg_verfer = None\<rparr>)"

definition siger_set_verfer :: "siger \<Rightarrow> verfer \<Rightarrow> siger" where
  "siger_set_verfer s v = s\<lparr>sg_verfer := Some v\<rparr>"

definition siger_index :: "siger \<Rightarrow> nat" where
  "siger_index s = idx_index (sg_indexer s)"

definition siger_raw :: "siger \<Rightarrow> bytes" where
  "siger_raw s = idx_raw (sg_indexer s)"

definition siger_qb64 :: "prims \<Rightarrow> siger \<Rightarrow> string crypto_result" where
  "siger_qb64 pr s = map_err CryptoCesr (indexer_qb64 pr (sg_indexer s))"

definition siger_verify :: "prims \<Rightarrow> siger \<Rightarrow> bytes \<Rightarrow> bool crypto_result" where
  "siger_verify pr s message =
     bindR (ok_or MissingVerfer (sg_verfer s)) (\<lambda>v. verfer_verify pr v message (siger_raw s))"

record cigar =
  cg_matter :: matter
  cg_verfer :: "verfer option"

definition cigar_new :: "prims \<Rightarrow> string \<Rightarrow> bytes \<Rightarrow> cigar crypto_result" where
  "cigar_new pr code raw =
     bindR (map_err CryptoCesr (matter_new pr code raw)) (\<lambda>m.
     Inr \<lparr>cg_matter = m, cg_verfer = None\<rparr>)"

definition cigar_new_with_verfer ::
    "prims \<Rightarrow> string \<Rightarrow> bytes \<Rightarrow> verfer \<Rightarrow> cigar crypto_result" where
  "cigar_new_with_verfer pr code raw v =
     bindR (map_err CryptoCesr (matter_new pr code raw)) (\<lambda>m.
     Inr \<lparr>cg_matter = m, cg_verfer = Some v\<rparr>)"

definition cigar_from_qb64 :: "prims \<Rightarrow> string \<Rightarrow> cigar crypto_result" where
  "cigar_from_qb64 pr qb64 =
     bindR (map_err CryptoCesr (matter_from_qb64 pr qb64)) (\<lambda>m.
     Inr \<lparr>cg_matter = m, cg_verfer = None\<rparr>)"

definition cigar_set_verfer :: "cigar \<Rightarrow> verfer \<Rightarrow> cigar" where
  "cigar_set_verfer c v = c\<lparr>cg_verfer := Some v\<rparr>"

definition cigar_raw :: "cigar \<Rightarrow> bytes" where
  "cigar_raw c = mat_raw (cg_matter c)"

definition cigar_qb64 :: "prims \<Rightarrow> cigar \<Rightarrow> string crypto_result" where
  "cigar_qb64 pr c = map_err CryptoCesr (matter_qb64 pr (cg_matter c))"

definition cigar_verify :: "prims \<Rightarrow> cigar \<Rightarrow> bytes \<Rightarrow> bool crypto_result" where
  "cigar_verify pr c message =
     bindR (ok_or MissingVerfer (cg_verfer c)) (\<lambda>v. verfer_verify pr v message (cigar_raw c))"


subsection \<open>Signer\<close>

datatype algorithm = Ed25519 | Secp256k1 | Secp256r1

record signer =
  sn_raw :: bytes
  sn_code :: string
  sn_transferable :: bool
  sn_verfer :: verfer

definition algorithm_from_code :: "string \<Rightarrow> algorithm crypto_result" where
  "algorithm_from_code code =
     (if code = ''A'' then Inr Ed25519
      else if List.member [''1AAA'', ''1AAB''] code then Inr Secp256k1
      else if List.member [''1AAI'', ''1AAJ''] code then Inr Secp256r1
      else Inl (UnsupportedAlgorithm ''unsupported signer code''))"

definition derive_verfer :: "prims \<Rightarrow> string \<Rightarrow> bytes \<Rightarrow> bool \<Rightarrow> verfer crypto_result" where
  "derive_verfer pr code raw transferable =
     bindR (algorithm_from_code code) (\<lambda>alg. case alg of
       Ed25519 \<Rightarrow>
         (if length raw \<noteq> 32 then Inl (InvalidKeySize 32 (length raw))
          else verfer_new pr (if transferable then ''D'' else ''B'') (ed25519_public pr raw))
     | Secp256k1 \<Rightarrow>
         (if \<not> k256_secret_ok pr raw then Inl (InvalidKey ''invalid signing key'')
          else verfer_new pr (if transferable then ''1AAB'' else ''1AAA'') (k256_public pr raw))
     | Secp256r1 \<Rightarrow>
         (if \<not> p256_secret_ok pr raw then Inl (InvalidKey ''invalid signing key'')
          else verfer_new pr (if transferable then ''1AAJ'' else ''1AAI'') (p256_public pr raw)))"

definition signer_new_with_transferable ::
    "prims \<Rightarrow> string \<Rightarrow> bytes \<Rightarrow> bool \<Rightarrow> signer crypto_result" where
  "signer_new_with_transferable pr code raw transferable =
     bindR (derive_verfer pr code raw transferable) (\<lambda>v.
     Inr \<lparr>sn_raw = raw, sn_code = code, sn_transferable = transferable, sn_verfer = v\<rparr>)"

definition signer_new :: "prims \<Rightarrow> string \<Rightarrow> bytes \<Rightarrow> signer crypto_result" where
  "signer_new pr code raw = signer_new_with_transferable pr code raw True"

definition signer_sign_ed25519 :: "prims \<Rightarrow> signer \<Rightarrow> bytes \<Rightarrow> bytes crypto_result" where
  "signer_sign_ed25519 pr s message =
     (if length (sn_raw s) \<noteq> 32 then Inl (InvalidKeySize 32 (length (sn_raw s)))
      else Inr (ed25519_sign pr (sn_raw s) message))"

definition signer_sign_secp256k1 :: "prims \<Rightarrow> signer \<Rightarrow> bytes \<Rightarrow> bytes crypto_result" where
  "signer_sign_secp256k1 pr s message =
     (if \<not> k256_secret_ok pr (sn_raw s) then Inl (InvalidKey ''invalid signing key'')
      else Inr (k256_sign pr (sn_raw s) message))"

definition signer_sign_secp256r1 :: "prims \<Rightarrow> signer \<Rightarrow> bytes \<Rightarrow> bytes crypto_result" where
  "signer_sign_secp256r1 pr s message =
     (if \<not> p256_secret_ok pr (sn_raw s) then Inl (InvalidKey ''invalid signing key'')
      else Inr (p256_sign pr (sn_raw s) message))"

text \<open>
  \<open>Signer::algorithm\<close> unwraps \<open>algorithm_from_code\<close> on the code the constructor has
  accepted; on any other code it would panic, which the model renders as the error.
\<close>

definition sign_raw :: "prims \<Rightarrow> signer \<Rightarrow> bytes \<Rightarrow> bytes crypto_result" where
  "sign_raw pr s message =
     bindR (algorithm_from_code (sn_code s)) (\<lambda>alg. case alg of
       Ed25519 \<Rightarrow> signer_sign_ed25519 pr s message
     | Secp256k1 \<Rightarrow> signer_sign_secp256k1 pr s message
     | Secp256r1 \<Rightarrow> signer_sign_secp256r1 pr s message)"

fun cigar_code :: "algorithm \<Rightarrow> string" where
  "cigar_code Ed25519 = ''0B''"
| "cigar_code Secp256k1 = ''0C''"
| "cigar_code Secp256r1 = ''0I''"

fun siger_current_code :: "algorithm \<Rightarrow> string" where
  "siger_current_code Ed25519 = ''A''"
| "siger_current_code Secp256k1 = ''C''"
| "siger_current_code Secp256r1 = ''E''"

fun siger_both_code :: "algorithm \<Rightarrow> string" where
  "siger_both_code Ed25519 = ''B''"
| "siger_both_code Secp256k1 = ''D''"
| "siger_both_code Secp256r1 = ''F''"

definition signer_sign :: "prims \<Rightarrow> signer \<Rightarrow> bytes \<Rightarrow> cigar crypto_result" where
  "signer_sign pr s message =
     bindR (sign_raw pr s message) (\<lambda>sig_raw.
     bindR (algorithm_from_code (sn_code s)) (\<lambda>alg.
     cigar_new_with_verfer pr (cigar_code alg) sig_raw (sn_verfer s)))"

definition signer_sign_indexed ::
    "prims \<Rightarrow> signer \<Rightarrow> bytes \<Rightarrow> nat \<Rightarrow> bool \<Rightarrow> siger crypto_result" where
  "signer_sign_indexed pr s message index only =
     bindR (sign_raw pr s message) (\<lambda>sig_raw.
     bindR (algorithm_from_code (sn_code s)) (\<lambda>alg.
     (if only
      then siger_new_with_verfer pr (siger_current_code alg) index None sig_raw (sn_verfer s)
      else siger_new_with_verfer pr (siger_both_code alg) index (Some index) sig_raw (sn_verfer s))))"


subsection \<open>Salter\<close>

record salter =
  st_matter :: matter

definition salter_new :: "prims \<Rightarrow> string \<Rightarrow> bytes \<Rightarrow> salter crypto_result" where
  "salter_new pr code raw =
     bindR (map_err CryptoCesr (matter_new pr code raw)) (\<lambda>m. Inr \<lparr>st_matter = m\<rparr>)"

text \<open>\<open>Salter::new_random\<close> with the 16 bytes the random generator produced.\<close>

definition salter_new_random :: "prims \<Rightarrow> bytes \<Rightarrow> salter crypto_result" where
  "salter_new_random pr rand16 = salter_new pr ''0A'' rand16"

definition tier_params :: "string \<Rightarrow> (nat \<times> nat \<times> nat) crypto_result" where
  "tier_params tier =
     (if tier = ''low'' then Inr (65536, 2, 1)
      else if tier = ''med'' then Inr (262144, 3, 1)
      else if tier = ''high'' then Inr (1048576, 4, 1)
      else Inl (KeyDerivation ''unknown tier''))"

definition key_size_for_code :: "string \<Rightarrow> nat crypto_result" where
  "key_size_for_code code =
     (if List.member [''A'', ''1AAA'', ''1AAB'', ''1AAI'', ''1AAJ''] code then Inr 32
      else Inl (UnsupportedAlgorithm ''unsupported signer code for key derivation''))"

definition stretch :: "prims \<Rightarrow> salter \<Rightarrow> string \<Rightarrow> string \<Rightarrow> nat \<Rightarrow> bytes crypto_result" where
  "stretch pr st path tier output_len =
     bindR (tier_params tier) (\<lambda>(m_cost, t_cost, p_cost).
     map_err KeyDerivation
       (argon2id pr m_cost t_cost p_cost output_len path (mat_raw (st_matter st))))"

definition salter_signer ::
    "prims \<Rightarrow> salter \<Rightarrow> string \<Rightarrow> string \<Rightarrow> string \<Rightarrow> bool \<Rightarrow> signer crypto_result" where
  "salter_signer pr st code path tier transferable =
     bindR (key_size_for_code code) (\<lambda>key_size.
     bindR (stretch pr st path tier key_size) (\<lambda>seed.
     signer_new_with_transferable pr code seed transferable))"


subsection \<open>Prefixer\<close>

record prefixer =
  pf_matter :: matter

definition prefixer_from_qb64 :: "prims \<Rightarrow> string \<Rightarrow> prefixer crypto_result" where
  "prefixer_from_qb64 pr qb64 =
     bindR (map_err CryptoCesr (matter_from_qb64 pr qb64)) (\<lambda>m. Inr \<lparr>pf_matter = m\<rparr>)"

definition prefixer_new_basic :: "prims \<Rightarrow> verfer \<Rightarrow> prefixer crypto_result" where
  "prefixer_new_basic pr v =
     bindR (map_err CryptoCesr (matter_new pr (verfer_code v) (verfer_raw v))) (\<lambda>m.
     Inr \<lparr>pf_matter = m\<rparr>)"

definition prefixer_new_self_addressing :: "prims \<Rightarrow> string \<Rightarrow> bytes \<Rightarrow> prefixer crypto_result" where
  "prefixer_new_self_addressing pr code ked =
     bindR (diger_from_data pr code ked) (\<lambda>d.
     bindR (map_err CryptoCesr (matter_new pr code (mat_raw (dg_matter d)))) (\<lambda>m.
     Inr \<lparr>pf_matter = m\<rparr>))"

definition prefixer_verify_basic :: "prefixer \<Rightarrow> verfer \<Rightarrow> bool" where
  "prefixer_verify_basic p v \<longleftrightarrow>
     mat_code (pf_matter p) = verfer_code v \<and> mat_raw (pf_matter p) = verfer_raw v"

definition prefixer_verify_self_addressing :: "prims \<Rightarrow> prefixer \<Rightarrow> bytes \<Rightarrow> bool crypto_result" where
  "prefixer_verify_self_addressing pr p ked =
     bindR (diger_from_data pr (mat_code (pf_matter p)) ked) (\<lambda>d.
     Inr (mat_raw (dg_matter d) = mat_raw (pf_matter p)))"


subsection \<open>What the layers guarantee\<close>

lemma verfer_validate_code_Inr [simp]:
  "verfer_validate_code code = Inr u \<longleftrightarrow> code \<in> set verfer_codes"
  by (simp add: verfer_validate_code_def)

lemma diger_validate_code_Inr [simp]:
  "diger_validate_code code = Inr u \<longleftrightarrow> code \<in> set diger_codes"
  by (simp add: diger_validate_code_def)

lemma verfer_new_Inr [res_simps]:
  "verfer_new pr code raw = Inr v \<longleftrightarrow>
     code \<in> set verfer_codes \<and> matter_new pr code raw = Inr (vf_matter v)"
  by (cases v) (auto simp: verfer_new_def res_simps)

lemma verfer_from_qb64_Inr [res_simps]:
  "verfer_from_qb64 pr q = Inr v \<longleftrightarrow>
     matter_from_qb64 pr q = Inr (vf_matter v) \<and> verfer_code v \<in> set verfer_codes"
  by (cases v) (auto simp: verfer_from_qb64_def verfer_code_def res_simps)

lemma diger_from_data_Inr [res_simps]:
  "diger_from_data pr code data = Inr d \<longleftrightarrow>
     (\<exists>raw. compute_digest pr code data = Inr raw \<and> matter_new pr code raw = Inr (dg_matter d))"
  by (cases d) (auto simp: diger_from_data_def res_simps)

lemma diger_from_qb64_Inr [res_simps]:
  "diger_from_qb64 pr q = Inr d \<longleftrightarrow>
     matter_from_qb64 pr q = Inr (dg_matter d) \<and> mat_code (dg_matter d) \<in> set diger_codes"
  by (cases d) (auto simp: diger_from_qb64_def res_simps)

lemma compute_digest_ok_iff: "is_ok (compute_digest pr code data) \<longleftrightarrow> code \<in> set diger_codes"
  by (simp add: compute_digest_def diger_codes_def)

text \<open>A key code is never a digest code, so a prefix is self-addressing or basic, never both.\<close>

lemma verfer_diger_codes_disjoint: "set verfer_codes \<inter> set diger_codes = {}"
  by (simp add: verfer_codes_def diger_codes_def)

text \<open>\<open>Verfer::verify\<close> never rejects the algorithm of a key that was constructed.\<close>

lemma verfer_verify_supported:
  "verfer_code v \<in> set verfer_codes \<Longrightarrow>
     verfer_verify pr v m s \<noteq> Inl (UnsupportedAlgorithm c)"
  by (auto simp: verfer_codes_def verfer_verify_def verify_ed25519_def verify_secp256k1_def
      verify_secp256r1_def)

lemma diger_from_data_verify:
  "matter_laws pr \<Longrightarrow> diger_from_data pr code data = Inr d \<Longrightarrow>
     diger_verify pr d data' = Inr b \<Longrightarrow>
     b \<longleftrightarrow> compute_digest pr code data' = compute_digest pr code data"
  by (auto simp: res_simps diger_verify_def dest!: matter_lawsD)

text \<open>A signer built by its constructor holds the key that belongs to its secret.\<close>

definition signer_ok :: "prims \<Rightarrow> signer \<Rightarrow> bool" where
  "signer_ok pr s \<longleftrightarrow>
     derive_verfer pr (sn_code s) (sn_raw s) (sn_transferable s) = Inr (sn_verfer s)"

lemma signer_new_ok: "signer_new_with_transferable pr code raw tr = Inr s \<Longrightarrow> signer_ok pr s"
  by (auto simp: signer_new_with_transferable_def signer_ok_def res_simps)

lemma salter_signer_ok: "salter_signer pr st code path tier tr = Inr s \<Longrightarrow> signer_ok pr s"
  by (auto simp: salter_signer_def res_simps intro: signer_new_ok)

lemma algorithm_from_code_cases:
  assumes "algorithm_from_code code = Inr alg"
  obtains "code = ''A''" "alg = Ed25519"
    | "code = ''1AAA'' \<or> code = ''1AAB''" "alg = Secp256k1"
    | "code = ''1AAI'' \<or> code = ''1AAJ''" "alg = Secp256r1"
  using assms by (auto simp: algorithm_from_code_def split: if_splits)

lemma signer_ok_verfer:
  assumes "matter_laws pr" "signer_ok pr s" "algorithm_from_code (sn_code s) = Inr alg"
  shows "alg = Ed25519 \<Longrightarrow> length (sn_raw s) = 32 \<and> verfer_raw (sn_verfer s) = ed25519_public pr (sn_raw s)
           \<and> verfer_code (sn_verfer s) = (if sn_transferable s then ''D'' else ''B'')"
    and "alg = Secp256k1 \<Longrightarrow> k256_secret_ok pr (sn_raw s) \<and> verfer_raw (sn_verfer s) = k256_public pr (sn_raw s)
           \<and> verfer_code (sn_verfer s) = (if sn_transferable s then ''1AAB'' else ''1AAA'')"
    and "alg = Secp256r1 \<Longrightarrow> p256_secret_ok pr (sn_raw s) \<and> verfer_raw (sn_verfer s) = p256_public pr (sn_raw s)
           \<and> verfer_code (sn_verfer s) = (if sn_transferable s then ''1AAJ'' else ''1AAI'')"
  using assms(2,3) matter_lawsD [OF assms(1)]
  by (auto simp: signer_ok_def derive_verfer_def verfer_code_def verfer_raw_def res_simps
      split: if_splits)

lemma sign_raw_total:
  assumes "matter_laws pr" "signer_ok pr s"
  shows "\<exists>sig. sign_raw pr s m = Inr sig"
proof -
  from assms(2) obtain alg where alg: "algorithm_from_code (sn_code s) = Inr alg"
    by (auto simp: signer_ok_def derive_verfer_def res_simps)
  show ?thesis
    using signer_ok_verfer [OF assms alg] alg
    by (cases alg) (simp_all add: sign_raw_def signer_sign_ed25519_def signer_sign_secp256k1_def
        signer_sign_secp256r1_def)
qed

lemma sign_raw_verifies:
  assumes laws: "matter_laws pr" "signature_laws pr" and s: "signer_ok pr s"
    and sig: "sign_raw pr s m = Inr sig"
  shows "verfer_verify pr (sn_verfer s) m sig = Inr True"
proof -
  from sig obtain alg where alg: "algorithm_from_code (sn_code s) = Inr alg"
    by (auto simp: sign_raw_def res_simps)
  show ?thesis
    using signer_ok_verfer [OF laws(1) s alg] alg sig laws(2)
    by (cases alg) (auto simp: sign_raw_def signer_sign_ed25519_def signer_sign_secp256k1_def
        signer_sign_secp256r1_def verfer_verify_def verify_ed25519_def verify_secp256k1_def
        verify_secp256r1_def signature_laws_def split: if_splits)
qed

lemma signer_transferable_verfer:
  assumes "matter_laws pr" "signer_ok pr s"
  shows "verfer_transferable (sn_verfer s) = sn_transferable s"
proof -
  from assms(2) obtain alg where alg: "algorithm_from_code (sn_code s) = Inr alg"
    by (auto simp: signer_ok_def derive_verfer_def res_simps)
  show ?thesis
    using signer_ok_verfer [OF assms alg] by (cases alg) (auto simp: verfer_transferable_def)
qed

lemma signer_ok_matter:
  assumes "signer_ok pr s"
  obtains c r where "c \<in> set verfer_codes" "matter_new pr c r = Inr (vf_matter (sn_verfer s))"
proof -
  from assms obtain alg where alg: "algorithm_from_code (sn_code s) = Inr alg"
    by (auto simp: signer_ok_def derive_verfer_def res_simps)
  with assms that show ?thesis
    by (cases alg) (auto simp: signer_ok_def derive_verfer_def res_simps split: if_splits)
qed

lemma signer_verfer_code:
  "signer_ok pr s \<Longrightarrow> matter_laws pr \<Longrightarrow> verfer_code (sn_verfer s) \<in> set verfer_codes"
  by (elim signer_ok_matter) (auto simp: verfer_code_def dest: matter_lawsD)

text \<open>The qb64 text of a signer's public key reads back as that key.\<close>

lemma signer_verfer_qb64:
  assumes laws: "matter_laws pr" and s: "signer_ok pr s"
  shows "\<exists>q. verfer_qb64 pr (sn_verfer s) = Inr q \<and> verfer_from_qb64 pr q = Inr (sn_verfer s)"
proof -
  from s obtain c r where c: "c \<in> set verfer_codes" "matter_new pr c r = Inr (vf_matter (sn_verfer s))"
    by (rule signer_ok_matter)
  with matter_laws_qb64 [OF laws c(2)] show ?thesis
    using signer_verfer_code [OF s laws] by (metis map_err_eq_Inr verfer_from_qb64_Inr verfer_qb64_def)
qed

text \<open>What a signer signs, as a cigar and as an indexed signature.\<close>

lemma signer_sign_raw:
  "matter_laws pr \<Longrightarrow> signer_sign pr s m = Inr c \<Longrightarrow> sign_raw pr s m = Inr (cigar_raw c) \<and> cg_verfer c = Some (sn_verfer s)"
  by (auto simp: signer_sign_def cigar_new_with_verfer_def cigar_raw_def res_simps dest!: matter_lawsD)

lemma sign_cigar_verifies:
  assumes laws: "matter_laws pr" "signature_laws pr" and s: "signer_ok pr s" and c: "signer_sign pr s m = Inr c"
  shows "cigar_verify pr c m = Inr True"
    "\<exists>q c'. cigar_qb64 pr c = Inr q \<and> cigar_from_qb64 pr q = Inr c' \<and> cigar_set_verfer c' (sn_verfer s) = c"
proof -
  from signer_sign_raw [OF laws(1) c] sign_raw_verifies [OF laws s]
  show "cigar_verify pr c m = Inr True" by (simp add: cigar_verify_def)
  from c obtain code raw where new: "matter_new pr code raw = Inr (cg_matter c)" and v: "cg_verfer c = Some (sn_verfer s)"
    by (auto simp: signer_sign_def cigar_new_with_verfer_def res_simps)
  from matter_laws_qb64 [OF laws(1) new] obtain q where "matter_qb64 pr (cg_matter c) = Inr q" "matter_from_qb64 pr q = Inr (cg_matter c)"
    by blast
  with v show "\<exists>q c'. cigar_qb64 pr c = Inr q \<and> cigar_from_qb64 pr q = Inr c' \<and> cigar_set_verfer c' (sn_verfer s) = c"
    by (simp add: cigar_qb64_def cigar_from_qb64_def cigar_set_verfer_def)
qed

lemma sign_siger_verifies:
  assumes laws: "matter_laws pr" "signature_laws pr" "indexer_laws pr" and s: "signer_ok pr s"
    and g: "signer_sign_indexed pr s m i only = Inr g"
  shows "siger_verify pr g m = Inr True \<and> siger_index g = i"
proof -
  from g obtain sig code o' where sig: "sign_raw pr s m = Inr sig" "indexer_new pr code i o' sig = Inr (sg_indexer g)"
    "sg_verfer g = Some (sn_verfer s)"
    by (auto simp: signer_sign_indexed_def siger_new_with_verfer_def res_simps split: if_splits)
  from laws(3) sig(2) have "sg_indexer g = \<lparr>idx_code = code, idx_index = i, idx_ondex = o', idx_raw = sig\<rparr>"
    unfolding indexer_laws_def by blast
  with sign_raw_verifies [OF laws(1,2) s sig(1)] sig(3) show ?thesis by (simp add: siger_verify_def siger_raw_def siger_index_def)
qed

lemma prefixer_basic_round_trip:
  assumes "matter_laws pr" "prefixer_new_basic pr v = Inr p"
  shows "prefixer_verify_basic p v' \<longleftrightarrow> verfer_code v' = verfer_code v \<and> verfer_raw v' = verfer_raw v"
  using assms by (auto simp: prefixer_new_basic_def prefixer_verify_basic_def res_simps dest: matter_lawsD)

lemma prefixer_self_addressing_round_trip:
  assumes "matter_laws pr" "prefixer_new_self_addressing pr code ked = Inr p"
  shows "prefixer_verify_self_addressing pr p ked = Inr True"
  using assms
  by (auto simp: prefixer_new_self_addressing_def prefixer_verify_self_addressing_def res_simps
      dest!: matter_lawsD)

end
