(* ===== verification/Keri_Tags.thy ===== *)
theory Keri_Tags
  imports Keri_Errors
begin

section \<open>Tags: event types, serialisation kinds, counter codes, seals\<close>

text \<open>
  The small closed vocabularies of the core crate: \<open>Ilk\<close> (\<open>ilk.rs\<close>),
  \<open>SerializationKind\<close> (\<open>version.rs\<close>), \<open>CounterTable\<close> and \<open>GroupKind\<close>
  (\<open>counter_table.rs\<close>), and the seal structs (\<open>seal.rs\<close>). Each tag set is an exact
  codec: its parser accepts the tags its printer writes and nothing else.
\<close>


subsection \<open>Ilk\<close>

datatype ilk = Icp | Rot | Ixn | Dip | Drt | Rct | Qry | Rpy | Exn

fun ilk_tag :: "ilk \<Rightarrow> string" where
  "ilk_tag Icp = ''icp''"
| "ilk_tag Rot = ''rot''"
| "ilk_tag Ixn = ''ixn''"
| "ilk_tag Dip = ''dip''"
| "ilk_tag Drt = ''drt''"
| "ilk_tag Rct = ''rct''"
| "ilk_tag Qry = ''qry''"
| "ilk_tag Rpy = ''rpy''"
| "ilk_tag Exn = ''exn''"

definition ilk_from_tag :: "string \<Rightarrow> ilk core_result" where
  "ilk_from_tag tag =
     (if tag = ''icp'' then Inr Icp
      else if tag = ''rot'' then Inr Rot
      else if tag = ''ixn'' then Inr Ixn
      else if tag = ''dip'' then Inr Dip
      else if tag = ''drt'' then Inr Drt
      else if tag = ''rct'' then Inr Rct
      else if tag = ''qry'' then Inr Qry
      else if tag = ''rpy'' then Inr Rpy
      else if tag = ''exn'' then Inr Exn
      else Inl (UnexpectedIlk tag))"

fun is_establishment :: "ilk \<Rightarrow> bool" where
  "is_establishment i = (case i of Icp \<Rightarrow> True | Rot \<Rightarrow> True | Dip \<Rightarrow> True | Drt \<Rightarrow> True | _ \<Rightarrow> False)"

definition ilk_all :: "ilk list" where
  "ilk_all = [Icp, Rot, Ixn, Dip, Drt, Rct, Qry, Rpy, Exn]"

text \<open>\<open>Ilk::all\<close> makes the type an enumeration of the library.\<close>

instantiation ilk :: enum
begin

definition enum_ilk :: "ilk list" where
  "enum_ilk = ilk_all"

definition enum_all_ilk :: "(ilk \<Rightarrow> bool) \<Rightarrow> bool" where
  "enum_all_ilk P = list_all P ilk_all"

definition enum_ex_ilk :: "(ilk \<Rightarrow> bool) \<Rightarrow> bool" where
  "enum_ex_ilk P = list_ex P ilk_all"

instance
proof
  have UNIV_ilk: "(UNIV :: ilk set) = set ilk_all"
  proof (rule set_eqI)
    fix i :: ilk
    show "i \<in> UNIV \<longleftrightarrow> i \<in> set ilk_all" by (cases i) (simp_all add: ilk_all_def)
  qed
  then show "(UNIV :: ilk set) = set enum_class.enum" by (simp add: enum_ilk_def)
  show "distinct (enum_class.enum :: ilk list)" by (simp add: enum_ilk_def ilk_all_def)
  show "enum_class.enum_all P \<longleftrightarrow> Ball UNIV P" for P :: "ilk \<Rightarrow> bool"
    by (simp add: enum_all_ilk_def list_all_iff UNIV_ilk)
  show "enum_class.enum_ex P \<longleftrightarrow> Bex UNIV P" for P :: "ilk \<Rightarrow> bool"
    by (simp add: enum_ex_ilk_def list_ex_iff UNIV_ilk)
qed

end

lemma ilk_from_tag_Inr: "ilk_from_tag t = Inr i \<longleftrightarrow> t = ilk_tag i"
  by (cases i) (auto simp: ilk_from_tag_def)

interpretation ilk_codec: exact_codec ilk_tag "\<lambda>t. okR (ilk_from_tag t)" "\<lambda>_. True"
  by unfold_locales (auto simp: ilk_from_tag_Inr)


subsection \<open>SerializationKind\<close>

datatype serialization_kind = JsonKind | CborKind | MsgPackKind

fun kind_tag :: "serialization_kind \<Rightarrow> string" where
  "kind_tag JsonKind = ''JSON''"
| "kind_tag CborKind = ''CBOR''"
| "kind_tag MsgPackKind = ''MGPK''"

definition kind_from_tag :: "string \<Rightarrow> serialization_kind core_result" where
  "kind_from_tag tag =
     (if tag = ''JSON'' then Inr JsonKind
      else if tag = ''CBOR'' then Inr CborKind
      else if tag = ''MGPK'' then Inr MsgPackKind
      else Inl (InvalidVersion ''unknown serialization kind''))"

lemma kind_from_tag_Inr: "kind_from_tag t = Inr k \<longleftrightarrow> t = kind_tag k"
  by (cases k) (auto simp: kind_from_tag_def)

interpretation kind_codec: exact_codec kind_tag "\<lambda>t. okR (kind_from_tag t)" "\<lambda>_. True"
  by unfold_locales (auto simp: kind_from_tag_Inr)

lemma length_kind_tag [simp]: "length (kind_tag k) = 4"
  by (cases k) simp_all

lemma is_ascii_kind_tag [simp]: "is_ascii (kind_tag k)"
  by (cases k) (simp_all add: byte_def)


subsection \<open>Counter tables\<close>

datatype counter_table = V1 | V2

text \<open>\<open>#[default]\<close> is \<open>V1\<close>.\<close>

definition counter_table_default :: "counter_table" where
  "counter_table_default = V1"

instantiation counter_table :: default
begin

definition default_counter_table :: "counter_table" where
  "default_counter_table = counter_table_default"

instance ..

end

definition table_from_major :: "nat \<Rightarrow> counter_table" where
  "table_from_major major = (if 2 \<le> major then V2 else V1)"

datatype group_kind =
    AttachedMaterialQuadlets
  | ControllerIdxSigs
  | WitnessIdxSigs
  | NonTransReceiptCouples
  | TransReceiptQuadruples
  | FirstSeenReplayCouples
  | TransIdxSigGroupsK
  | SealSourceCouplesK

text \<open>The base of a counter code, after \<open>-0\<close> (big count) or \<open>-\<close>.\<close>

definition code_base :: "string \<Rightarrow> string option" where
  "code_base code =
     (case strip_prefix ''-0'' code of
        Some rest \<Rightarrow> Some rest
      | None \<Rightarrow> strip_prefix ''-'' code)"

fun classify_base :: "counter_table \<Rightarrow> string \<Rightarrow> group_kind option" where
  "classify_base V1 b =
     (if b = ''A'' then Some ControllerIdxSigs
      else if b = ''B'' then Some WitnessIdxSigs
      else if b = ''C'' then Some NonTransReceiptCouples
      else if b = ''D'' then Some TransReceiptQuadruples
      else if b = ''E'' then Some FirstSeenReplayCouples
      else if b = ''F'' then Some TransIdxSigGroupsK
      else if b = ''G'' then Some SealSourceCouplesK
      else if b = ''V'' then Some AttachedMaterialQuadlets
      else None)"
| "classify_base V2 b =
     (if b = ''A'' then Some AttachedMaterialQuadlets
      else if b = ''B'' then Some ControllerIdxSigs
      else if b = ''C'' then Some WitnessIdxSigs
      else if b = ''D'' then Some NonTransReceiptCouples
      else if b = ''E'' then Some TransReceiptQuadruples
      else if b = ''F'' then Some FirstSeenReplayCouples
      else if b = ''G'' then Some SealSourceCouplesK
      else None)"

definition classify :: "string \<Rightarrow> counter_table \<Rightarrow> group_kind option" where
  "classify code table = Option.bind (code_base code) (classify_base table)"

fun group_code :: "group_kind \<Rightarrow> counter_table \<Rightarrow> string option" where
  "group_code ControllerIdxSigs V1 = Some ''-A''"
| "group_code WitnessIdxSigs V1 = Some ''-B''"
| "group_code NonTransReceiptCouples V1 = Some ''-C''"
| "group_code TransReceiptQuadruples V1 = Some ''-D''"
| "group_code FirstSeenReplayCouples V1 = Some ''-E''"
| "group_code TransIdxSigGroupsK V1 = Some ''-F''"
| "group_code SealSourceCouplesK V1 = Some ''-G''"
| "group_code AttachedMaterialQuadlets V1 = Some ''-V''"
| "group_code AttachedMaterialQuadlets V2 = Some ''-A''"
| "group_code ControllerIdxSigs V2 = Some ''-B''"
| "group_code WitnessIdxSigs V2 = Some ''-C''"
| "group_code NonTransReceiptCouples V2 = Some ''-D''"
| "group_code TransReceiptQuadruples V2 = Some ''-E''"
| "group_code FirstSeenReplayCouples V2 = Some ''-F''"
| "group_code SealSourceCouplesK V2 = Some ''-G''"
| "group_code TransIdxSigGroupsK V2 = None"

lemma classify_base_Some:
  "classify_base t b = Some k \<Longrightarrow> group_code k t = Some (CHR ''-'' # b)"
  by (cases t) (auto split: if_splits)

lemma group_code_tl:
  "group_code k t = Some c \<Longrightarrow>
     c = CHR ''-'' # tl c \<and> classify_base t (tl c) = Some k \<and> tl c = [hd (tl c)] \<and> hd (tl c) \<noteq> CHR ''0''"
  by (cases k; cases t) auto

lemma group_code_base:
  "group_code k t = Some c \<Longrightarrow>
     \<exists>b. c = CHR ''-'' # b \<and> classify_base t b = Some k \<and> (\<exists>x. b = [x] \<and> x \<noteq> CHR ''0'')"
proof (rule exI [of _ "tl c"])
  assume "group_code k t = Some c"
  from group_code_tl [OF this]
  show "c = CHR ''-'' # tl c \<and> classify_base t (tl c) = Some k \<and> (\<exists>x. tl c = [x] \<and> x \<noteq> CHR ''0'')"
    by blast
qed

lemma code_base_dash:
  "code_base (CHR ''-'' # CHR ''0'' # b) = Some b"
  "x \<noteq> CHR ''0'' \<Longrightarrow> code_base (CHR ''-'' # x # b) = Some (x # b)"
  by (auto simp: code_base_def strip_prefix_def)

lemma code_base_Some: "code_base c = Some b \<Longrightarrow> c = ''-'' @ b \<or> c = ''-0'' @ b"
proof (cases "strip_prefix ''-0'' c")
  case None
  assume "code_base c = Some b"
  with None have "strip_prefix ''-'' c = Some b" by (simp add: code_base_def)
  then show ?thesis unfolding strip_prefix_eq_Some by (rule disjI1)
next
  case (Some rest)
  assume "code_base c = Some b"
  with Some have "strip_prefix ''-0'' c = Some b" by (simp add: code_base_def)
  then show ?thesis unfolding strip_prefix_eq_Some by (rule disjI2)
qed

lemma group_code_classify: "group_code k t = Some c \<Longrightarrow> classify c t = Some k"
  by (drule group_code_base) (auto simp: classify_def code_base_dash)

text \<open>
  A table gives a group one code: whatever classifies as the group is that code, or the
  code with the big-count marker in front of its base.
\<close>

lemma classify_Some_iff:
  "classify c t = Some k \<longleftrightarrow>
     (\<exists>b. group_code k t = Some (''-'' @ b) \<and> (c = ''-'' @ b \<or> c = ''-0'' @ b))"
  (is "_ = ?R")
proof
  assume "classify c t = Some k"
  then obtain b where "code_base c = Some b" "classify_base t b = Some k"
    by (auto simp: classify_def bind_eq_Some_conv)
  then show ?R
    using code_base_Some [of c b] classify_base_Some [of t b k] by (intro exI [of _ b]) simp
next
  assume ?R
  then show "classify c t = Some k"
    by (auto simp: classify_def code_base_dash dest!: group_code_base)
qed

interpretation group_codec: codec "\<lambda>k. group_code k t" "\<lambda>c. Option.bind c (\<lambda>c. classify c t)"
  "\<lambda>k. group_code k t \<noteq> None" for t
  by unfold_locales (auto simp: group_code_classify)


subsection \<open>Seals\<close>

record seal_digest =
  sd_digest :: string

record seal_root =
  sr_root :: string

record seal_event =
  se_prefix :: string
  se_sn :: string
  se_digest :: string

record seal_location =
  sl_prefix :: string
  sl_sn :: string
  sl_ilk :: string
  sl_prior :: string

datatype seal =
    SealDigest seal_digest
  | SealRoot seal_root
  | SealEvent seal_event
  | SealLocation seal_location

fun seal_to_json :: "seal \<Rightarrow> json" where
  "seal_to_json (SealDigest s) = JObject [(''d'', JString (sd_digest s))]"
| "seal_to_json (SealRoot s) = JObject [(''rd'', JString (sr_root s))]"
| "seal_to_json (SealEvent s) =
     JObject [(''i'', JString (se_prefix s)), (''s'', JString (se_sn s)), (''d'', JString (se_digest s))]"
| "seal_to_json (SealLocation s) =
     JObject [(''i'', JString (sl_prefix s)), (''s'', JString (sl_sn s)),
       (''t'', JString (sl_ilk s)), (''p'', JString (sl_prior s))]"

text \<open>\<open>serde_json::from_value::<SealEvent>\<close>: fields \<open>i\<close>, \<open>s\<close>, \<open>d\<close>, by name or by position.\<close>

definition seal_event_from_value :: "json \<Rightarrow> seal_event option" where
  "seal_event_from_value v =
     (case struct_fields [''i'', ''s'', ''d''] v of
        Some [JString i, JString s, JString d] \<Rightarrow> Some \<lparr>se_prefix = i, se_sn = s, se_digest = d\<rparr>
      | _ \<Rightarrow> None)"

lemma seal_event_from_value_to_json [simp]:
  "seal_event_from_value (seal_to_json (SealEvent s)) = Some s"
  by (simp add: seal_event_from_value_def struct_fields_def)

interpretation seal_event_codec: codec "\<lambda>s. seal_to_json (SealEvent s)" seal_event_from_value "\<lambda>_. True"
  by unfold_locales (simp only: seal_event_from_value_to_json)

end
