(* ===== verification/Keri_Version.thy ===== *)
theory Keri_Version
  imports Keri_Tags
begin

section \<open>Version strings\<close>

text \<open>
  \<open>affinidi-keri-core/src/version.rs\<close>: the 17 characters \<open>PPPPvvKKKKssssss_\<close> at the front
  of every message. \<open>Version\<close> is the record \<open>version\<close>; its two version digits are bytes,
  its size a \<open>usize\<close>.
\<close>

definition KERI_VER_FULLSIZE :: "nat" where
  "KERI_VER_FULLSIZE = 17"

record version =
  v_protocol :: string
  v_major :: u8
  v_minor :: u8
  v_kind :: serialization_kind
  v_size :: nat

definition version_new :: "string \<Rightarrow> u8 \<Rightarrow> u8 \<Rightarrow> serialization_kind \<Rightarrow> nat \<Rightarrow> version" where
  "version_new protocol major minor kind size' =
     \<lparr>v_protocol = protocol, v_major = major, v_minor = minor, v_kind = kind, v_size = size'\<rparr>"

definition version_default_v1 :: "serialization_kind \<Rightarrow> nat \<Rightarrow> version" where
  "version_default_v1 kind size' = version_new ''KERI'' 1 0 kind size'"

definition hex_digit :: "char \<Rightarrow> u8 option" where
  "hex_digit ch =
     (let n = byte ch in
      if 48 \<le> n \<and> n \<le> 57 then Some (of_nat (n - 48))
      else if 97 \<le> n \<and> n \<le> 102 then Some (of_nat (n - 97 + 10))
      else if 65 \<le> n \<and> n \<le> 70 then Some (of_nat (n - 65 + 10))
      else None)"

text \<open>The slice \<open>&vs[a..b]\<close> of a string that is long enough.\<close>

definition str_slice :: "nat \<Rightarrow> nat \<Rightarrow> 'a list \<Rightarrow> 'a list" where
  "str_slice a b xs = take (b - a) (drop a xs)"

definition version_parse_str :: "string \<Rightarrow> version core_result" where
  "version_parse_str vs =
     (if length vs < KERI_VER_FULLSIZE then Inl (InvalidVersion ''version string too short'')
      else if \<not> is_ascii (take KERI_VER_FULLSIZE vs) then
        Inl (InvalidVersion ''version string contains non-ASCII bytes'')
      else
        bindR (ok_or (InvalidVersion ''invalid major version digit'') (hex_digit (vs ! 4))) (\<lambda>major.
        bindR (ok_or (InvalidVersion ''invalid minor version digit'') (hex_digit (vs ! 5))) (\<lambda>minor.
        bindR (kind_from_tag (str_slice 6 10 vs)) (\<lambda>kind.
        bindR (ok_or (InvalidVersion ''invalid hex size'') (usize_from_hex (str_slice 10 16 vs))) (\<lambda>size'.
        if vs ! 16 \<noteq> CHR ''_'' then Inl (InvalidVersion ''expected _ terminator'')
        else Inr \<lparr>v_protocol = str_slice 0 4 vs, v_major = major, v_minor = minor,
                  v_kind = kind, v_size = size'\<rparr>)))))"

definition version_parse :: "bytes \<Rightarrow> version core_result" where
  "version_parse data =
     (if length data < KERI_VER_FULLSIZE then Inl (InvalidVersion ''version string too short'')
      else if \<not> utf8_ok (take KERI_VER_FULLSIZE data) then
        Inl (InvalidVersion ''version string is not valid UTF-8'')
      else version_parse_str (take KERI_VER_FULLSIZE data))"

definition to_version_string :: "version \<Rightarrow> string" where
  "to_version_string v =
     v_protocol v @ hex (unat (v_major v)) @ hex (unat (v_minor v)) @ kind_tag (v_kind v) @
       hex_padded 6 (v_size v) @ ''_''"


subsection \<open>Lemmas\<close>

text \<open>The versions that fit the format.\<close>

definition version_ok :: "version \<Rightarrow> bool" where
  "version_ok v \<longleftrightarrow> length (v_protocol v) = 4 \<and> is_ascii (v_protocol v) \<and>
     v_major v < 16 \<and> v_minor v < 16 \<and> v_size v < 16 ^ 6"

lemma hex_digit_char: "d < 16 \<Longrightarrow> hex_digit (digit_char d) = Some (of_nat d)"
  by (auto simp: hex_digit_def digit_char_def Let_def)

lemma unat_of_nat_u8: "n < 256 \<Longrightarrow> unat (of_nat n :: u8) = n"
  by (simp add: unat_of_nat)

lemma hex_digit_nat: "hex_digit ch = Some d \<Longrightarrow> \<exists>n<16. d = of_nat n"
proof -
  have *: "n < 16 \<Longrightarrow> \<exists>m<16. (of_nat n :: u8) = of_nat m" for n :: nat by blast
  assume "hex_digit ch = Some d"
  then have "d = of_nat (byte ch - 48) \<and> byte ch - 48 < 16 \<or>
    d = of_nat (byte ch - 97 + 10) \<and> byte ch - 97 + 10 < 16 \<or>
    d = of_nat (byte ch - 65 + 10) \<and> byte ch - 65 + 10 < 16"
    unfolding hex_digit_def Let_def by (simp split: if_splits) linarith+
  with * show ?thesis by blast
qed

lemma hex_digit_less: "hex_digit ch = Some d \<Longrightarrow> d < 16"
  by (drule hex_digit_nat) (auto simp: word_less_nat_alt unat_of_nat_u8)

lemma hex_single: "n < 16 \<Longrightarrow> hex n = [digit_char n]"
  by (simp add: hex_def to_radix.simps)

lemma length_hex_padded: "n < 16 ^ w \<Longrightarrow> 0 < w \<Longrightarrow> length (hex_padded w n) = w"
  by (simp add: hex_padded_def length_to_radix_padded)

lemma is_ascii_hex_padded [simp]: "is_ascii (hex_padded w n)"
  by (simp add: hex_padded_def is_ascii_to_radix_padded)

lemma usize_from_hex_padded: "n < 2 ^ 64 \<Longrightarrow> usize_from_hex (hex_padded w n) = Some n"
  by (simp add: usize_from_hex_def hex_padded_def from_str_radix_to_radix_padded)

lemma version_parts:
  assumes "version_ok v"
  obtains p where "v_protocol v = p" "length p = 4" "is_ascii p"
    "to_version_string v =
       p @ [digit_char (unat (v_major v)), digit_char (unat (v_minor v))] @ kind_tag (v_kind v) @
       hex_padded 6 (v_size v) @ ''_''"
    "unat (v_major v) < 16" "unat (v_minor v) < 16" "v_size v < 16 ^ 6"
  using assms by (simp add: version_ok_def to_version_string_def hex_single word_less_nat_alt)

lemma length_to_version_string: "version_ok v \<Longrightarrow> length (to_version_string v) = KERI_VER_FULLSIZE"
  by (erule version_parts) (simp add: length_hex_padded KERI_VER_FULLSIZE_def)

lemma is_ascii_to_version_string: "version_ok v \<Longrightarrow> is_ascii (to_version_string v)"
  by (erule version_parts) (simp add: byte_digit_char, simp add: byte_def)

lemma take_str_slice: "b \<le> n \<Longrightarrow> str_slice a b (take n xs) = str_slice a b xs"
  by (simp add: str_slice_def drop_take)

lemma version_parse_str_take:
  "KERI_VER_FULLSIZE \<le> length vs \<Longrightarrow> version_parse_str (take KERI_VER_FULLSIZE vs) = version_parse_str vs"
  by (simp add: version_parse_str_def take_str_slice KERI_VER_FULLSIZE_def cong: if_cong)

lemma version_parse_str_print: "version_ok v \<Longrightarrow> version_parse_str (to_version_string v) = Inr v"
proof -
  assume ok: "version_ok v"
  from ok obtain p where p: "v_protocol v = p" "length p = 4" "is_ascii p"
    and vs: "to_version_string v =
       p @ [digit_char (unat (v_major v)), digit_char (unat (v_minor v))] @ kind_tag (v_kind v) @
       hex_padded 6 (v_size v) @ ''_''"
    and b: "unat (v_major v) < 16" "unat (v_minor v) < 16" "v_size v < 16 ^ 6"
    by (rule version_parts)
  let ?h = "hex_padded 6 (v_size v)"
  have h: "length ?h = 6" using b by (simp add: length_hex_padded)
  have fields: "to_version_string v ! 4 = digit_char (unat (v_major v))"
    "to_version_string v ! 5 = digit_char (unat (v_minor v))"
    "to_version_string v ! 16 = CHR ''_''"
    "str_slice 0 4 (to_version_string v) = p" "str_slice 6 10 (to_version_string v) = kind_tag (v_kind v)"
    "str_slice 10 16 (to_version_string v) = ?h"
    unfolding vs using p h by (simp_all add: nth_append str_slice_def)
  have "usize_from_hex ?h = Some (v_size v)" using b by (intro usize_from_hex_padded) simp
  moreover have "kind_from_tag (kind_tag (v_kind v)) = Inr (v_kind v)" by (simp add: kind_from_tag_Inr)
  moreover have "is_ascii (to_version_string v)" by (rule is_ascii_to_version_string [OF ok])
  ultimately show ?thesis
    using length_to_version_string [OF ok] p(1) b
    by (simp add: version_parse_str_def fields hex_digit_char)
qed

lemma version_parse_str_prefix:
  "version_ok v \<Longrightarrow> version_parse_str (to_version_string v @ rest) = Inr v"
  using version_parse_str_take [of "to_version_string v @ rest"] length_to_version_string [of v]
    version_parse_str_print [of v] by simp

lemma version_parse_str_ok:
  assumes "version_parse_str vs = Inr v"
  shows "version_ok v"
proof -
  from assms have l: "17 \<le> length vs" and a: "is_ascii (take 17 vs)"
    and m: "hex_digit (vs ! 4) = Some (v_major v)" "hex_digit (vs ! 5) = Some (v_minor v)"
    and s: "usize_from_hex (str_slice 10 16 vs) = Some (v_size v)" and p: "v_protocol v = str_slice 0 4 vs"
    by (auto simp: version_parse_str_def res_simps KERI_VER_FULLSIZE_def)
  have "v_size v < 16 ^ length (str_slice 10 16 vs)"
    using s unfolding usize_from_hex_def by (rule from_str_radix_less_length [rotated]) simp
  moreover have "length (str_slice 10 16 vs) = 6" using l by (simp add: str_slice_def)
  moreover have "is_ascii (take 4 (take 17 vs))" using a is_ascii_take_drop by blast
  ultimately show ?thesis
    using p l hex_digit_less [OF m(1)] hex_digit_less [OF m(2)]
    by (simp add: version_ok_def str_slice_def)
qed

lemma version_parse_eq:
  "KERI_VER_FULLSIZE \<le> length data \<Longrightarrow> utf8_ok (take KERI_VER_FULLSIZE data) \<Longrightarrow>
     version_parse data = version_parse_str data"
  by (simp add: version_parse_def version_parse_str_take)

lemma version_parse_Inr: "version_parse data = Inr v \<longleftrightarrow> version_parse_str data = Inr v"
proof -
  have "utf8_ok (take KERI_VER_FULLSIZE data)" "KERI_VER_FULLSIZE \<le> length data"
    if "version_parse_str data = Inr v"
    using that by (auto simp: version_parse_str_def res_simps)
  then show ?thesis
    using version_parse_eq [of data]
    by (cases "KERI_VER_FULLSIZE \<le> length data \<and> utf8_ok (take KERI_VER_FULLSIZE data)")
       (auto simp: version_parse_def split: if_splits)
qed

interpretation version_codec: codec to_version_string "\<lambda>vs. okR (version_parse_str vs)" version_ok
  by unfold_locales (simp add: version_parse_str_print)

end
