(* ===== verification/Keri_Said.thy ===== *)
theory Keri_Said
  imports Keri_Crypto Keri_Version
begin

section \<open>Self-addressing identifiers\<close>

text \<open>
  \<open>affinidi-keri-core/src/said.rs\<close>. \<open>compute_said\<close> updates the value it is given in
  place; the model returns the updated value beside the SAID. On an error the source
  leaves placeholders behind in a value that every caller drops, so an error carries no
  value.
\<close>

definition DEFAULT_DIGEST_CODE :: "string" where
  "DEFAULT_DIGEST_CODE = ''E''"

fun serialize_value :: "prims \<Rightarrow> json \<Rightarrow> serialization_kind \<Rightarrow> bytes core_result" where
  "serialize_value pr v JsonKind = map_err Json (json_to_vec pr v)"
| "serialize_value pr v CborKind = map_err Cbor (cbor_to_vec pr v)"
| "serialize_value pr v MsgPackKind = map_err MsgPack (msgpack_to_vec pr v)"

text \<open>Whether the value is a self-addressing inception: its \<open>d\<close> equals its \<open>i\<close>.\<close>

definition is_self_addressing :: "json \<Rightarrow> string \<Rightarrow> bool" where
  "is_self_addressing sad label =
     (if label = ''d'' then
        (case (jget sad ''d'', jget sad ''i'') of
           (Some d_val, Some i_val) \<Rightarrow> jeq d_val i_val
         | _ \<Rightarrow> False)
      else False)"

text \<open>The two \<open>obj.insert\<close> calls that put a text under the label, and under \<open>i\<close> if asked.\<close>

definition put_said :: "string \<Rightarrow> bool \<Rightarrow> string \<Rightarrow> json \<Rightarrow> json" where
  "put_said label self_addressing s sad =
     (let sad' = jinsert label (JString s) sad
      in if self_addressing then jinsert ''i'' (JString s) sad' else sad')"

definition compute_said ::
  "prims \<Rightarrow> json \<Rightarrow> string \<Rightarrow> string \<Rightarrow> serialization_kind \<Rightarrow> (string \<times> json) core_result" where
  "compute_said pr sad label code kind =
     bindR (ok_or (Validation ''SAD must be a JSON object'') (as_object sad)) (\<lambda>obj.
     bindR (ok_or (Validation ''unknown digest code'') (matter_fs pr code)) (\<lambda>dummy_len.
     if dummy_len = 0 then Inl (Validation ''digest code has variable length, cannot compute SAID'')
     else if map_of obj label = None then Inl (MissingField label)
     else
       (let self_addressing = is_self_addressing sad label;
            dummied = put_said label self_addressing (replicate dummy_len (CHR ''#'')) sad
        in bindR (serialize_value pr dummied kind) (\<lambda>serialized.
           bindR (crypto (digest_qb64 pr code serialized)) (\<lambda>said.
           Inr (said, put_said label self_addressing said dummied))))))"

definition verify_said ::
  "prims \<Rightarrow> json \<Rightarrow> string \<Rightarrow> string \<Rightarrow> serialization_kind \<Rightarrow> unit core_result" where
  "verify_said pr sad label code kind =
     bindR (ok_or (Validation ''SAD must be a JSON object'') (as_object sad)) (\<lambda>obj.
     bindR (ok_or (MissingField label) (get_str sad label)) (\<lambda>current_said.
     bindR (compute_said pr sad label code kind) (\<lambda>(computed_said, sad_clone).
     if computed_said \<noteq> current_said then Inl SaidMismatch else Inr ())))"


subsection \<open>Lemmas\<close>

lemma put_said_object [simp]:
  "put_said l b s (JObject obj) =
     JObject (if b then AList.update ''i'' (JString s) (AList.update l (JString s) obj)
              else AList.update l (JString s) obj)"
  by (simp add: put_said_def)

lemma jget_put_said:
  "jget (put_said l b s (JObject obj)) k =
     (if k = l \<or> b \<and> k = ''i'' then Some (JString s) else jget (JObject obj) k)"
  by (auto simp: put_said_def Let_def update_conv)

lemma put_said_overwrite:
  "put_said l b s (put_said l b t (JObject obj)) = put_said l b s (JObject obj)"
proof (cases "b \<and> l \<noteq> ''i''")
  case True
  have "''i'' \<in> set (map fst (AList.update ''i'' (JString t) (AList.update l (JString t) obj)))"
    by (simp add: keys_update)
  have swap: "AList.update l y (AList.update ''i'' x (AList.update l z obj)) =
    AList.update ''i'' x (AList.update l y obj)" for x y z
    using True update_swap [of l "''i''" "AList.update l z obj" y x] by (simp add: keys_update)
  show ?thesis using True by (simp add: swap)
next
  case False
  then show ?thesis by (cases b) auto
qed

text \<open>What a successful computation did.\<close>

lemma compute_said_Inr:
  "compute_said pr sad label code kind = Inr (said, sad') \<longleftrightarrow>
     (\<exists>obj n serialized.
        sad = JObject obj \<and> matter_fs pr code = Some n \<and> 0 < n \<and> map_of obj label \<noteq> None \<and>
        serialize_value pr
          (put_said label (is_self_addressing sad label) (replicate n (CHR ''#'')) sad) kind
          = Inr serialized \<and>
        digest_qb64 pr code serialized = Inr said \<and>
        sad' = put_said label (is_self_addressing sad label) said sad)"
proof -
  have over: "put_said l b s (put_said l b t (JObject obj)) = put_said l b s (JObject obj)"
    for l b s t obj by (rule put_said_overwrite)
  show ?thesis
    unfolding compute_said_def Let_def
    by (auto simp: res_simps over simp del: put_said_object)
qed

lemma compute_said_sad:
  assumes "compute_said pr sad label code kind = Inr (said, sad')"
  shows "sad' = put_said label (is_self_addressing sad label) said sad"
    and "jget sad' label = Some (JString said)"
    and "k \<noteq> label \<Longrightarrow> k \<noteq> ''i'' \<Longrightarrow> jget sad' k = jget sad k"
  using assms by (auto simp: compute_said_Inr jget_put_said simp del: put_said_object)

text \<open>
  Computing again on the result gives the same SAID, provided the placeholders go to the
  same fields: the value was self-addressing, or its new SAID is not its \<open>i\<close>.
\<close>

lemma compute_said_idem:
  assumes c: "compute_said pr sad label code kind = Inr (said, sad')"
    and same: "is_self_addressing sad' label = is_self_addressing sad label"
  shows "compute_said pr sad' label code kind = Inr (said, sad')"
proof -
  from c obtain obj where obj: "sad = JObject obj" "map_of obj label \<noteq> None"
    by (auto simp: compute_said_Inr)
  let ?b = "is_self_addressing sad label"
  have sad': "sad' = put_said label ?b said sad" using c by (simp add: compute_said_sad)
  have over: "put_said label ?b s sad' = put_said label ?b s sad" for s
    unfolding sad' obj(1) by (rule put_said_overwrite)
  from sad' obj obtain obj' where obj': "sad' = JObject obj'" by simp
  moreover have "map_of obj' label \<noteq> None"
    using compute_said_sad(2) [OF c] obj' by simp
  ultimately show ?thesis
    using c sad' unfolding compute_said_Inr same over by auto
qed

lemma is_self_addressing_put_said:
  "is_self_addressing (put_said label True s (JObject obj)) label \<longleftrightarrow> label = ''d''"
  by (auto simp: is_self_addressing_def jget_put_said simp del: put_said_object jget.simps)

lemma compute_said_verify:
  assumes c: "compute_said pr sad label code kind = Inr (said, sad')"
    and apart: "is_self_addressing sad label \<or> label \<noteq> ''d'' \<or> jget sad ''i'' \<noteq> Some (JString said)"
  shows "verify_said pr sad' label code kind = Inr ()"
proof -
  from c obtain obj where obj: "sad = JObject obj" by (auto simp: compute_said_Inr)
  have sad': "sad' = put_said label (is_self_addressing sad label) said sad"
    and d: "jget sad' label = Some (JString said)"
    using c by (simp_all add: compute_said_sad)
  have "is_self_addressing sad' label = is_self_addressing sad label"
  proof (cases "is_self_addressing sad label")
    case True
    then have "label = ''d''" by (simp add: is_self_addressing_def split: if_splits)
    moreover have "sad' = put_said label True said (JObject obj)" using sad' True obj by (simp only:)
    ultimately have "is_self_addressing sad' label" by (simp only: is_self_addressing_put_said)
    with True show ?thesis by simp
  next
    case False
    have "jget sad' ''i'' = jget sad ''i''" if "label = ''d''"
      using False that sad' obj by (simp add: jget_put_said del: put_said_object)
    with apart False d show ?thesis
      by (auto simp: is_self_addressing_def split: option.splits)
  qed
  from compute_said_idem [OF c this] d show ?thesis
    using obj sad' by (simp add: verify_said_def get_str_def)
qed

lemma verify_said_Inr:
  "verify_said pr sad label code kind = Inr () \<longleftrightarrow>
     (\<exists>said sad'. get_str sad label = Some said \<and> compute_said pr sad label code kind = Inr (said, sad'))"
  by (auto simp: verify_said_def res_simps compute_said_Inr)

text \<open>A value whose SAID verifies is the value the SAID was computed for.\<close>

lemma verify_said_fixed_point:
  assumes v: "verify_said pr sad label code kind = Inr ()" and ok: "json_ok sad"
  obtains said where "get_str sad label = Some said"
    "compute_said pr sad label code kind = Inr (said, sad)"
proof -
  from v obtain said sad' where s: "get_str sad label = Some said"
    and c: "compute_said pr sad label code kind = Inr (said, sad')"
    by (auto simp: verify_said_Inr)
  from c obtain obj where obj: "sad = JObject obj" by (auto simp: compute_said_Inr)
  have d: "jget sad label = Some (JString said)" using s by (simp add: get_str_eq_Some)
  then have l: "jinsert label (JString said) sad = sad" using ok by (rule jinsert_idem [rotated])
  have "sad' = sad"
  proof (cases "is_self_addressing sad label")
    case True
    then have "jget sad ''i'' = Some (JString said)"
      using d by (auto simp: is_self_addressing_def split: if_splits option.splits)
    then have "jinsert ''i'' (JString said) sad = sad" using ok by (rule jinsert_idem [rotated])
    with True l compute_said_sad(1) [OF c] show ?thesis by (simp add: put_said_def)
  next
    case False
    with l compute_said_sad(1) [OF c] show ?thesis by (simp add: put_said_def)
  qed
  with s c show thesis by (intro that) simp_all
qed

end
