(* ===== verification/Keri_Serder.thy ===== *)
theory Keri_Serder
  imports Keri_Said
begin

section \<open>Serder\<close>

text \<open>
  \<open>affinidi-keri-core/src/serder.rs\<close>: a message as its bytes, its version, its kind and
  its parsed value. \<open>serder_new\<close> is the two-pass size computation of \<open>Serder::new\<close>,
  \<open>serder_from_raw\<close> cuts one message off the front of a buffer. \<open>take_sad\<close> returns the
  value and the \<open>Serder\<close> that is left.
\<close>

record serder =
  serder_raw :: bytes
  serder_version :: "version option"
  serder_kind :: serialization_kind
  serder_sad :: json

fun deserialize_value :: "prims \<Rightarrow> bytes \<Rightarrow> serialization_kind \<Rightarrow> json core_result" where
  "deserialize_value pr data JsonKind = map_err Json (json_from_slice pr data)"
| "deserialize_value pr data CborKind = map_err Cbor (cbor_from_slice pr data)"
| "deserialize_value pr data MsgPackKind = map_err MsgPack (msgpack_from_slice pr data)"

definition put_version :: "version \<Rightarrow> json \<Rightarrow> json" where
  "put_version ver sad = jinsert ''v'' (JString (to_version_string ver)) sad"

definition serder_new :: "prims \<Rightarrow> serialization_kind \<Rightarrow> json \<Rightarrow> serder core_result" where
  "serder_new pr kind sad =
     bindR (serialize_value pr sad kind) (\<lambda>raw.
     let ver0 =
       (case get_str sad ''v'' of
          Some v_str \<Rightarrow>
            (case version_parse_str v_str of
               Inr ver \<Rightarrow> Some (ver\<lparr>v_size := length raw\<rparr>)
             | Inl _ \<Rightarrow> Some (version_default_v1 kind (length raw)))
        | None \<Rightarrow> None)
     in case ver0 of
          Some ver \<Rightarrow>
            (let sad1 = put_version ver sad
             in bindR (serialize_value pr sad1 kind) (\<lambda>raw1.
                let final_ver = ver\<lparr>v_size := length raw1\<rparr>;
                    sad2 = put_version final_ver sad1
                in bindR (serialize_value pr sad2 kind) (\<lambda>raw2.
                   Inr \<lparr>serder_raw = raw2, serder_version = Some final_ver,
                        serder_kind = kind, serder_sad = sad2\<rparr>)))
        | None \<Rightarrow> Inr \<lparr>serder_raw = raw, serder_version = None, serder_kind = kind, serder_sad = sad\<rparr>)"

definition VERSION_SEARCH_WINDOW :: "nat" where
  "VERSION_SEARCH_WINDOW = 32"

text \<open>\<open>window.windows(proto.len()).position(|w| w == proto)\<close>\<close>

definition window_position :: "bytes \<Rightarrow> bytes \<Rightarrow> nat option" where
  "window_position proto w =
     find (\<lambda>i. take (length proto) (drop i w) = proto) [0..<length w + 1 - length proto]"

definition protocols :: "bytes list" where
  "protocols = [''KERI'', ''ACDC'', ''SAID'']"

definition min_option :: "nat list \<Rightarrow> nat option" where
  "min_option ns = (case ns of [] \<Rightarrow> None | n # ms \<Rightarrow> Some (fold min ms n))"

definition extract_version_from_raw :: "bytes \<Rightarrow> version option" where
  "extract_version_from_raw data =
     (let window = take VERSION_SEARCH_WINDOW data
      in Option.bind (min_option (List.map_filter (\<lambda>p. window_position p window) protocols)) (\<lambda>pos.
         if length data < pos + KERI_VER_FULLSIZE then None
         else okR (version_parse (drop pos data))))"

definition sniff_kind :: "bytes \<Rightarrow> serialization_kind core_result" where
  "sniff_kind data =
     (case data of
        [] \<Rightarrow> Inl (ParseError ''empty data'')
      | c # _ \<Rightarrow>
          (let b = byte c in
           if c = CHR ''{'' then Inr JsonKind
           else if 160 \<le> b \<and> b \<le> 183 \<or> b = 184 \<or> b = 185 \<or> b = 186 \<or> b = 187 \<or> b = 191 then Inr CborKind
           else if 128 \<le> b \<and> b \<le> 143 \<or> b = 222 \<or> b = 223 then Inr MsgPackKind
           else Inl (ParseError ''cannot detect serialization kind'')))"

definition serder_from_raw :: "prims \<Rightarrow> bytes \<Rightarrow> serder core_result" where
  "serder_from_raw pr raw =
     (if raw = [] then Inl (ParseError ''empty input'')
      else
        bindR (sniff_kind raw) (\<lambda>kind.
        let ver = extract_version_from_raw raw;
            msg_len = (case ver of Some v \<Rightarrow> v_size v | None \<Rightarrow> length raw)
        in if length raw < msg_len then Inl (ParseError ''raw data too short'')
           else
             (let msg_bytes = take msg_len raw
              in bindR (deserialize_value pr msg_bytes kind) (\<lambda>sad.
                 Inr \<lparr>serder_raw = msg_bytes,
                      serder_version =
                        (case ver of
                           Some v \<Rightarrow> Some v
                         | None \<Rightarrow> Option.bind (get_str sad ''v'') (\<lambda>vs. okR (version_parse_str vs))),
                      serder_kind = kind, serder_sad = sad\<rparr>))))"

definition serder_from_json_value :: "prims \<Rightarrow> json \<Rightarrow> serder core_result" where
  "serder_from_json_value pr sad = serder_new pr JsonKind sad"

definition serder_size :: "serder \<Rightarrow> nat" where
  "serder_size s = length (serder_raw s)"

definition serder_said :: "serder \<Rightarrow> string core_result" where
  "serder_said s = ok_or (MissingField ''d'') (get_str (serder_sad s) ''d'')"

definition serder_ilk :: "serder \<Rightarrow> string core_result" where
  "serder_ilk s = ok_or (MissingField ''t'') (get_str (serder_sad s) ''t'')"

definition serder_prefix :: "serder \<Rightarrow> string core_result" where
  "serder_prefix s = ok_or (MissingField ''i'') (get_str (serder_sad s) ''i'')"

definition serder_sn :: "serder \<Rightarrow> u64 core_result" where
  "serder_sn s = ok_or (MissingField ''s'') (Option.bind (get_str (serder_sad s) ''s'') u64_from_hex)"

definition serder_take_sad :: "serder \<Rightarrow> json \<times> serder" where
  "serder_take_sad s = (serder_sad s, s\<lparr>serder_sad := JNull\<rparr>)"

definition serder_verify_said :: "prims \<Rightarrow> serder \<Rightarrow> string \<Rightarrow> unit core_result" where
  "serder_verify_said pr s code = verify_said pr (serder_sad s) ''d'' code (serder_kind s)"


subsection \<open>Lemmas\<close>

text \<open>\<open>Serder::new\<close> changes the version string of the value and nothing else.\<close>

lemma jget_put_version:
  "jget (put_version ver sad) k = (if k = ''v'' \<and> as_object sad \<noteq> None then Some (JString (to_version_string ver)) else jget sad k)"
  by (cases sad) (auto simp: put_version_def update_conv)

lemma put_version_overwrite [simp]: "put_version a (put_version b sad) = put_version a sad"
  by (simp add: put_version_def)

lemma json_ok_put_version: "json_ok sad \<Longrightarrow> json_ok (put_version ver sad)"
  by (simp add: put_version_def json_ok_jinsert)

text \<open>The version a new message starts from, before its size is known.\<close>

definition base_version :: "serialization_kind \<Rightarrow> string \<Rightarrow> version" where
  "base_version kind vs =
     (case version_parse_str vs of Inr ver \<Rightarrow> ver | Inl _ \<Rightarrow> version_default_v1 kind 0)"

lemma serder_new_eq:
  "serder_new pr kind sad =
     bindR (serialize_value pr sad kind) (\<lambda>raw.
     case get_str sad ''v'' of
       None \<Rightarrow> Inr \<lparr>serder_raw = raw, serder_version = None, serder_kind = kind, serder_sad = sad\<rparr>
     | Some vs \<Rightarrow>
         bindR (serialize_value pr (put_version ((base_version kind vs)\<lparr>v_size := length raw\<rparr>) sad) kind) (\<lambda>raw1.
         let ver = (base_version kind vs)\<lparr>v_size := length raw1\<rparr>
         in bindR (serialize_value pr (put_version ver sad) kind) (\<lambda>raw2.
            Inr \<lparr>serder_raw = raw2, serder_version = Some ver,
                 serder_kind = kind, serder_sad = put_version ver sad\<rparr>)))"
  by (cases "serialize_value pr sad kind")
     (simp_all add: serder_new_def base_version_def version_default_v1_def version_new_def Let_def
        split: option.splits sum.splits)

lemma serder_new_Inr:
  assumes "serder_new pr kind sad = Inr s"
  shows "serder_kind s = kind"
    and "serialize_value pr (serder_sad s) kind = Inr (serder_raw s)"
    and "k \<noteq> ''v'' \<Longrightarrow> jget (serder_sad s) k = jget sad k"
    and "json_ok sad \<Longrightarrow> json_ok (serder_sad s)"
  using assms
  by (auto simp: serder_new_eq res_simps Let_def jget_put_version json_ok_put_version split: option.splits)

lemma base_version_ok: "n < 16 ^ 6 \<Longrightarrow> version_ok ((base_version kind vs)\<lparr>v_size := n\<rparr>)"
proof -
  have "version_ok ((version_default_v1 kind 0)\<lparr>v_size := n\<rparr>)" if "n < 16 ^ 6"
    using that by (simp add: version_default_v1_def version_new_def version_ok_def byte_def)
  moreover have "version_ok (ver\<lparr>v_size := n\<rparr>)" if "version_ok ver" "n < 16 ^ 6" for ver
    using that by (simp add: version_ok_def)
  ultimately show "n < 16 ^ 6 \<Longrightarrow> version_ok ((base_version kind vs)\<lparr>v_size := n\<rparr>)"
    by (auto simp: base_version_def split: sum.splits dest: version_parse_str_ok)
qed

text \<open>
  A serialiser writes the six hexadecimal digits of the size one byte each: the length
  of a message does not depend on which size it declares. The format has room for
  messages below 16 MiB.
\<close>

definition size_stable :: "prims \<Rightarrow> serialization_kind \<Rightarrow> version \<Rightarrow> json \<Rightarrow> bool" where
  "size_stable pr kind ver sad \<longleftrightarrow>
     (\<exists>len < 16 ^ 6. \<forall>n < 16 ^ 6. \<forall>bs.
        serialize_value pr (put_version (ver\<lparr>v_size := n\<rparr>) sad) kind = Inr bs \<longrightarrow> length bs = len)"

lemma serder_new_version:
  assumes new: "serder_new pr kind sad = Inr s" and v: "get_str sad ''v'' = Some vs"
    and raw: "serialize_value pr sad kind = Inr raw" "length raw < 16 ^ 6"
    and stable: "size_stable pr kind (base_version kind vs) sad"
  shows "\<exists>ver. serder_version s = Some ver \<and> version_ok ver \<and> v_size ver = length (serder_raw s) \<and>
    jget (serder_sad s) ''v'' = Some (JString (to_version_string ver))"
proof -
  let ?ver = "\<lambda>n. (base_version kind vs)\<lparr>v_size := n\<rparr>"
  from new v raw(1) obtain raw1 where
    r1: "serialize_value pr (put_version (?ver (length raw)) sad) kind = Inr raw1" and
    r2: "serialize_value pr (put_version (?ver (length raw1)) sad) kind = Inr (serder_raw s)" and
    s: "serder_version s = Some (?ver (length raw1))" "serder_sad s = put_version (?ver (length raw1)) sad"
    by (auto simp: serder_new_eq res_simps Let_def)
  from stable obtain len where "len < 16 ^ 6" and len: "\<And>n bs. n < 16 ^ 6 \<Longrightarrow>
      serialize_value pr (put_version (?ver n) sad) kind = Inr bs \<Longrightarrow> length bs = len"
    unfolding size_stable_def by blast
  then have "length raw1 = len" "length (serder_raw s) = len" "len < 16 ^ 6"
    using len [OF raw(2) r1] len [OF _ r2] by simp_all
  moreover have "as_object sad \<noteq> None"
    using v by (auto simp: get_str_eq_Some dest: jget_eq_Some_object)
  ultimately show ?thesis
    using s base_version_ok [of len kind vs] by (simp add: jget_put_version)
qed

text \<open>Reading a message off a buffer: the version string sits right after \<open>{"v":"\<close>.\<close>

lemma find_first:
  "n \<le> m \<Longrightarrow> P n \<Longrightarrow> (\<And>i. i < n \<Longrightarrow> \<not> P i) \<Longrightarrow> find P [0..<Suc m] = Some n"
proof -
  assume n: "n \<le> m" "P n" and before: "\<And>i. i < n \<Longrightarrow> \<not> P i"
  have "[0..<Suc m] = [0..<n] @ n # [Suc n..<Suc m]"
    using n upt_add_eq_append [of 0 n "Suc m - n"] by (simp add: upt_conv_Cons)
  moreover have "find P [0..<n] = None" using before by (auto simp: find_None_iff)
  moreover have "find P (xs @ y # ys) = Some y" if "find P xs = None" "P y" for xs y ys
    using that by (induction xs) (auto split: if_splits)
  ultimately show ?thesis using n by simp
qed

lemma min_option_least:
  "n \<in> set ns \<Longrightarrow> (\<And>m. m \<in> set ns \<Longrightarrow> n \<le> m) \<Longrightarrow> min_option ns = Some n"
proof -
  assume n: "n \<in> set ns" "\<And>m. m \<in> set ns \<Longrightarrow> n \<le> m"
  then obtain k ks where ns: "ns = k # ks" by (cases ns) auto
  have "fold min ks k = Min (set ns)" unfolding ns by (rule Min.set_eq_fold [symmetric])
  also have "\<dots> = n" using n by (intro Min_eqI) auto
  finally show ?thesis by (simp add: min_option_def ns)
qed

lemma set_map_filter_iff: "y \<in> set (List.map_filter f xs) \<longleftrightarrow> (\<exists>x\<in>set xs. f x = Some y)"
  by (induction xs) (auto simp: List.map_filter_simps split: option.splits)

lemma window_position_Some:
  assumes "window_position p w = Some i"
  shows "take (length p) (drop i w) = p"
  using assms by (auto simp: window_position_def find_Some_iff)

lemma hd_take_drop: "take (length p) (drop i w) = p \<Longrightarrow> p \<noteq> [] \<Longrightarrow> i < length w \<and> w ! i = hd p"
  by (metis drop_eq_Nil hd_drop_conv_nth hd_take length_greater_0_conv not_le_imp_less take_eq_Nil)

lemma protocol_window_position:
  assumes "p \<in> set protocols" and head: "set h \<inter> {CHR ''K'', CHR ''A'', CHR ''S''} = {}"
  shows "window_position p (h @ p @ rest) = Some (length h)"
proof -
  have p: "p \<noteq> []" "hd p \<in> {CHR ''K'', CHR ''A'', CHR ''S''}"
    using assms(1) by (auto simp: protocols_def)
  have "find (\<lambda>i. take (length p) (drop i (h @ p @ rest)) = p) [0..<Suc (length h + length rest)] = Some (length h)"
  proof (rule find_first)
    fix i assume i: "i < length h"
    show "take (length p) (drop i (h @ p @ rest)) \<noteq> p"
    proof
      assume "take (length p) (drop i (h @ p @ rest)) = p"
      then have "(h @ p @ rest) ! i = hd p" using p(1) by (rule hd_take_drop [THEN conjunct2])
      then have "hd p \<in> set h" using i nth_mem [of i h] by (simp add: nth_append)
      with p(2) head show False by blast
    qed
  qed simp_all
  then show ?thesis using p by (simp add: window_position_def add.commute)
qed

lemma extract_version_after:
  assumes p: "v_protocol ver \<in> set protocols" and ok: "version_ok ver"
    and head: "set h \<inter> {CHR ''K'', CHR ''A'', CHR ''S''} = {}" "length h \<le> 15"
  shows "extract_version_from_raw (h @ to_version_string ver @ rest) = Some ver"
proof -
  obtain q where vs: "to_version_string ver = v_protocol ver @ q"
    by (simp add: to_version_string_def)
  have len: "length (to_version_string ver) = 17" "length (v_protocol ver) = 4"
    using length_to_version_string [OF ok] ok by (simp_all add: KERI_VER_FULLSIZE_def version_ok_def)
  let ?w = "take VERSION_SEARCH_WINDOW (h @ to_version_string ver @ rest)"
  have "?w = h @ v_protocol ver @ take (28 - length h) (q @ rest)"
    using len head by (simp add: vs VERSION_SEARCH_WINDOW_def)
  then obtain r where w: "?w = h @ v_protocol ver @ r" ..
  have pos: "window_position (v_protocol ver) ?w = Some (length h)"
    unfolding w by (rule protocol_window_position [OF p head(1)])
  have later: "length h \<le> i" if q: "q \<in> set protocols" "window_position q ?w = Some i" for q i
  proof (rule ccontr)
    assume i: "\<not> length h \<le> i"
    have "?w ! i = h ! i" unfolding w using i by (simp add: nth_append)
    moreover have "?w ! i = hd q"
      using hd_take_drop [OF window_position_Some [OF q(2)]] q(1) by (auto simp: protocols_def)
    moreover have "hd q \<in> {CHR ''K'', CHR ''A'', CHR ''S''}" using q(1) by (auto simp: protocols_def)
    moreover have "h ! i \<in> set h" using i by (intro nth_mem) simp
    ultimately show False using head(1) by (metis disjoint_iff)
  qed
  have "min_option (List.map_filter (\<lambda>p. window_position p ?w) protocols) = Some (length h)"
  proof (rule min_option_least)
    show "length h \<in> set (List.map_filter (\<lambda>p. window_position p ?w) protocols)"
      unfolding set_map_filter_iff using p pos by blast
    show "length h \<le> m" if "m \<in> set (List.map_filter (\<lambda>p. window_position p ?w) protocols)" for m
      using that later unfolding set_map_filter_iff by blast
  qed
  moreover have "version_parse (to_version_string ver @ rest) = Inr ver"
    by (simp add: version_parse_Inr version_parse_str_prefix ok)
  ultimately show ?thesis
    using len by (simp add: extract_version_from_raw_def Let_def KERI_VER_FULLSIZE_def)
qed

text \<open>
  What \<open>Serder::from_raw\<close> makes of a buffer that starts with a JSON message of the
  declared size, whatever follows it.
\<close>

definition json_head :: "bytes" where
  "json_head = [CHR ''{'', CHR 0x22, CHR ''v'', CHR 0x22, CHR '':'', CHR 0x22]"

lemma serder_from_raw_message:
  assumes p: "v_protocol ver \<in> set protocols" and ok: "version_ok ver"
    and raw: "raw = json_head @ to_version_string ver @ tail" "v_size ver = length raw"
    and reads: "json_from_slice pr raw = Inr sad"
  shows "serder_from_raw pr (raw @ rest) =
     Inr \<lparr>serder_raw = raw, serder_version = Some ver, serder_kind = JsonKind, serder_sad = sad\<rparr>"
proof -
  have "extract_version_from_raw (json_head @ to_version_string ver @ tail @ rest) = Some ver"
    by (rule extract_version_after [OF p ok]) (auto simp: json_head_def)
  then have "extract_version_from_raw (raw @ rest) = Some ver" by (simp add: raw(1))
  moreover have "sniff_kind (raw @ rest) = Inr JsonKind" "raw \<noteq> []" by (simp_all add: raw(1) sniff_kind_def json_head_def)
  ultimately show ?thesis
    using raw(2) reads by (simp add: serder_from_raw_def Let_def)
qed

text \<open>What any successful read consumed.\<close>

lemma serder_from_raw_prefix:
  assumes "serder_from_raw pr raw = Inr s"
  shows "\<exists>rest. raw = serder_raw s @ rest"
proof -
  from assms obtain n where "serder_raw s = take n raw"
    by (auto simp: serder_from_raw_def res_simps Let_def)
  then have "raw = serder_raw s @ drop n raw" by simp
  then show ?thesis ..
qed

lemma serder_from_raw_kind:
  "serder_from_raw pr raw = Inr s \<Longrightarrow> deserialize_value pr (serder_raw s) (serder_kind s) = Inr (serder_sad s)"
  by (auto simp: serder_from_raw_def res_simps Let_def)

end
