(* ===== verification/Keri_Threshold.thy ===== *)
theory Keri_Threshold
  imports Keri_Errors Complex_Main
begin

section \<open>Signing thresholds\<close>

text \<open>
  \<open>affinidi-keri-core/src/threshold.rs\<close>. A weight keeps the source's two \<open>u32\<close>; the
  satisfaction check is the source's loop over the clauses with its running key index and
  its checked \<open>u64\<close> fractions (\<open>clause_sum\<close>, \<open>clauses_satisfied\<close>). The specification
  is in rational numbers: \<open>signed_clauses\<close> selects the weights of each clause whose key
  signed, and \<open>weight_value\<close> is the fraction a weight denotes. \<open>as_f64\<close> (unused by the
  program) is not modelled.
\<close>

record weight =
  w_num :: u32
  w_den :: u32

datatype threshold =
    Simple nat
  | Weighted "weight list list"

definition weight_new :: "u32 \<Rightarrow> u32 \<Rightarrow> weight core_result" where
  "weight_new num den =
     (if den = 0 then Inl (Validation ''weight denominator cannot be zero'')
      else Inr \<lparr>w_num = num, w_den = den\<rparr>)"

definition weight_parse :: "string \<Rightarrow> weight core_result" where
  "weight_parse s =
     (case split_once (CHR ''/'') s of
        Some (num_s, den_s) \<Rightarrow>
          bindR (ok_or (Validation ''invalid weight numerator'') (u32_from_dec num_s)) (\<lambda>num.
          bindR (ok_or (Validation ''invalid weight denominator'') (u32_from_dec den_s)) (\<lambda>den.
          weight_new num den))
      | None \<Rightarrow>
          bindR (ok_or (Validation ''invalid weight'') (u32_from_dec s)) (\<lambda>num. weight_new num 1))"

definition to_fraction_string :: "weight \<Rightarrow> string" where
  "to_fraction_string w =
     (if w_den w = 1 then dec (unat (w_num w)) else dec (unat (w_num w)) @ ''/'' @ dec (unat (w_den w)))"

definition clause_from_json :: "json \<Rightarrow> weight list core_result" where
  "clause_from_json clause =
     bindR (ok_or (Validation ''weighted threshold clause must be an array'') (as_array clause)) (\<lambda>arr.
     if arr = [] then Inl (Validation ''weighted threshold clause must have at least one weight'')
     else mapR (\<lambda>w. bindR (ok_or (Validation ''weighted threshold weight must be a string'') (as_str w))
                       weight_parse) arr)"

fun threshold_from_json_value :: "json \<Rightarrow> threshold core_result" where
  "threshold_from_json_value (JString s) =
     bindR (ok_or (Validation ''invalid threshold string'') (usize_from_dec s)) (\<lambda>n.
     if n = 0 then Inl (Validation ''signing threshold must be at least 1'') else Inr (Simple n))"
| "threshold_from_json_value (JNumber m) =
     bindR (ok_or (Validation ''invalid threshold number'') (as_u64 m)) (\<lambda>n.
     if n = 0 then Inl (Validation ''signing threshold must be at least 1'') else Inr (Simple (unat n)))"
| "threshold_from_json_value (JArray clauses) =
     (if clauses = [] then Inl (Validation ''weighted threshold must have at least one clause'')
      else bindR (mapR clause_from_json clauses) (\<lambda>weighted. Inr (Weighted weighted)))"
| "threshold_from_json_value _ = Inl (Validation ''invalid threshold value'')"

fun threshold_to_json_value :: "threshold \<Rightarrow> json" where
  "threshold_to_json_value (Simple n) = JString (dec n)"
| "threshold_to_json_value (Weighted clauses) =
     JArray (map (\<lambda>clause. JArray (map (\<lambda>w. JString (to_fraction_string w)) clause)) clauses)"

text \<open>One round of the inner loop: \<open>total += weight\<close> in checked \<open>u64\<close> fractions.\<close>

definition add_weight :: "u64 \<Rightarrow> u64 \<Rightarrow> weight \<Rightarrow> (u64 \<times> u64) option" where
  "add_weight total_num total_den w =
     Option.bind (checked_mul total_num (ucast (w_den w))) (\<lambda>a.
     Option.bind (checked_mul (ucast (w_num w)) total_den) (\<lambda>b.
     Option.bind (checked_add a b) (\<lambda>new_num.
     Option.bind (checked_mul total_den (ucast (w_den w))) (\<lambda>new_den.
     Some (new_num, new_den)))))"

fun clause_sum :: "nat list \<Rightarrow> nat \<Rightarrow> nat \<Rightarrow> u64 \<Rightarrow> u64 \<Rightarrow> weight list \<Rightarrow> (nat \<times> u64 \<times> u64) option" where
  "clause_sum indices total_keys key_idx n d [] = Some (key_idx, n, d)"
| "clause_sum indices total_keys key_idx n d (w # ws) =
     (if key_idx < total_keys \<and> key_idx \<in> set indices then
        (case add_weight n d w of
           None \<Rightarrow> None
         | Some (n', d') \<Rightarrow> clause_sum indices total_keys (key_idx + 1) n' d' ws)
      else clause_sum indices total_keys (key_idx + 1) n d ws)"

fun clauses_satisfied :: "nat list \<Rightarrow> nat \<Rightarrow> nat \<Rightarrow> weight list list \<Rightarrow> bool" where
  "clauses_satisfied indices total_keys key_idx [] = True"
| "clauses_satisfied indices total_keys key_idx (c # cs) =
     (case clause_sum indices total_keys key_idx 0 1 c of
        None \<Rightarrow> False
      | Some (key_idx', n, d) \<Rightarrow> if n < d then False else clauses_satisfied indices total_keys key_idx' cs)"

fun is_satisfied :: "threshold \<Rightarrow> nat list \<Rightarrow> nat \<Rightarrow> bool" where
  "is_satisfied (Simple k) indices total_keys = (0 < k \<and> k \<le> length indices)"
| "is_satisfied (Weighted clauses) indices total_keys =
     (clauses \<noteq> [] \<and> clauses_satisfied indices total_keys 0 clauses)"


subsection \<open>The textual form\<close>

text \<open>What \<open>from_json_value\<close> can return.\<close>

fun threshold_ok :: "threshold \<Rightarrow> bool" where
  "threshold_ok (Simple k) = (0 < k \<and> k < 2 ^ 64)"
| "threshold_ok (Weighted clauses) =
     (clauses \<noteq> [] \<and> list_all (\<lambda>c. c \<noteq> [] \<and> list_all (\<lambda>w. w_den w \<noteq> 0) c) clauses)"

lemma weight_new_Inr [res_simps]:
  "weight_new n d = Inr w \<longleftrightarrow> d \<noteq> 0 \<and> w = \<lparr>w_num = n, w_den = d\<rparr>"
  by (auto simp: weight_new_def)

lemma weight_parse_ok: "weight_parse s = Inr w \<Longrightarrow> w_den w \<noteq> 0"
  by (auto simp: weight_parse_def res_simps split: option.splits)

lemma dec_no_slash: "CHR ''/'' \<notin> set (dec n)"
proof
  assume "CHR ''/'' \<in> set (dec n)"
  then obtain d where d: "d < 10" "CHR ''/'' = digit_char d"
    unfolding dec_def using set_to_radix [of 10 "CHR ''/''" n] by auto
  have "byte (CHR ''/'') = 47" by (simp add: byte_def)
  then have "byte (digit_char d) = 47" unfolding d(2) .
  then show False using byte_digit_char [of d] d(1) by linarith
qed

lemma weight_parse_print: "w_den w \<noteq> 0 \<Longrightarrow> weight_parse (to_fraction_string w) = Inr w"
  using split_once_append [of "CHR ''/''" "dec (unat (w_num w))" "dec (unat (w_den w))"]
    split_once_None [of "CHR ''/''" "dec (unat (w_num w))"]
  by (auto simp: to_fraction_string_def weight_parse_def dec_no_slash u32_codec.dec_enc weight_new_def)

interpretation weight_codec: codec to_fraction_string "\<lambda>s. okR (weight_parse s)" "\<lambda>w. w_den w \<noteq> 0"
  by unfold_locales (simp add: weight_parse_print)

lemma clause_from_json_print:
  "c \<noteq> [] \<Longrightarrow> list_all (\<lambda>w. w_den w \<noteq> 0) c \<Longrightarrow>
     clause_from_json (JArray (map (\<lambda>w. JString (to_fraction_string w)) c)) = Inr c"
proof -
  assume c: "c \<noteq> []" and w: "list_all (\<lambda>w. w_den w \<noteq> 0) c"
  have "mapR (\<lambda>w. weight_parse (to_fraction_string w)) c = Inr (map (\<lambda>w. w) c)"
    using w by (intro mapR_all_Inr weight_parse_print) (auto simp: list_all_iff)
  with c show ?thesis by (simp add: clause_from_json_def mapR_map comp_def)
qed

lemma clause_from_json_ok:
  assumes "clause_from_json v = Inr c"
  shows "c \<noteq> [] \<and> list_all (\<lambda>w. w_den w \<noteq> 0) c"
proof -
  from assms obtain arr where arr: "arr \<noteq> []"
    and map: "mapR (\<lambda>w. bindR (ok_or (Validation ''weighted threshold weight must be a string'') (as_str w))
                       weight_parse) arr = Inr c"
    by (auto simp: clause_from_json_def res_simps)
  from map have "list_all (\<lambda>w. w_den w \<noteq> 0) c"
    by (rule mapR_list_all) (auto simp: res_simps weight_parse_ok)
  with arr mapR_length [OF map] show ?thesis by auto
qed

lemma threshold_json_round_trip:
  "threshold_ok t \<Longrightarrow> threshold_from_json_value (threshold_to_json_value t) = Inr t"
proof (induction t)
  case (Simple k)
  then show ?case using dec_codec.dec_enc [of k] by simp
next
  case (Weighted cs)
  have "mapR (\<lambda>c. clause_from_json (JArray (map (\<lambda>w. JString (to_fraction_string w)) c))) cs
          = Inr (map (\<lambda>c. c) cs)"
    using Weighted by (intro mapR_all_Inr clause_from_json_print) (auto simp: list_all_iff)
  with Weighted show ?case by (simp add: mapR_map comp_def)
qed

lemma threshold_from_json_ok: "threshold_from_json_value v = Inr t \<Longrightarrow> threshold_ok t"
proof (induction v rule: threshold_from_json_value.induct)
  case (1 s)
  then show ?case
    by (auto simp: res_simps usize_from_dec_def dest: from_str_radix_bound)
next
  case (2 m)
  then show ?case by (auto simp: res_simps unat_gt_0)
next
  case (3 cs)
  then obtain ws where t: "cs \<noteq> []" "t = Weighted ws" and map: "mapR clause_from_json cs = Inr ws"
    by (auto simp: res_simps)
  from map have "list_all (\<lambda>c. c \<noteq> [] \<and> list_all (\<lambda>w. w_den w \<noteq> 0) c) ws"
    by (rule mapR_list_all) (rule clause_from_json_ok)
  with t mapR_length [OF map] show ?case by auto
qed auto

interpretation threshold_codec:
  codec threshold_to_json_value "\<lambda>v. okR (threshold_from_json_value v)" threshold_ok
  by unfold_locales (simp add: threshold_json_round_trip)


subsection \<open>Satisfaction against exact fractions\<close>

definition weight_value :: "weight \<Rightarrow> rat" where
  "weight_value w = of_nat (unat (w_num w)) / of_nat (unat (w_den w))"

text \<open>The weights of a clause that starts at key \<open>i\<close> whose keys are among the signers.\<close>

fun signed_weights :: "nat list \<Rightarrow> nat \<Rightarrow> nat \<Rightarrow> weight list \<Rightarrow> weight list" where
  "signed_weights indices total_keys i [] = []"
| "signed_weights indices total_keys i (w # ws) =
     (if i < total_keys \<and> i \<in> set indices then [w] else []) @
       signed_weights indices total_keys (i + 1) ws"

fun signed_clauses :: "nat list \<Rightarrow> nat \<Rightarrow> nat \<Rightarrow> weight list list \<Rightarrow> weight list list" where
  "signed_clauses indices total_keys i [] = []"
| "signed_clauses indices total_keys i (c # cs) =
     signed_weights indices total_keys i c # signed_clauses indices total_keys (i + length c) cs"

text \<open>The unreduced fraction \<open>n / d\<close> plus the weights, without a bound on the integers.\<close>

fun exact_sum :: "nat \<Rightarrow> nat \<Rightarrow> weight list \<Rightarrow> nat \<times> nat" where
  "exact_sum n d [] = (n, d)"
| "exact_sum n d (w # ws) =
     exact_sum (n * unat (w_den w) + unat (w_num w) * d) (d * unat (w_den w)) ws"

definition fits64 :: "nat \<times> nat \<Rightarrow> bool" where
  "fits64 p = (fst p < 2 ^ 64 \<and> snd p < 2 ^ 64)"

lemma unat_ucast_u32 [simp]: "unat (ucast (w :: u32) :: u64) = unat w"
  by (simp add: unsigned_ucast_eq take_bit_nat_eq_self_iff order_less_trans [OF unat_u32_less])

lemma ex_u64: "n < 2 ^ 64 \<Longrightarrow> \<exists>w :: u64. unat w = n"
  by (rule exI [of _ "of_nat n"]) (simp add: unat_of_nat)

lemma add_weight_Some:
  "add_weight n d w = Some (n', d') \<longleftrightarrow>
     unat n' = unat n * unat (w_den w) + unat (w_num w) * unat d \<and> unat d' = unat d * unat (w_den w)"
proof
  assume "add_weight n d w = Some (n', d')"
  then show "unat n' = unat n * unat (w_den w) + unat (w_num w) * unat d \<and>
    unat d' = unat d * unat (w_den w)"
    by (auto simp: add_weight_def bind_eq_Some_conv checked_mul_Some checked_add_Some)
next
  assume eq: "unat n' = unat n * unat (w_den w) + unat (w_num w) * unat d \<and>
    unat d' = unat d * unat (w_den w)"
  have lt: "unat n * unat (w_den w) < 2 ^ 64" "unat (w_num w) * unat d < 2 ^ 64"
    using eq unat_u64_less [of n'] by auto
  obtain a b :: u64 where "unat a = unat n * unat (w_den w)" "unat b = unat (w_num w) * unat d"
    using lt ex_u64 by metis
  then have "checked_mul n (ucast (w_den w)) = Some a" "checked_mul (ucast (w_num w)) d = Some b"
    "checked_add a b = Some n'" "checked_mul d (ucast (w_den w)) = Some d'"
    using eq by (simp_all add: checked_mul_Some checked_add_Some)
  then show "add_weight n d w = Some (n', d')" by (simp add: add_weight_def)
qed

lemma exact_sum_mono:
  "list_all (\<lambda>w. w_den w \<noteq> 0) ws \<Longrightarrow> exact_sum n d ws = (n', d') \<Longrightarrow> n \<le> n' \<and> d \<le> d'"
proof (induction ws arbitrary: n d)
  case (Cons w ws)
  have pos: "1 \<le> unat (w_den w)" using Cons.prems(1) by (simp add: Suc_le_eq unat_gt_0)
  from Cons have "n * unat (w_den w) + unat (w_num w) * d \<le> n'" "d * unat (w_den w) \<le> d'" by simp_all
  moreover have "n \<le> n * unat (w_den w)" "d \<le> d * unat (w_den w)" using pos by simp_all
  ultimately show ?case by linarith
qed simp

lemma signed_weights_ok:
  "list_all P ws \<Longrightarrow> list_all P (signed_weights indices total_keys i ws)"
  by (induction ws arbitrary: i) auto

text \<open>The checked loop computes the exact fraction, and gives up exactly when it does not fit.\<close>

lemma clause_sum_exact:
  "list_all (\<lambda>w. w_den w \<noteq> 0) ws \<Longrightarrow>
     clause_sum indices total_keys i n d ws =
       (let p = exact_sum (unat n) (unat d) (signed_weights indices total_keys i ws)
        in if fits64 p then Some (i + length ws, of_nat (fst p), of_nat (snd p)) else None)"
proof (induction ws arbitrary: i n d)
  case Nil
  then show ?case by (simp add: fits64_def)
next
  case (Cons w ws)
  note ok = signed_weights_ok [of "\<lambda>w. w_den w \<noteq> 0" ws indices total_keys "i + 1"]
  show ?case
  proof (cases "i < total_keys \<and> i \<in> set indices")
    case signed: True
    show ?thesis
    proof (cases "add_weight n d w")
      case (Some p)
      then obtain n' d' where add: "add_weight n d w = Some (n', d')" by (cases p) simp
      then have "unat n' = unat n * unat (w_den w) + unat (w_num w) * unat d"
        "unat d' = unat d * unat (w_den w)" by (simp_all add: add_weight_Some)
      with Cons signed add show ?thesis by (simp add: Let_def)
    next
      case None
      let ?n = "unat n * unat (w_den w) + unat (w_num w) * unat d" and ?d = "unat d * unat (w_den w)"
      obtain n' d' where ex: "exact_sum ?n ?d (signed_weights indices total_keys (i + 1) ws) = (n', d')"
        by fastforce
      have "\<not> (?n < 2 ^ 64 \<and> ?d < 2 ^ 64)"
        using None add_weight_Some [of n d w] ex_u64 by (metis option.distinct(1))
      then have "\<not> fits64 (n', d')"
        using exact_sum_mono [OF ok ex] Cons.prems unfolding fits64_def by auto
      with None signed ex show ?thesis by (simp add: Let_def)
    qed
  next
    case False
    with Cons show ?thesis by (simp add: Let_def del: de_Morgan_conj)
  qed
qed

lemma exact_sum_value:
  "list_all (\<lambda>w. w_den w \<noteq> 0) ws \<Longrightarrow> 0 < d \<Longrightarrow> exact_sum n d ws = (n', d') \<Longrightarrow>
     0 < d' \<and> (of_nat n' / of_nat d' :: rat) = of_nat n / of_nat d + (\<Sum>w\<leftarrow>ws. weight_value w)"
proof (induction ws arbitrary: n d)
  case (Cons w ws)
  have pos: "0 < unat (w_den w)" using Cons.prems(1) by (simp add: unat_gt_0)
  let ?n = "n * unat (w_den w) + unat (w_num w) * d" and ?d = "d * unat (w_den w)"
  have "(of_nat ?n / of_nat ?d :: rat) = of_nat n / of_nat d + weight_value w"
  proof -
    have "(of_nat d :: rat) \<noteq> 0" "(of_nat (unat (w_den w)) :: rat) \<noteq> 0"
      using pos Cons.prems(2) by (simp_all only: of_nat_eq_0_iff)
    then show ?thesis unfolding weight_value_def of_nat_add of_nat_mult by (rule add_frac_eq [symmetric])
  qed
  moreover have "0 < d' \<and> (of_nat n' / of_nat d' :: rat) = of_nat ?n / of_nat ?d + (\<Sum>w\<leftarrow>ws. weight_value w)"
    using Cons.prems pos by (intro Cons.IH) simp_all
  ultimately show ?case by simp
qed simp

text \<open>A clause holds when the weights of its signers add up to one, in numbers that fit.\<close>

definition clause_met :: "weight list \<Rightarrow> bool" where
  "clause_met ws \<longleftrightarrow> 1 \<le> (\<Sum>w\<leftarrow>ws. weight_value w) \<and> fits64 (exact_sum 0 1 ws)"

lemma clause_met_iff:
  assumes "list_all (\<lambda>w. w_den w \<noteq> 0) ws"
  shows "clause_met ws \<longleftrightarrow> (let p = exact_sum 0 1 ws in fits64 p \<and> snd p \<le> fst p)"
proof -
  obtain n d where ex: "exact_sum 0 1 ws = (n, d)" by fastforce
  from exact_sum_value [OF assms _ ex]
  have d: "0 < d" and v: "(\<Sum>w\<leftarrow>ws. weight_value w) = (of_nat n / of_nat d :: rat)" by simp_all
  have "1 \<le> (of_nat n / of_nat d :: rat) \<longleftrightarrow> d \<le> n" using d by (simp add: le_divide_eq)
  with ex v show ?thesis by (auto simp: clause_met_def)
qed

lemma clauses_satisfied_iff:
  "list_all (list_all (\<lambda>w. w_den w \<noteq> 0)) cs \<Longrightarrow>
     clauses_satisfied indices total_keys i cs \<longleftrightarrow>
       list_all clause_met (signed_clauses indices total_keys i cs)"
proof (induction cs arbitrary: i)
  case (Cons c cs)
  let ?ws = "signed_weights indices total_keys i c"
  have ok: "list_all (\<lambda>w. w_den w \<noteq> 0) ?ws" using Cons.prems by (simp add: signed_weights_ok)
  have c: "list_all (\<lambda>w. w_den w \<noteq> 0) c" using Cons.prems by simp
  have lt: "(of_nat n :: u64) < of_nat d \<longleftrightarrow> n < d" if "n < 2 ^ 64" "d < 2 ^ 64" for n d
    using that by (simp add: word_less_nat_alt unat_of_nat)
  show ?case
  proof (cases "fits64 (exact_sum 0 1 ?ws)")
    case True
    then show ?thesis
      using Cons lt unfolding clauses_satisfied.simps clause_sum_exact [OF c] clause_met_iff [OF ok]
      by (auto simp: Let_def fits64_def clause_met_iff [OF ok])
  next
    case False
    then show ?thesis by (simp add: clause_sum_exact [OF c] Let_def clause_met_def)
  qed
qed simp

lemma is_satisfied_Weighted_iff:
  assumes "threshold_ok (Weighted cs)"
  shows "is_satisfied (Weighted cs) indices total_keys \<longleftrightarrow>
     list_all clause_met (signed_clauses indices total_keys 0 cs)"
  using assms by (auto simp: clauses_satisfied_iff list_all_iff)

lemma is_satisfied_Simple_mono:
  "is_satisfied (Simple k) xs n \<Longrightarrow> length xs \<le> length ys \<Longrightarrow> is_satisfied (Simple k) ys n"
  by simp

subsection \<open>More signers\<close>

text \<open>Nobody is not enough.\<close>

lemma clause_sum_none: "clause_sum [] k i n d c = Some (i + length c, n, d)"
  by (induction c arbitrary: i) simp_all

lemma not_satisfied_by_none: "\<not> is_satisfied thr [] k"
proof (cases thr)
  case (Weighted cs)
  then show ?thesis by (cases cs) (simp_all add: clause_sum_none)
qed auto

text \<open>The fraction of some signers of a clause is at most that of all its keys, above and below the line.\<close>

lemma exact_sum_signed_le:
  assumes "list_all (\<lambda>w. w_den w \<noteq> 0) ws" "n \<le> m" "d \<le> e"
  shows "fst (exact_sum n d (signed_weights I t i ws)) \<le> fst (exact_sum m e ws) \<and>
    snd (exact_sum n d (signed_weights I t i ws)) \<le> snd (exact_sum m e ws)"
  using assms
proof (induction ws arbitrary: i n d m e)
  case (Cons w ws)
  let ?m = "m * unat (w_den w) + unat (w_num w) * e" and ?e = "e * unat (w_den w)"
  from Cons.prems have ok: "list_all (\<lambda>w. w_den w \<noteq> 0) ws" and pos: "1 \<le> unat (w_den w)"
    by (simp_all add: Suc_le_eq unat_gt_0)
  show ?case
  proof (cases "i < t \<and> i \<in> set I")
    case True
    have "n * unat (w_den w) + unat (w_num w) * d \<le> ?m" "d * unat (w_den w) \<le> ?e"
      using Cons.prems by (simp_all add: add_le_mono)
    with Cons.IH [OF ok this, of "i + 1"] True show ?thesis by simp
  next
    case False
    have "m \<le> m * unat (w_den w)" "e \<le> ?e" using pos by simp_all
    with Cons.prems(2,3) have "n \<le> ?m" "d \<le> ?e" by linarith+
    with Cons.IH [OF ok this, of "i + 1"] False show ?thesis by (simp del: de_Morgan_conj)
  qed
qed simp

lemma fits_signed:
  "list_all (\<lambda>w. w_den w \<noteq> 0) c \<Longrightarrow> fits64 (exact_sum 0 1 c) \<Longrightarrow> fits64 (exact_sum 0 1 (signed_weights I t i c))"
  using exact_sum_signed_le [of c 0 0 1 1 I t i] by (auto simp: fits64_def)

lemma weight_value_nonneg: "0 \<le> weight_value w"
  unfolding weight_value_def by (rule divide_nonneg_nonneg) (simp_all only: of_nat_0_le_iff)

lemma signed_value_mono:
  "set I \<subseteq> set J \<Longrightarrow>
     (\<Sum>w\<leftarrow>signed_weights I t i ws. weight_value w) \<le> (\<Sum>w\<leftarrow>signed_weights J t i ws. weight_value w)"
proof (induction ws arbitrary: i)
  case (Cons w ws)
  with Cons.IH [of "Suc i"] weight_value_nonneg [of w] show ?case by (auto intro: add_increasing)
qed simp

lemma all_signed_weights: "{i..<i + length ws} \<subseteq> set J \<Longrightarrow> i + length ws \<le> t \<Longrightarrow> signed_weights J t i ws = ws"
proof (induction ws arbitrary: i)
  case (Cons w ws)
  have "{Suc i..<Suc i + length ws} \<subseteq> set J" "i \<in> set J" using Cons.prems(1) by auto
  with Cons show ?case by simp
qed simp

lemma all_signed_clauses:
  "{i..<i + sum_list (map length cs)} \<subseteq> set J \<Longrightarrow> i + sum_list (map length cs) \<le> t \<Longrightarrow> signed_clauses J t i cs = cs"
proof (induction cs arbitrary: i)
  case (Cons c cs)
  have "{i..<i + length c} \<subseteq> set J" "{i + length c..<i + length c + sum_list (map length cs)} \<subseteq> set J"
    using Cons.prems(1) by auto
  with Cons all_signed_weights [of i c J t] show ?case by (simp add: add.assoc)
qed simp

text \<open>Where the fractions of all the keys fit, nothing is lost to the width of the integers.\<close>

lemma fitting_clauses_met:
  assumes "list_all (list_all (\<lambda>w. w_den w \<noteq> 0)) cs" "list_all (\<lambda>c. fits64 (exact_sum 0 1 c)) cs"
  shows "list_all clause_met (signed_clauses I t i cs) \<longleftrightarrow>
    list_all (\<lambda>ws. 1 \<le> (\<Sum>w\<leftarrow>ws. weight_value w)) (signed_clauses I t i cs)"
  using assms by (induction cs arbitrary: i) (simp_all add: clause_met_def fits_signed [unfolded One_nat_def])

lemma clause_values_mono:
  assumes "set I \<subseteq> set J"
    and "list_all (\<lambda>ws. 1 \<le> (\<Sum>w\<leftarrow>ws. weight_value w)) (signed_clauses I t i cs)"
  shows "list_all (\<lambda>ws. 1 \<le> (\<Sum>w\<leftarrow>ws. weight_value w)) (signed_clauses J t i cs)"
  using assms(2)
  by (induction cs arbitrary: i) (auto intro: order_trans [OF _ signed_value_mono [OF assms(1)]])

lemma is_satisfied_mono_iff:
  assumes ok: "threshold_ok (Weighted cs)" and t: "sum_list (map length cs) \<le> t" and sat: "is_satisfied (Weighted cs) I0 t"
  shows "(\<forall>I J. set I \<subseteq> set J \<longrightarrow> is_satisfied (Weighted cs) I t \<longrightarrow> is_satisfied (Weighted cs) J t) \<longleftrightarrow>
    list_all (\<lambda>c. fits64 (exact_sum 0 1 c)) cs"
proof
  assume mono: "\<forall>I J. set I \<subseteq> set J \<longrightarrow> is_satisfied (Weighted cs) I t \<longrightarrow> is_satisfied (Weighted cs) J t"
  let ?J = "I0 @ [0..<t]"
  have "is_satisfied (Weighted cs) ?J t" using mono [rule_format, of I0 ?J] sat by simp
  then have "list_all clause_met (signed_clauses ?J t 0 cs)" using is_satisfied_Weighted_iff [OF ok] by blast
  moreover have "signed_clauses ?J t 0 cs = cs" using t by (intro all_signed_clauses) auto
  ultimately show "list_all (\<lambda>c. fits64 (exact_sum 0 1 c)) cs" by (simp add: list_all_iff clause_met_def)
next
  assume fits: "list_all (\<lambda>c. fits64 (exact_sum 0 1 c)) cs"
  have den: "list_all (list_all (\<lambda>w. w_den w \<noteq> 0)) cs" using ok by (simp add: list_all_iff)
  show "\<forall>I J. set I \<subseteq> set J \<longrightarrow> is_satisfied (Weighted cs) I t \<longrightarrow> is_satisfied (Weighted cs) J t"
    unfolding is_satisfied_Weighted_iff [OF ok] fitting_clauses_met [OF den fits] using clause_values_mono by blast
qed

end
