(* ===== verification/Keri_Event.thy ===== *)
theory Keri_Event
  imports Keri_Tags Keri_Threshold
begin

section \<open>Key events\<close>

text \<open>
  \<open>affinidi-keri-core/src/event.rs\<close>: one record per event struct, with the fields in the
  order of their declaration. \<open>\<dots>_from_value\<close> is \<open>serde_json::from_value\<close> of the derived
  decoder (by name from an object, by position from an array), \<open>\<dots>_to_value\<close> the derived
  encoder. \<open>key_event\<close> is the enum over the five key events with its accessors.
\<close>

text \<open>The decoders of the field types: a string, a list of strings, a list of values, a threshold.\<close>

definition str_field :: "json list \<Rightarrow> nat \<Rightarrow> string option" where
  "str_field fs i = as_str (fs ! i)"

definition strs_field :: "json list \<Rightarrow> nat \<Rightarrow> string list option" where
  "strs_field fs i = string_list (fs ! i)"

definition vals_field :: "json list \<Rightarrow> nat \<Rightarrow> json list option" where
  "vals_field fs i = as_array (fs ! i)"

definition threshold_field :: "json list \<Rightarrow> nat \<Rightarrow> threshold option" where
  "threshold_field fs i = okR (threshold_from_json_value (fs ! i))"

lemmas field_defs = str_field_def strs_field_def vals_field_def threshold_field_def


subsection \<open>Inception\<close>

record inception_event =
  icp_version :: string
  icp_ilk :: string
  icp_said :: string
  icp_prefix :: string
  icp_sn :: string
  icp_keys_threshold :: threshold
  icp_keys :: "string list"
  icp_next_threshold :: threshold
  icp_next_keys :: "string list"
  icp_backer_threshold :: string
  icp_backers :: "string list"
  icp_config :: "string list"
  icp_anchors :: "json list"

definition icp_fields :: "string list" where
  "icp_fields = [''v'', ''t'', ''d'', ''i'', ''s'', ''kt'', ''k'', ''nt'', ''n'', ''bt'', ''b'', ''c'', ''a'']"

definition icp_from_value :: "json \<Rightarrow> inception_event option" where
  "icp_from_value v =
     Option.bind (struct_fields icp_fields v) (\<lambda>fs.
     Option.bind (str_field fs 0) (\<lambda>version'.
     Option.bind (str_field fs 1) (\<lambda>ilk'.
     Option.bind (str_field fs 2) (\<lambda>said'.
     Option.bind (str_field fs 3) (\<lambda>prefix'.
     Option.bind (str_field fs 4) (\<lambda>sn'.
     Option.bind (threshold_field fs 5) (\<lambda>keys_threshold'.
     Option.bind (strs_field fs 6) (\<lambda>keys'.
     Option.bind (threshold_field fs 7) (\<lambda>next_threshold'.
     Option.bind (strs_field fs 8) (\<lambda>next_keys'.
     Option.bind (str_field fs 9) (\<lambda>backer_threshold'.
     Option.bind (strs_field fs 10) (\<lambda>backers'.
     Option.bind (strs_field fs 11) (\<lambda>config'.
     Option.bind (vals_field fs 12) (\<lambda>anchors'.
     Some \<lparr>icp_version = version', icp_ilk = ilk', icp_said = said',
           icp_prefix = prefix', icp_sn = sn', icp_keys_threshold = keys_threshold',
           icp_keys = keys', icp_next_threshold = next_threshold', icp_next_keys = next_keys',
           icp_backer_threshold = backer_threshold', icp_backers = backers', icp_config = config',
           icp_anchors = anchors'\<rparr>))))))))))))))"

definition icp_to_value :: "inception_event \<Rightarrow> json" where
  "icp_to_value e =
     JObject
       [(''v'', JString (icp_version e)), (''t'', JString (icp_ilk e)),
        (''d'', JString (icp_said e)), (''i'', JString (icp_prefix e)),
        (''s'', JString (icp_sn e)), (''kt'', threshold_to_json_value (icp_keys_threshold e)),
        (''k'', jstrings (icp_keys e)), (''nt'', threshold_to_json_value (icp_next_threshold e)),
        (''n'', jstrings (icp_next_keys e)), (''bt'', JString (icp_backer_threshold e)),
        (''b'', jstrings (icp_backers e)), (''c'', jstrings (icp_config e)),
        (''a'', JArray (icp_anchors e))]"

definition icp_ok :: "inception_event \<Rightarrow> bool" where
  "icp_ok e \<longleftrightarrow> threshold_ok (icp_keys_threshold e) \<and> threshold_ok (icp_next_threshold e)"

lemma icp_round_trip: "icp_ok e \<Longrightarrow> icp_from_value (icp_to_value e) = Some e"
  by (simp add: icp_from_value_def icp_to_value_def struct_fields_object icp_fields_def field_defs icp_ok_def threshold_json_round_trip )

lemma icp_from_value_ok: "icp_from_value v = Some e \<Longrightarrow> icp_ok e"
  by (auto simp: icp_from_value_def icp_ok_def bind_eq_Some_conv threshold_field_def dest!: threshold_from_json_ok)

interpretation icp_codec: codec icp_to_value icp_from_value icp_ok
  by unfold_locales (simp add: icp_round_trip)


subsection \<open>Rotation\<close>

record rotation_event =
  rot_version :: string
  rot_ilk :: string
  rot_said :: string
  rot_prefix :: string
  rot_sn :: string
  rot_prior_said :: string
  rot_keys_threshold :: threshold
  rot_keys :: "string list"
  rot_next_threshold :: threshold
  rot_next_keys :: "string list"
  rot_backer_threshold :: string
  rot_backers_remove :: "string list"
  rot_backers_add :: "string list"
  rot_config :: "string list"
  rot_anchors :: "json list"

definition rot_fields :: "string list" where
  "rot_fields = [''v'', ''t'', ''d'', ''i'', ''s'', ''p'', ''kt'', ''k'', ''nt'', ''n'', ''bt'', ''br'', ''ba'', ''c'', ''a'']"

definition rot_from_value :: "json \<Rightarrow> rotation_event option" where
  "rot_from_value v =
     Option.bind (struct_fields rot_fields v) (\<lambda>fs.
     Option.bind (str_field fs 0) (\<lambda>version'.
     Option.bind (str_field fs 1) (\<lambda>ilk'.
     Option.bind (str_field fs 2) (\<lambda>said'.
     Option.bind (str_field fs 3) (\<lambda>prefix'.
     Option.bind (str_field fs 4) (\<lambda>sn'.
     Option.bind (str_field fs 5) (\<lambda>prior_said'.
     Option.bind (threshold_field fs 6) (\<lambda>keys_threshold'.
     Option.bind (strs_field fs 7) (\<lambda>keys'.
     Option.bind (threshold_field fs 8) (\<lambda>next_threshold'.
     Option.bind (strs_field fs 9) (\<lambda>next_keys'.
     Option.bind (str_field fs 10) (\<lambda>backer_threshold'.
     Option.bind (strs_field fs 11) (\<lambda>backers_remove'.
     Option.bind (strs_field fs 12) (\<lambda>backers_add'.
     Option.bind (strs_field fs 13) (\<lambda>config'.
     Option.bind (vals_field fs 14) (\<lambda>anchors'.
     Some \<lparr>rot_version = version', rot_ilk = ilk', rot_said = said',
           rot_prefix = prefix', rot_sn = sn', rot_prior_said = prior_said',
           rot_keys_threshold = keys_threshold', rot_keys = keys', rot_next_threshold = next_threshold',
           rot_next_keys = next_keys', rot_backer_threshold = backer_threshold', rot_backers_remove = backers_remove',
           rot_backers_add = backers_add', rot_config = config', rot_anchors = anchors'\<rparr>))))))))))))))))"

definition rot_to_value :: "rotation_event \<Rightarrow> json" where
  "rot_to_value e =
     JObject
       [(''v'', JString (rot_version e)), (''t'', JString (rot_ilk e)),
        (''d'', JString (rot_said e)), (''i'', JString (rot_prefix e)),
        (''s'', JString (rot_sn e)), (''p'', JString (rot_prior_said e)),
        (''kt'', threshold_to_json_value (rot_keys_threshold e)), (''k'', jstrings (rot_keys e)),
        (''nt'', threshold_to_json_value (rot_next_threshold e)), (''n'', jstrings (rot_next_keys e)),
        (''bt'', JString (rot_backer_threshold e)), (''br'', jstrings (rot_backers_remove e)),
        (''ba'', jstrings (rot_backers_add e)), (''c'', jstrings (rot_config e)),
        (''a'', JArray (rot_anchors e))]"

definition rot_ok :: "rotation_event \<Rightarrow> bool" where
  "rot_ok e \<longleftrightarrow> threshold_ok (rot_keys_threshold e) \<and> threshold_ok (rot_next_threshold e)"

lemma rot_round_trip: "rot_ok e \<Longrightarrow> rot_from_value (rot_to_value e) = Some e"
  by (simp add: rot_from_value_def rot_to_value_def struct_fields_object rot_fields_def field_defs rot_ok_def threshold_json_round_trip )

lemma rot_from_value_ok: "rot_from_value v = Some e \<Longrightarrow> rot_ok e"
  by (auto simp: rot_from_value_def rot_ok_def bind_eq_Some_conv threshold_field_def dest!: threshold_from_json_ok)

interpretation rot_codec: codec rot_to_value rot_from_value rot_ok
  by unfold_locales (simp add: rot_round_trip)


subsection \<open>Interaction\<close>

record interaction_event =
  ixn_version :: string
  ixn_ilk :: string
  ixn_said :: string
  ixn_prefix :: string
  ixn_sn :: string
  ixn_prior_said :: string
  ixn_anchors :: "json list"

definition ixn_fields :: "string list" where
  "ixn_fields = [''v'', ''t'', ''d'', ''i'', ''s'', ''p'', ''a'']"

definition ixn_from_value :: "json \<Rightarrow> interaction_event option" where
  "ixn_from_value v =
     Option.bind (struct_fields ixn_fields v) (\<lambda>fs.
     Option.bind (str_field fs 0) (\<lambda>version'.
     Option.bind (str_field fs 1) (\<lambda>ilk'.
     Option.bind (str_field fs 2) (\<lambda>said'.
     Option.bind (str_field fs 3) (\<lambda>prefix'.
     Option.bind (str_field fs 4) (\<lambda>sn'.
     Option.bind (str_field fs 5) (\<lambda>prior_said'.
     Option.bind (vals_field fs 6) (\<lambda>anchors'.
     Some \<lparr>ixn_version = version', ixn_ilk = ilk', ixn_said = said',
           ixn_prefix = prefix', ixn_sn = sn', ixn_prior_said = prior_said',
           ixn_anchors = anchors'\<rparr>))))))))"

definition ixn_to_value :: "interaction_event \<Rightarrow> json" where
  "ixn_to_value e =
     JObject
       [(''v'', JString (ixn_version e)), (''t'', JString (ixn_ilk e)),
        (''d'', JString (ixn_said e)), (''i'', JString (ixn_prefix e)),
        (''s'', JString (ixn_sn e)), (''p'', JString (ixn_prior_said e)),
        (''a'', JArray (ixn_anchors e))]"

lemma ixn_round_trip: "ixn_from_value (ixn_to_value e) = Some e"
  by (simp add: ixn_from_value_def ixn_to_value_def struct_fields_object ixn_fields_def field_defs )

interpretation ixn_codec: codec ixn_to_value ixn_from_value "\<lambda>_. True"
  by unfold_locales (simp add: ixn_round_trip)


subsection \<open>Delegated inception\<close>

record delegated_inception_event =
  dip_version :: string
  dip_ilk :: string
  dip_said :: string
  dip_prefix :: string
  dip_sn :: string
  dip_keys_threshold :: threshold
  dip_keys :: "string list"
  dip_next_threshold :: threshold
  dip_next_keys :: "string list"
  dip_backer_threshold :: string
  dip_backers :: "string list"
  dip_config :: "string list"
  dip_anchors :: "json list"
  dip_delegator :: string

definition dip_fields :: "string list" where
  "dip_fields = [''v'', ''t'', ''d'', ''i'', ''s'', ''kt'', ''k'', ''nt'', ''n'', ''bt'', ''b'', ''c'', ''a'', ''di'']"

definition dip_from_value :: "json \<Rightarrow> delegated_inception_event option" where
  "dip_from_value v =
     Option.bind (struct_fields dip_fields v) (\<lambda>fs.
     Option.bind (str_field fs 0) (\<lambda>version'.
     Option.bind (str_field fs 1) (\<lambda>ilk'.
     Option.bind (str_field fs 2) (\<lambda>said'.
     Option.bind (str_field fs 3) (\<lambda>prefix'.
     Option.bind (str_field fs 4) (\<lambda>sn'.
     Option.bind (threshold_field fs 5) (\<lambda>keys_threshold'.
     Option.bind (strs_field fs 6) (\<lambda>keys'.
     Option.bind (threshold_field fs 7) (\<lambda>next_threshold'.
     Option.bind (strs_field fs 8) (\<lambda>next_keys'.
     Option.bind (str_field fs 9) (\<lambda>backer_threshold'.
     Option.bind (strs_field fs 10) (\<lambda>backers'.
     Option.bind (strs_field fs 11) (\<lambda>config'.
     Option.bind (vals_field fs 12) (\<lambda>anchors'.
     Option.bind (str_field fs 13) (\<lambda>delegator'.
     Some \<lparr>dip_version = version', dip_ilk = ilk', dip_said = said',
           dip_prefix = prefix', dip_sn = sn', dip_keys_threshold = keys_threshold',
           dip_keys = keys', dip_next_threshold = next_threshold', dip_next_keys = next_keys',
           dip_backer_threshold = backer_threshold', dip_backers = backers', dip_config = config',
           dip_anchors = anchors', dip_delegator = delegator'\<rparr>)))))))))))))))"

definition dip_to_value :: "delegated_inception_event \<Rightarrow> json" where
  "dip_to_value e =
     JObject
       [(''v'', JString (dip_version e)), (''t'', JString (dip_ilk e)),
        (''d'', JString (dip_said e)), (''i'', JString (dip_prefix e)),
        (''s'', JString (dip_sn e)), (''kt'', threshold_to_json_value (dip_keys_threshold e)),
        (''k'', jstrings (dip_keys e)), (''nt'', threshold_to_json_value (dip_next_threshold e)),
        (''n'', jstrings (dip_next_keys e)), (''bt'', JString (dip_backer_threshold e)),
        (''b'', jstrings (dip_backers e)), (''c'', jstrings (dip_config e)),
        (''a'', JArray (dip_anchors e)), (''di'', JString (dip_delegator e))]"

definition dip_ok :: "delegated_inception_event \<Rightarrow> bool" where
  "dip_ok e \<longleftrightarrow> threshold_ok (dip_keys_threshold e) \<and> threshold_ok (dip_next_threshold e)"

lemma dip_round_trip: "dip_ok e \<Longrightarrow> dip_from_value (dip_to_value e) = Some e"
  by (simp add: dip_from_value_def dip_to_value_def struct_fields_object dip_fields_def field_defs dip_ok_def threshold_json_round_trip )

lemma dip_from_value_ok: "dip_from_value v = Some e \<Longrightarrow> dip_ok e"
  by (auto simp: dip_from_value_def dip_ok_def bind_eq_Some_conv threshold_field_def dest!: threshold_from_json_ok)

interpretation dip_codec: codec dip_to_value dip_from_value dip_ok
  by unfold_locales (simp add: dip_round_trip)


subsection \<open>Delegated rotation\<close>

record delegated_rotation_event =
  drt_version :: string
  drt_ilk :: string
  drt_said :: string
  drt_prefix :: string
  drt_sn :: string
  drt_prior_said :: string
  drt_keys_threshold :: threshold
  drt_keys :: "string list"
  drt_next_threshold :: threshold
  drt_next_keys :: "string list"
  drt_backer_threshold :: string
  drt_backers_remove :: "string list"
  drt_backers_add :: "string list"
  drt_config :: "string list"
  drt_anchors :: "json list"
  drt_delegator :: string

definition drt_fields :: "string list" where
  "drt_fields = [''v'', ''t'', ''d'', ''i'', ''s'', ''p'', ''kt'', ''k'', ''nt'', ''n'', ''bt'', ''br'', ''ba'', ''c'', ''a'', ''di'']"

definition drt_from_value :: "json \<Rightarrow> delegated_rotation_event option" where
  "drt_from_value v =
     Option.bind (struct_fields drt_fields v) (\<lambda>fs.
     Option.bind (str_field fs 0) (\<lambda>version'.
     Option.bind (str_field fs 1) (\<lambda>ilk'.
     Option.bind (str_field fs 2) (\<lambda>said'.
     Option.bind (str_field fs 3) (\<lambda>prefix'.
     Option.bind (str_field fs 4) (\<lambda>sn'.
     Option.bind (str_field fs 5) (\<lambda>prior_said'.
     Option.bind (threshold_field fs 6) (\<lambda>keys_threshold'.
     Option.bind (strs_field fs 7) (\<lambda>keys'.
     Option.bind (threshold_field fs 8) (\<lambda>next_threshold'.
     Option.bind (strs_field fs 9) (\<lambda>next_keys'.
     Option.bind (str_field fs 10) (\<lambda>backer_threshold'.
     Option.bind (strs_field fs 11) (\<lambda>backers_remove'.
     Option.bind (strs_field fs 12) (\<lambda>backers_add'.
     Option.bind (strs_field fs 13) (\<lambda>config'.
     Option.bind (vals_field fs 14) (\<lambda>anchors'.
     Option.bind (str_field fs 15) (\<lambda>delegator'.
     Some \<lparr>drt_version = version', drt_ilk = ilk', drt_said = said',
           drt_prefix = prefix', drt_sn = sn', drt_prior_said = prior_said',
           drt_keys_threshold = keys_threshold', drt_keys = keys', drt_next_threshold = next_threshold',
           drt_next_keys = next_keys', drt_backer_threshold = backer_threshold', drt_backers_remove = backers_remove',
           drt_backers_add = backers_add', drt_config = config', drt_anchors = anchors',
           drt_delegator = delegator'\<rparr>)))))))))))))))))"

definition drt_to_value :: "delegated_rotation_event \<Rightarrow> json" where
  "drt_to_value e =
     JObject
       [(''v'', JString (drt_version e)), (''t'', JString (drt_ilk e)),
        (''d'', JString (drt_said e)), (''i'', JString (drt_prefix e)),
        (''s'', JString (drt_sn e)), (''p'', JString (drt_prior_said e)),
        (''kt'', threshold_to_json_value (drt_keys_threshold e)), (''k'', jstrings (drt_keys e)),
        (''nt'', threshold_to_json_value (drt_next_threshold e)), (''n'', jstrings (drt_next_keys e)),
        (''bt'', JString (drt_backer_threshold e)), (''br'', jstrings (drt_backers_remove e)),
        (''ba'', jstrings (drt_backers_add e)), (''c'', jstrings (drt_config e)),
        (''a'', JArray (drt_anchors e)), (''di'', JString (drt_delegator e))]"

definition drt_ok :: "delegated_rotation_event \<Rightarrow> bool" where
  "drt_ok e \<longleftrightarrow> threshold_ok (drt_keys_threshold e) \<and> threshold_ok (drt_next_threshold e)"

lemma drt_round_trip: "drt_ok e \<Longrightarrow> drt_from_value (drt_to_value e) = Some e"
  by (simp add: drt_from_value_def drt_to_value_def struct_fields_object drt_fields_def field_defs drt_ok_def threshold_json_round_trip )

lemma drt_from_value_ok: "drt_from_value v = Some e \<Longrightarrow> drt_ok e"
  by (auto simp: drt_from_value_def drt_ok_def bind_eq_Some_conv threshold_field_def dest!: threshold_from_json_ok)

interpretation drt_codec: codec drt_to_value drt_from_value drt_ok
  by unfold_locales (simp add: drt_round_trip)


subsection \<open>Receipt\<close>

record receipt_event =
  rct_version :: string
  rct_ilk :: string
  rct_said :: string
  rct_prefix :: string
  rct_sn :: string

definition rct_fields :: "string list" where
  "rct_fields = [''v'', ''t'', ''d'', ''i'', ''s'']"

definition rct_from_value :: "json \<Rightarrow> receipt_event option" where
  "rct_from_value v =
     Option.bind (struct_fields rct_fields v) (\<lambda>fs.
     Option.bind (str_field fs 0) (\<lambda>version'.
     Option.bind (str_field fs 1) (\<lambda>ilk'.
     Option.bind (str_field fs 2) (\<lambda>said'.
     Option.bind (str_field fs 3) (\<lambda>prefix'.
     Option.bind (str_field fs 4) (\<lambda>sn'.
     Some \<lparr>rct_version = version', rct_ilk = ilk', rct_said = said',
           rct_prefix = prefix', rct_sn = sn'\<rparr>))))))"

definition rct_to_value :: "receipt_event \<Rightarrow> json" where
  "rct_to_value e =
     JObject
       [(''v'', JString (rct_version e)), (''t'', JString (rct_ilk e)),
        (''d'', JString (rct_said e)), (''i'', JString (rct_prefix e)),
        (''s'', JString (rct_sn e))]"

lemma rct_round_trip: "rct_from_value (rct_to_value e) = Some e"
  by (simp add: rct_from_value_def rct_to_value_def struct_fields_object rct_fields_def field_defs )

interpretation rct_codec: codec rct_to_value rct_from_value "\<lambda>_. True"
  by unfold_locales (simp add: rct_round_trip)


subsection \<open>Any key event\<close>

datatype key_event =
    Inception inception_event
  | Rotation rotation_event
  | Interaction interaction_event
  | DelegatedInception delegated_inception_event
  | DelegatedRotation delegated_rotation_event

fun key_event_ilk :: "key_event \<Rightarrow> ilk" where
  "key_event_ilk (Inception _) = Icp"
| "key_event_ilk (Rotation _) = Rot"
| "key_event_ilk (Interaction _) = Ixn"
| "key_event_ilk (DelegatedInception _) = Dip"
| "key_event_ilk (DelegatedRotation _) = Drt"

fun key_event_sn_str :: "key_event \<Rightarrow> string" where
  "key_event_sn_str (Inception e) = icp_sn e"
| "key_event_sn_str (Rotation e) = rot_sn e"
| "key_event_sn_str (Interaction e) = ixn_sn e"
| "key_event_sn_str (DelegatedInception e) = dip_sn e"
| "key_event_sn_str (DelegatedRotation e) = drt_sn e"

definition key_event_sn :: "key_event \<Rightarrow> u64 core_result" where
  "key_event_sn e = ok_or (Validation ''invalid sequence number'') (u64_from_hex (key_event_sn_str e))"

fun key_event_prefix :: "key_event \<Rightarrow> string" where
  "key_event_prefix (Inception e) = icp_prefix e"
| "key_event_prefix (Rotation e) = rot_prefix e"
| "key_event_prefix (Interaction e) = ixn_prefix e"
| "key_event_prefix (DelegatedInception e) = dip_prefix e"
| "key_event_prefix (DelegatedRotation e) = drt_prefix e"

fun key_event_said :: "key_event \<Rightarrow> string" where
  "key_event_said (Inception e) = icp_said e"
| "key_event_said (Rotation e) = rot_said e"
| "key_event_said (Interaction e) = ixn_said e"
| "key_event_said (DelegatedInception e) = dip_said e"
| "key_event_said (DelegatedRotation e) = drt_said e"

fun key_event_version :: "key_event \<Rightarrow> string" where
  "key_event_version (Inception e) = icp_version e"
| "key_event_version (Rotation e) = rot_version e"
| "key_event_version (Interaction e) = ixn_version e"
| "key_event_version (DelegatedInception e) = dip_version e"
| "key_event_version (DelegatedRotation e) = drt_version e"

end
