(* ===== verification/Keri_Key_State.thy ===== *)
theory Keri_Key_State
  imports Keri_Crypto Keri_Event
begin

section \<open>Key state\<close>

text \<open>
  \<open>affinidi-keri-core/src/key_state.rs\<close>: the state a key event log leaves an identifier
  in, and the functions that compute the next one. The sequence number is the source's
  \<open>u64\<close>; \<open>self.sn + 1\<close> wraps, as the workspace's release profile does not check for
  overflow.
\<close>

record key_state =
  ks_prefix :: string
  ks_sn :: u64
  ks_said :: string
  ks_threshold :: threshold
  ks_keys :: "string list"
  ks_next_keys :: "string list"
  ks_next_threshold :: threshold
  ks_backer_threshold :: nat
  ks_backers :: "string list"
  ks_config :: "string list"
  ks_last_event_digest :: string
  ks_delegated :: bool
  ks_delegator :: "string option"

definition key_state_new :: "string \<Rightarrow> key_state" where
  "key_state_new prefix' =
     \<lparr>ks_prefix = prefix', ks_sn = 0, ks_said = [], ks_threshold = Simple 0, ks_keys = [],
      ks_next_keys = [], ks_next_threshold = Simple 0, ks_backer_threshold = 0, ks_backers = [],
      ks_config = [], ks_last_event_digest = [], ks_delegated = False, ks_delegator = None\<rparr>"

definition parse_sn :: "string \<Rightarrow> u64 core_result" where
  "parse_sn sn_str = ok_or (Validation ''invalid sequence number'') (u64_from_hex sn_str)"

definition parse_backer_threshold :: "string \<Rightarrow> nat core_result" where
  "parse_backer_threshold bt_str = ok_or (Validation ''invalid backer threshold'') (usize_from_dec bt_str)"

definition from_inception :: "inception_event \<Rightarrow> key_state core_result" where
  "from_inception event =
     bindR (parse_sn (icp_sn event)) (\<lambda>sn.
     if sn \<noteq> 0 then Inl (Validation ''inception event must have sn=0'')
     else
       bindR (parse_backer_threshold (icp_backer_threshold event)) (\<lambda>backer_threshold.
       if length (icp_backers event) < backer_threshold then
         Inl (Validation ''backer threshold exceeds backer count'')
       else
         Inr \<lparr>ks_prefix = icp_prefix event, ks_sn = 0, ks_said = icp_said event,
              ks_threshold = icp_keys_threshold event, ks_keys = icp_keys event,
              ks_next_keys = icp_next_keys event, ks_next_threshold = icp_next_threshold event,
              ks_backer_threshold = backer_threshold, ks_backers = icp_backers event,
              ks_config = icp_config event, ks_last_event_digest = icp_said event,
              ks_delegated = False, ks_delegator = None\<rparr>))"

definition from_delegated_inception :: "delegated_inception_event \<Rightarrow> key_state core_result" where
  "from_delegated_inception event =
     bindR (parse_sn (dip_sn event)) (\<lambda>sn.
     if sn \<noteq> 0 then Inl (Validation ''delegated inception event must have sn=0'')
     else if dip_delegator event = [] then Inl (Validation ''delegated inception names no delegator'')
     else
       bindR (parse_backer_threshold (dip_backer_threshold event)) (\<lambda>backer_threshold.
       if length (dip_backers event) < backer_threshold then
         Inl (Validation ''backer threshold exceeds backer count'')
       else
         Inr \<lparr>ks_prefix = dip_prefix event, ks_sn = 0, ks_said = dip_said event,
              ks_threshold = dip_keys_threshold event, ks_keys = dip_keys event,
              ks_next_keys = dip_next_keys event, ks_next_threshold = dip_next_threshold event,
              ks_backer_threshold = backer_threshold, ks_backers = dip_backers event,
              ks_config = dip_config event, ks_last_event_digest = dip_said event,
              ks_delegated = True, ks_delegator = Some (dip_delegator event)\<rparr>))"

fun check_commitments :: "prims \<Rightarrow> (string \<times> string) list \<Rightarrow> unit core_result" where
  "check_commitments pr [] = Inr ()"
| "check_commitments pr ((key_qb64, digest_qb64') # rest) =
     bindR (map_err (\<lambda>_. Validation ''invalid rotation key'') (verfer_from_qb64 pr key_qb64)) (\<lambda>_.
     bindR (map_err (\<lambda>_. Validation ''invalid next-key digest'') (diger_from_qb64 pr digest_qb64')) (\<lambda>diger'.
     bindR (map_err (\<lambda>_. Validation ''failed to verify next-key commitment'')
              (diger_verify pr diger' key_qb64)) (\<lambda>matches.
     if \<not> matches then Inl (Validation ''rotation key does not match next-key commitment'')
     else check_commitments pr rest)))"

definition verify_next_key_commitment :: "prims \<Rightarrow> string list \<Rightarrow> string list \<Rightarrow> unit core_result" where
  "verify_next_key_commitment pr keys next_keys =
     (if length keys \<noteq> length next_keys then
        Inl (Validation ''rotation key count does not match next-key commitment count'')
      else check_commitments pr (zip keys next_keys))"

text \<open>The new backer list: retain what is not removed, then push what is not there yet.\<close>

fun push_new :: "string list \<Rightarrow> string list \<Rightarrow> string list" where
  "push_new acc [] = acc"
| "push_new acc (b # bs) = push_new (if b \<in> set acc then acc else acc @ [b]) bs"

definition new_backers :: "string list \<Rightarrow> string list \<Rightarrow> string list \<Rightarrow> string list" where
  "new_backers backers remove add = push_new (filter (\<lambda>b. b \<notin> set remove) backers) add"

definition apply_rotation :: "prims \<Rightarrow> key_state \<Rightarrow> rotation_event \<Rightarrow> key_state core_result" where
  "apply_rotation pr ks event =
     bindR (parse_sn (rot_sn event)) (\<lambda>sn.
     if sn \<noteq> ks_sn ks + 1 then Inl (OutOfOrder (ks_sn ks + 1) sn)
     else if rot_prefix event \<noteq> ks_prefix ks then Inl (InvalidPrefix (rot_prefix event))
     else if rot_prior_said event \<noteq> ks_last_event_digest ks then Inl (Validation ''prior SAID mismatch'')
     else
       bindR (verify_next_key_commitment pr (rot_keys event) (ks_next_keys ks)) (\<lambda>_.
       bindR (parse_backer_threshold (rot_backer_threshold event)) (\<lambda>backer_threshold.
       let backers = new_backers (ks_backers ks) (rot_backers_remove event) (rot_backers_add event)
       in if length backers < backer_threshold then
            Inl (Validation ''backer threshold exceeds backer count'')
          else
            Inr \<lparr>ks_prefix = ks_prefix ks, ks_sn = sn, ks_said = rot_said event,
                 ks_threshold = rot_keys_threshold event, ks_keys = rot_keys event,
                 ks_next_keys = rot_next_keys event, ks_next_threshold = rot_next_threshold event,
                 ks_backer_threshold = backer_threshold, ks_backers = backers,
                 ks_config = rot_config event, ks_last_event_digest = rot_said event,
                 ks_delegated = ks_delegated ks, ks_delegator = ks_delegator ks\<rparr>)))"

definition as_rotation :: "delegated_rotation_event \<Rightarrow> rotation_event" where
  "as_rotation event =
     \<lparr>rot_version = drt_version event, rot_ilk = drt_ilk event, rot_said = drt_said event,
      rot_prefix = drt_prefix event, rot_sn = drt_sn event, rot_prior_said = drt_prior_said event,
      rot_keys_threshold = drt_keys_threshold event, rot_keys = drt_keys event,
      rot_next_threshold = drt_next_threshold event, rot_next_keys = drt_next_keys event,
      rot_backer_threshold = drt_backer_threshold event,
      rot_backers_remove = drt_backers_remove event, rot_backers_add = drt_backers_add event,
      rot_config = drt_config event, rot_anchors = drt_anchors event\<rparr>"

definition apply_delegated_rotation ::
  "prims \<Rightarrow> key_state \<Rightarrow> delegated_rotation_event \<Rightarrow> key_state core_result" where
  "apply_delegated_rotation pr ks event =
     (if \<not> ks_delegated ks then
        Inl (Validation ''delegated rotation applied to an identifier that was not delegated'')
      else
        (case ks_delegator ks of
           Some known \<Rightarrow>
             if known = drt_delegator event then apply_rotation pr ks (as_rotation event)
             else Inl (Validation ''delegated rotation names another delegator'')
         | None \<Rightarrow> Inl (Validation ''delegated identifier has no recorded delegator'')))"

definition apply_interaction :: "key_state \<Rightarrow> interaction_event \<Rightarrow> key_state core_result" where
  "apply_interaction ks event =
     bindR (parse_sn (ixn_sn event)) (\<lambda>sn.
     if sn \<noteq> ks_sn ks + 1 then Inl (OutOfOrder (ks_sn ks + 1) sn)
     else if ixn_prefix event \<noteq> ks_prefix ks then Inl (InvalidPrefix (ixn_prefix event))
     else if ixn_prior_said event \<noteq> ks_last_event_digest ks then Inl (Validation ''prior SAID mismatch'')
     else Inr (ks\<lparr>ks_sn := sn, ks_last_event_digest := ixn_said event\<rparr>))"


subsection \<open>Key commitments\<close>

text \<open>A key is committed to by a digest of its qb64 text.\<close>

definition committed :: "prims \<Rightarrow> string \<Rightarrow> string \<Rightarrow> bool" where
  "committed pr key d \<longleftrightarrow>
     is_ok (verfer_from_qb64 pr key) \<and>
     (\<exists>dg. diger_from_qb64 pr d = Inr dg \<and> diger_verify pr dg key = Inr True)"

lemma check_commitments_iff:
  "check_commitments pr ps = Inr () \<longleftrightarrow> list_all (\<lambda>(k, d). committed pr k d) ps"
proof (induction pr ps rule: check_commitments.induct)
  case (2 pr key d rest)
  then show ?case
    by (cases "verfer_from_qb64 pr key"; cases "diger_from_qb64 pr d";
        cases "diger_verify pr (projr (diger_from_qb64 pr d)) key")
       (auto simp: committed_def)
qed simp

lemma verify_next_key_commitment_iff:
  "verify_next_key_commitment pr keys next_keys = Inr () \<longleftrightarrow>
     list_all2 (committed pr) keys next_keys"
  by (auto simp: verify_next_key_commitment_def check_commitments_iff list_all2_iff list_all_iff)

text \<open>
  A digest of a key is a commitment to it: what a controller publishes as its next keys
  is what the rotation check accepts, and without a second preimage nothing else.
\<close>

lemma committed_digest:
  assumes laws: "matter_laws pr" and key: "is_ok (verfer_from_qb64 pr key)"
    and d: "digest_qb64 pr code key = Inr d"
  shows "committed pr key d"
proof -
  from d obtain dg where dg: "diger_from_data pr code key = Inr dg" "matter_qb64 pr (dg_matter dg) = Inr d"
    by (auto simp: digest_qb64_def diger_qb64_def res_simps)
  then obtain raw where raw: "compute_digest pr code key = Inr raw"
    and m: "matter_new pr code raw = Inr (dg_matter dg)"
    by (auto simp: diger_from_data_def res_simps)
  then have code: "code \<in> set diger_codes" using compute_digest_ok_iff [of pr code key] by simp
  from laws m obtain q where q: "matter_qb64 pr (dg_matter dg) = Inr q" "matter_from_qb64 pr q = Inr (dg_matter dg)"
    by (rule matter_laws_qb64)
  have "diger_from_qb64 pr d = Inr dg"
    using q dg(2) code matter_lawsD [OF laws m] by (simp add: diger_from_qb64_Inr)
  moreover have "diger_verify pr dg key = Inr True"
    using raw matter_lawsD [OF laws m] by (simp add: diger_verify_def)
  ultimately show ?thesis using key unfolding committed_def by blast
qed

lemma committed_same_digest:
  "committed pr key d \<Longrightarrow> committed pr key' d \<Longrightarrow>
     \<exists>code. code \<in> set diger_codes \<and> compute_digest pr code key = compute_digest pr code key'"
  by (auto simp: committed_def diger_verify_def res_simps diger_from_qb64_Inr)


text \<open>Two key lists that meet the same commitments have the same digests.\<close>

lemma committed_lists_agree:
  assumes "list_all2 (committed pr) keys ds" "list_all2 (committed pr) keys' ds"
  shows "list_all2 (\<lambda>k k'. \<exists>code \<in> set diger_codes. compute_digest pr code k = compute_digest pr code k') keys keys'"
  using assms committed_same_digest unfolding list_all2_conv_all_nth by metis


subsection \<open>Witness lists\<close>

text \<open>The list by the library: what is kept, then the first occurrence of each add that is not among it.\<close>

lemma push_new_eq: "push_new acc bs = acc @ filter (\<lambda>b. b \<notin> set acc) (rev (remdups (rev bs)))"
proof (induction acc bs rule: push_new.induct)
  case (2 acc b bs)
  have "rev (remdups (rev (b # bs))) = b # filter (\<lambda>x. x \<noteq> b) (rev (remdups (rev bs)))"
    by (induction bs rule: rev_induct) auto
  with 2 show ?case by (auto intro: filter_cong)
qed simp

lemma new_backers_eq:
  "new_backers backers remove add =
     filter (\<lambda>b. b \<notin> set remove) backers @
     filter (\<lambda>b. b \<notin> set (filter (\<lambda>b. b \<notin> set remove) backers)) (rev (remdups (rev add)))"
  by (simp add: new_backers_def push_new_eq)

lemma set_push_new: "set (push_new acc bs) = set acc \<union> set bs"
  by (induction acc bs rule: push_new.induct) auto

lemma distinct_push_new: "distinct acc \<Longrightarrow> distinct (push_new acc bs)"
  by (induction acc bs rule: push_new.induct) auto

lemma set_new_backers: "set (new_backers backers remove add) = (set backers - set remove) \<union> set add"
  by (auto simp: new_backers_def set_push_new)

lemma distinct_new_backers: "distinct backers \<Longrightarrow> distinct (new_backers backers remove add)"
  by (simp add: new_backers_def distinct_push_new)


subsection \<open>What a step does\<close>

lemma parse_sn_Inr [res_simps]: "parse_sn s = Inr n \<longleftrightarrow> u64_from_hex s = Some n"
  by (simp add: parse_sn_def)

lemma parse_backer_threshold_Inr [res_simps]:
  "parse_backer_threshold s = Inr n \<longleftrightarrow> usize_from_dec s = Some n"
  by (simp add: parse_backer_threshold_def)

lemma apply_rotation_Inr:
  "apply_rotation pr ks e = Inr ks' \<longleftrightarrow>
     u64_from_hex (rot_sn e) = Some (ks_sn ks + 1) \<and> rot_prefix e = ks_prefix ks \<and>
     rot_prior_said e = ks_last_event_digest ks \<and>
     list_all2 (committed pr) (rot_keys e) (ks_next_keys ks) \<and>
     (\<exists>bt. usize_from_dec (rot_backer_threshold e) = Some bt \<and>
        bt \<le> length (new_backers (ks_backers ks) (rot_backers_remove e) (rot_backers_add e)) \<and>
        ks' = \<lparr>ks_prefix = ks_prefix ks, ks_sn = ks_sn ks + 1, ks_said = rot_said e,
               ks_threshold = rot_keys_threshold e, ks_keys = rot_keys e,
               ks_next_keys = rot_next_keys e, ks_next_threshold = rot_next_threshold e,
               ks_backer_threshold = bt,
               ks_backers = new_backers (ks_backers ks) (rot_backers_remove e) (rot_backers_add e),
               ks_config = rot_config e, ks_last_event_digest = rot_said e,
               ks_delegated = ks_delegated ks, ks_delegator = ks_delegator ks\<rparr>)"
  unfolding verify_next_key_commitment_iff [symmetric]
  by (auto simp: apply_rotation_def res_simps Let_def not_less)

lemma apply_rotation_exact:
  "apply_rotation pr ks e = Inr ks' \<longleftrightarrow>
     u64_from_hex (rot_sn e) = Some (ks_sn ks + 1) \<and> rot_prefix e = ks_prefix ks \<and>
     rot_prior_said e = ks_last_event_digest ks \<and>
     list_all2 (committed pr) (rot_keys e) (ks_next_keys ks) \<and>
     (\<exists>bt kept. usize_from_dec (rot_backer_threshold e) = Some bt \<and> bt \<le> length (ks_backers ks') \<and>
        kept = filter (\<lambda>b. b \<notin> set (rot_backers_remove e)) (ks_backers ks) \<and>
        ks' = \<lparr>ks_prefix = ks_prefix ks, ks_sn = ks_sn ks + 1, ks_said = rot_said e,
               ks_threshold = rot_keys_threshold e, ks_keys = rot_keys e,
               ks_next_keys = rot_next_keys e, ks_next_threshold = rot_next_threshold e,
               ks_backer_threshold = bt,
               ks_backers = kept @ filter (\<lambda>b. b \<notin> set kept) (rev (remdups (rev (rot_backers_add e)))),
               ks_config = rot_config e, ks_last_event_digest = rot_said e,
               ks_delegated = ks_delegated ks, ks_delegator = ks_delegator ks\<rparr>)"
  unfolding apply_rotation_Inr new_backers_eq by auto

lemma rotations_agree:
  assumes "apply_rotation pr ks e = Inr ks1" "apply_rotation pr ks e2 = Inr ks2"
  shows "list_all2 (\<lambda>k k2. \<exists>code \<in> set diger_codes. compute_digest pr code k = compute_digest pr code k2) (ks_keys ks1) (ks_keys ks2)"
  using assms by (auto simp: apply_rotation_Inr intro: committed_lists_agree)

lemma apply_interaction_Inr:
  "apply_interaction ks e = Inr ks' \<longleftrightarrow>
     u64_from_hex (ixn_sn e) = Some (ks_sn ks + 1) \<and> ixn_prefix e = ks_prefix ks \<and>
     ixn_prior_said e = ks_last_event_digest ks \<and>
     ks' = ks\<lparr>ks_sn := ks_sn ks + 1, ks_last_event_digest := ixn_said e\<rparr>"
  by (auto simp: apply_interaction_def res_simps)

lemma apply_delegated_rotation_Inr:
  "apply_delegated_rotation pr ks e = Inr ks' \<longleftrightarrow>
     ks_delegated ks \<and> ks_delegator ks = Some (drt_delegator e) \<and>
     apply_rotation pr ks (as_rotation e) = Inr ks'"
  by (auto simp: apply_delegated_rotation_def split: option.splits)

text \<open>The invariant of a key state.\<close>

definition ks_inv :: "key_state \<Rightarrow> bool" where
  "ks_inv ks \<longleftrightarrow>
     ks_backer_threshold ks \<le> length (ks_backers ks) \<and>
     ks_delegated ks = (ks_delegator ks \<noteq> None) \<and> ks_delegator ks \<noteq> Some []"

lemma from_inception_inv: "from_inception e = Inr ks \<Longrightarrow> ks_inv ks"
  by (auto simp: from_inception_def res_simps ks_inv_def)

lemma from_delegated_inception_inv: "from_delegated_inception e = Inr ks \<Longrightarrow> ks_inv ks"
  by (auto simp: from_delegated_inception_def res_simps ks_inv_def)

lemma apply_rotation_inv: "apply_rotation pr ks e = Inr ks' \<Longrightarrow> ks_inv ks \<Longrightarrow> ks_inv ks'"
  by (auto simp: apply_rotation_Inr ks_inv_def)

lemma apply_delegated_rotation_inv:
  "apply_delegated_rotation pr ks e = Inr ks' \<Longrightarrow> ks_inv ks \<Longrightarrow> ks_inv ks'"
  by (auto simp: apply_delegated_rotation_Inr apply_rotation_inv)

lemma apply_interaction_inv: "apply_interaction ks e = Inr ks' \<Longrightarrow> ks_inv ks \<Longrightarrow> ks_inv ks'"
  by (auto simp: apply_interaction_Inr ks_inv_def)

text \<open>
  The next threshold that an establishment event commits to plays no part in the
  rotation that follows it.
\<close>

lemma apply_rotation_ignores_next_threshold:
  "apply_rotation pr (ks\<lparr>ks_next_threshold := t\<rparr>) e = apply_rotation pr ks e"
  by (simp add: apply_rotation_def Let_def cong: if_cong)

end
