(* ===== verification/Keri_Delegation.thy ===== *)
theory Keri_Delegation
  imports Keri_Prims Keri_Tags
begin

section \<open>Delegation\<close>

text \<open>
  \<open>affinidi-keri-core/src/delegation.rs\<close>. The trait \<open>DelegatorAnchors\<close> has one method and
  no implementation in the library: it is a function argument of type \<open>anchors_source\<close>.
  \<open>verify_delegation\<close> is the three-step check of the module's comment.
\<close>

record delegation_proof =
  dp_sn :: u64
  dp_said :: string

type_synonym anchors_source = "string \<Rightarrow> u64 \<Rightarrow> string \<Rightarrow> json list option core_result"

text \<open>\<open>u64::from_be_bytes\<close> of the low bytes, left-padded with zeros.\<close>

definition be_value :: "bytes \<Rightarrow> nat" where
  "be_value bs = fold (\<lambda>c acc. acc * 256 + byte c) bs 0"

definition from_seal_source_couple :: "prims \<Rightarrow> string \<Rightarrow> string \<Rightarrow> delegation_proof core_result" where
  "from_seal_source_couple pr sn_qb64 said_qb64 =
     bindR (map_err (\<lambda>_. ParseError ''invalid seal source sequence number'') (matter_from_qb64 pr sn_qb64)) (\<lambda>m.
     let raw = mat_raw m;
         high = take (length raw - 8) raw;
         low = drop (length raw - 8) raw
     in if list_ex (\<lambda>b. byte b \<noteq> 0) high then
          Inl (ParseError ''seal source sequence number exceeds u64'')
        else
          bindR (map_err (\<lambda>_. ParseError ''invalid seal source SAID'') (matter_from_qb64 pr said_qb64)) (\<lambda>_.
          Inr \<lparr>dp_sn = of_nat (be_value low), dp_said = said_qb64\<rparr>))"

definition seal_names :: "string \<Rightarrow> u64 \<Rightarrow> string \<Rightarrow> json \<Rightarrow> bool" where
  "seal_names delegatee sn said anchor =
     (case seal_event_from_value anchor of
        Some seal \<Rightarrow> se_prefix seal = delegatee \<and> se_digest seal = said \<and> se_sn seal = u64_hex sn
      | None \<Rightarrow> False)"

definition verify_delegation ::
  "string \<Rightarrow> u64 \<Rightarrow> string \<Rightarrow> string \<Rightarrow> delegation_proof \<Rightarrow> anchors_source \<Rightarrow> unit core_result" where
  "verify_delegation delegatee sn said delegator proof' anchors_at =
     (if delegator = [] then Inl (Validation ''delegated event names no delegator'')
      else if delegator = delegatee then
        Inl (Validation ''delegated event names itself as its own delegator'')
      else
        bindR (anchors_at delegator (dp_sn proof') (dp_said proof')) (\<lambda>found.
        case found of
          None \<Rightarrow> Inl (Validation ''delegator has no verified event to anchor the delegation'')
        | Some anchors \<Rightarrow>
            if \<not> list_ex (seal_names delegatee sn said) anchors then
              Inl (Validation ''delegator event anchors no seal for the delegated event'')
            else Inr ()))"


subsection \<open>Lemmas\<close>

lemma be_value_append: "be_value (xs @ [c]) = be_value xs * 256 + byte c"
  by (simp add: be_value_def)

lemma byte_less [simp]: "byte c < 256"
  by (simp add: byte_def)

lemma be_value_less: "be_value bs < 256 ^ length bs"
proof (induction bs rule: rev_induct)
  case (snoc c bs)
  then have "be_value bs * 256 + byte c < (be_value bs + 1) * 256" using byte_less [of c] by simp
  also have "\<dots> \<le> 256 ^ length bs * 256" using snoc by (intro mult_le_mono1) simp
  finally show ?case by (simp add: be_value_append)
qed (simp add: be_value_def)

lemma be_value_zeros: "list_all (\<lambda>b. byte b = 0) zs \<Longrightarrow> be_value (zs @ bs) = be_value bs"
proof -
  assume z: "list_all (\<lambda>b. byte b = 0) zs"
  have "fold (\<lambda>c acc. acc * 256 + byte c) zs 0 = 0" using z by (induction zs) auto
  then show ?thesis by (simp add: be_value_def)
qed

text \<open>The sequence number of a proof is the number its primitive denotes, never a truncation.\<close>

lemma from_seal_source_couple_sn:
  assumes ok: "from_seal_source_couple pr sn_qb64 said_qb64 = Inr p"
  shows "\<exists>m. matter_from_qb64 pr sn_qb64 = Inr m \<and> unat (dp_sn p) = be_value (mat_raw m)"
proof -
  from ok obtain m where m: "matter_from_qb64 pr sn_qb64 = Inr m"
    and high: "\<not> list_ex (\<lambda>b. byte b \<noteq> 0) (take (length (mat_raw m) - 8) (mat_raw m))"
    and sn: "dp_sn p = of_nat (be_value (drop (length (mat_raw m) - 8) (mat_raw m)))"
    by (auto simp: from_seal_source_couple_def res_simps Let_def)
  let ?low = "drop (length (mat_raw m) - 8) (mat_raw m)"
  have "be_value ?low < 256 ^ 8"
  proof -
    have "length ?low \<le> 8" by simp
    then have "(256 :: nat) ^ length ?low \<le> 256 ^ 8" by (rule power_increasing) simp
    with be_value_less [of ?low] show ?thesis by (rule less_le_trans)
  qed
  then have "unat (dp_sn p) = be_value ?low" unfolding sn by (simp add: unat_of_nat)
  moreover have "be_value (mat_raw m) = be_value ?low"
    using high be_value_zeros [of "take (length (mat_raw m) - 8) (mat_raw m)" ?low]
    by (simp add: list_ex_iff list_all_iff)
  ultimately show ?thesis using m by auto
qed

lemma seal_names_iff:
  "seal_names delegatee sn said anchor \<longleftrightarrow>
     seal_event_from_value anchor = Some \<lparr>se_prefix = delegatee, se_sn = u64_hex sn, se_digest = said\<rparr>"
  by (auto simp: seal_names_def split: option.splits)

lemma verify_delegation_iff:
  "verify_delegation delegatee sn said delegator prf anchors_at = Inr () \<longleftrightarrow>
     delegator \<noteq> [] \<and> delegator \<noteq> delegatee \<and>
     (\<exists>anchors. anchors_at delegator (dp_sn prf) (dp_said prf) = Inr (Some anchors) \<and>
        (\<exists>a \<in> set anchors. seal_names delegatee sn said a))"
  by (auto simp: verify_delegation_def res_simps list_ex_iff split: option.splits)

end
