(* ===== verification/Keri_Kever.thy ===== *)
theory Keri_Kever
  imports Keri_Serder Keri_Key_State Keri_Delegation
begin

section \<open>Kever: the key event verifier\<close>

text \<open>
  \<open>affinidi-keri-core/src/kever.rs\<close>. A \<open>Kever\<close> is the record \<open>kever\<close>; a method that
  takes \<open>&mut self\<close> returns the new one, and assigns it only where it succeeds, so an
  error leaves the old one in force. The second half proves what a verifier's log
  guarantees, over the step relation \<open>kel_step\<close> that joins plain and delegated updates.
\<close>

record kever =
  kv_state :: key_state
  kv_incepted :: bool


subsection \<open>Signatures and receipts\<close>

fun satisfied_indices ::
  "prims \<Rightarrow> bytes \<Rightarrow> verfer list \<Rightarrow> nat list \<Rightarrow> siger list \<Rightarrow> nat list core_result" where
  "satisfied_indices pr message verfers acc [] = Inr acc"
| "satisfied_indices pr message verfers acc (sig # sigs) =
     (let idx = siger_index sig in
      if length verfers \<le> idx then satisfied_indices pr message verfers acc sigs
      else
        bindR (crypto (verfer_verify pr (verfers ! idx) message (siger_raw sig))) (\<lambda>valid.
        satisfied_indices pr message verfers
          (if valid \<and> idx \<notin> set acc then acc @ [idx] else acc) sigs))"

definition verify_sigs_static ::
  "prims \<Rightarrow> bytes \<Rightarrow> siger list \<Rightarrow> verfer list \<Rightarrow> threshold \<Rightarrow> unit core_result" where
  "verify_sigs_static pr message sigs verfers thr =
     bindR (satisfied_indices pr message verfers [] sigs) (\<lambda>indices.
     if \<not> is_satisfied thr indices (length verfers) then Inl ThresholdNotMet else Inr ())"

fun valid_witnesses ::
  "prims \<Rightarrow> bytes \<Rightarrow> string list \<Rightarrow> string list \<Rightarrow> (string \<times> bytes) list \<Rightarrow> string list core_result" where
  "valid_witnesses pr message backers acc [] = Inr acc"
| "valid_witnesses pr message backers acc ((prefix_qb64, sig_raw) # couples) =
     (if prefix_qb64 \<notin> set backers then valid_witnesses pr message backers acc couples
      else if prefix_qb64 \<in> set acc then valid_witnesses pr message backers acc couples
      else
        bindR (crypto (verfer_from_qb64 pr prefix_qb64)) (\<lambda>verfer'.
        bindR (crypto (verfer_verify pr verfer' message sig_raw)) (\<lambda>valid.
        valid_witnesses pr message backers (if valid then acc @ [prefix_qb64] else acc) couples)))"

definition verify_witness_receipts_static ::
  "prims \<Rightarrow> bytes \<Rightarrow> (string \<times> bytes) list \<Rightarrow> string list \<Rightarrow> nat \<Rightarrow> unit core_result" where
  "verify_witness_receipts_static pr message receipt_couples backers backer_threshold =
     (if backer_threshold = 0 then Inr ()
      else
        bindR (valid_witnesses pr message backers [] receipt_couples) (\<lambda>valid_prefixes.
        if length valid_prefixes < backer_threshold then
          Inl (Validation ''witness receipt threshold not met'')
        else Inr ()))"


subsection \<open>Keys\<close>

definition verfers_from_keys :: "prims \<Rightarrow> string list \<Rightarrow> verfer list core_result" where
  "verfers_from_keys pr keys = mapR (\<lambda>k. crypto (verfer_from_qb64 pr k)) keys"

definition build_verfers :: "prims \<Rightarrow> kever \<Rightarrow> verfer list core_result" where
  "build_verfers pr kv = mapR (\<lambda>k. crypto (verfer_from_qb64 pr k)) (ks_keys (kv_state kv))"

definition reject_plain_rotation_when_delegated :: "kever \<Rightarrow> unit core_result" where
  "reject_plain_rotation_when_delegated kv =
     (if ks_delegated (kv_state kv) then
        Inl (UnexpectedIlk ''identifier is delegated and must rotate with drt, not rot'')
      else Inr ())"

fun keys_match :: "prims \<Rightarrow> (string \<times> verfer) list \<Rightarrow> unit core_result" where
  "keys_match pr [] = Inr ()"
| "keys_match pr ((key_qb64, vf) # rest) =
     bindR (crypto (verfer_qb64 pr vf)) (\<lambda>vf_qb64.
     if key_qb64 \<noteq> vf_qb64 then Inl (Validation ''key mismatch'') else keys_match pr rest)"

definition check_keys :: "prims \<Rightarrow> string list \<Rightarrow> verfer list \<Rightarrow> unit core_result" where
  "check_keys pr keys verfers =
     (if length keys \<noteq> length verfers then Inl (Validation ''key count mismatch'')
      else keys_match pr (zip keys verfers))"

definition validate_prefix_derivation :: "prims \<Rightarrow> inception_event \<Rightarrow> unit core_result" where
  "validate_prefix_derivation pr icp =
     (if is_ok (diger_from_qb64 pr (icp_prefix icp)) then
        (if icp_prefix icp \<noteq> icp_said icp then
           Inl (InvalidPrefix ''self-addressing prefix does not match event SAID (i != d)'')
         else Inr ())
      else if is_ok (verfer_from_qb64 pr (icp_prefix icp)) then
        (if icp_keys icp = [] \<or> icp_prefix icp \<noteq> icp_keys icp ! 0 then
           Inl (InvalidPrefix ''basic prefix does not match first public key'')
         else Inr ())
      else Inl (InvalidPrefix ''prefix is neither a valid digest code nor a valid key code''))"


subsection \<open>Inception\<close>

definition kever_new :: "prims \<Rightarrow> serder \<Rightarrow> siger list \<Rightarrow> verfer list \<Rightarrow> kever core_result" where
  "kever_new pr serder' sigs verfers =
     bindR (serder_ilk serder') (\<lambda>ilk.
     if ilk = ''dip'' then Inl (UnexpectedIlk ''dip is a delegated inception; use Kever::new_delegated'')
     else if ilk \<noteq> ''icp'' then Inl (UnexpectedIlk ilk)
     else
       bindR (serder_verify_said pr serder' ''E'') (\<lambda>_.
       bindR (ok_or (Json ''InceptionEvent'') (icp_from_value (serder_sad serder'))) (\<lambda>icp.
       bindR (check_keys pr (icp_keys icp) verfers) (\<lambda>_.
       bindR (verify_sigs_static pr (serder_raw serder') sigs verfers (icp_keys_threshold icp)) (\<lambda>_.
       bindR (validate_prefix_derivation pr icp) (\<lambda>_.
       bindR (from_inception icp) (\<lambda>state.
       Inr \<lparr>kv_state = state, kv_incepted = True\<rparr>)))))))"

definition kever_new_delegated ::
  "prims \<Rightarrow> serder \<Rightarrow> siger list \<Rightarrow> verfer list \<Rightarrow> delegation_proof \<Rightarrow> anchors_source \<Rightarrow> kever core_result" where
  "kever_new_delegated pr serder' sigs verfers prf source =
     bindR (serder_ilk serder') (\<lambda>ilk.
     if ilk \<noteq> ''dip'' then Inl (UnexpectedIlk ilk)
     else
       bindR (serder_verify_said pr serder' ''E'') (\<lambda>_.
       bindR (ok_or (Json ''DelegatedInceptionEvent'') (dip_from_value (serder_sad serder'))) (\<lambda>dip.
       bindR (check_keys pr (dip_keys dip) verfers) (\<lambda>_.
       bindR (verify_sigs_static pr (serder_raw serder') sigs verfers (dip_keys_threshold dip)) (\<lambda>_.
       if dip_prefix dip \<noteq> dip_said dip then
         Inl (InvalidPrefix ''delegated inception prefix does not match event SAID (i != d)'')
       else
         bindR (verify_delegation (dip_prefix dip) 0 (dip_said dip) (dip_delegator dip) prf source) (\<lambda>_.
         bindR (from_delegated_inception dip) (\<lambda>state.
         Inr \<lparr>kv_state = state, kv_incepted = True\<rparr>)))))))"

definition kever_new_from_parts ::
  "prims \<Rightarrow> bytes \<Rightarrow> json \<Rightarrow> siger list \<Rightarrow> verfer list \<Rightarrow> kever core_result" where
  "kever_new_from_parts pr raw sad sigs verfers =
     bindR (ok_or (MissingField ''t'') (get_str sad ''t'')) (\<lambda>ilk.
     if ilk \<noteq> ''icp'' then Inl (UnexpectedIlk ilk)
     else
       bindR (verify_said pr sad ''d'' ''E'' JsonKind) (\<lambda>_.
       bindR (ok_or (Json ''InceptionEvent'') (icp_from_value sad)) (\<lambda>icp.
       bindR (check_keys pr (icp_keys icp) verfers) (\<lambda>_.
       bindR (verify_sigs_static pr raw sigs verfers (icp_keys_threshold icp)) (\<lambda>_.
       bindR (validate_prefix_derivation pr icp) (\<lambda>_.
       bindR (from_inception icp) (\<lambda>state.
       Inr \<lparr>kv_state = state, kv_incepted = True\<rparr>)))))))"


subsection \<open>Updates\<close>

definition verify_update :: "prims \<Rightarrow> kever \<Rightarrow> serder \<Rightarrow> siger list \<Rightarrow> key_state core_result" where
  "verify_update pr kv serder' sigs =
     (if \<not> kv_incepted kv then Inl (Validation ''kever not initialized with inception event'')
      else
        bindR (serder_verify_said pr serder' ''E'') (\<lambda>_.
        bindR (serder_ilk serder') (\<lambda>ilk.
        bindR (serder_sn serder') (\<lambda>sn.
        if sn \<noteq> ks_sn (kv_state kv) + 1 then Inl (OutOfOrder (ks_sn (kv_state kv) + 1) sn)
        else if ilk = ''rot'' then
          bindR (reject_plain_rotation_when_delegated kv) (\<lambda>_.
          bindR (ok_or (Json ''RotationEvent'') (rot_from_value (serder_sad serder'))) (\<lambda>rot.
          bindR (verfers_from_keys pr (rot_keys rot)) (\<lambda>verfers.
          bindR (verify_sigs_static pr (serder_raw serder') sigs verfers (rot_keys_threshold rot)) (\<lambda>_.
          apply_rotation pr (kv_state kv) rot))))
        else if ilk = ''ixn'' then
          bindR (build_verfers pr kv) (\<lambda>verfers.
          bindR (verify_sigs_static pr (serder_raw serder') sigs verfers (ks_threshold (kv_state kv))) (\<lambda>_.
          bindR (ok_or (Json ''InteractionEvent'') (ixn_from_value (serder_sad serder'))) (\<lambda>ixn.
          apply_interaction (kv_state kv) ixn)))
        else if ilk = ''drt'' then
          Inl (UnexpectedIlk ''drt is a delegated rotation; use Kever::verify_update_delegated'')
        else Inl (UnexpectedIlk ilk)))))"

definition kever_update :: "prims \<Rightarrow> kever \<Rightarrow> serder \<Rightarrow> siger list \<Rightarrow> kever core_result" where
  "kever_update pr kv serder' sigs =
     (if \<not> kv_incepted kv then Inl (Validation ''kever not initialized with inception event'')
      else
        bindR (serder_verify_said pr serder' ''E'') (\<lambda>_.
        bindR (serder_ilk serder') (\<lambda>ilk.
        bindR (serder_sn serder') (\<lambda>sn.
        if sn \<noteq> ks_sn (kv_state kv) + 1 then Inl (OutOfOrder (ks_sn (kv_state kv) + 1) sn)
        else if ilk = ''rot'' then
          bindR (reject_plain_rotation_when_delegated kv) (\<lambda>_.
          bindR (ok_or (Json ''RotationEvent'') (rot_from_value (serder_sad serder'))) (\<lambda>rot.
          bindR (verfers_from_keys pr (rot_keys rot)) (\<lambda>verfers.
          bindR (verify_sigs_static pr (serder_raw serder') sigs verfers (rot_keys_threshold rot)) (\<lambda>_.
          bindR (apply_rotation pr (kv_state kv) rot) (\<lambda>state.
          Inr (kv\<lparr>kv_state := state\<rparr>))))))
        else if ilk = ''ixn'' then
          bindR (build_verfers pr kv) (\<lambda>verfers.
          bindR (verify_sigs_static pr (serder_raw serder') sigs verfers (ks_threshold (kv_state kv))) (\<lambda>_.
          bindR (ok_or (Json ''InteractionEvent'') (ixn_from_value (serder_sad serder'))) (\<lambda>ixn.
          bindR (apply_interaction (kv_state kv) ixn) (\<lambda>state.
          Inr (kv\<lparr>kv_state := state\<rparr>)))))
        else if ilk = ''drt'' then
          Inl (UnexpectedIlk ''drt is a delegated rotation; use Kever::verify_update_delegated'')
        else Inl (UnexpectedIlk ilk)))))"

definition verify_update_owned ::
  "prims \<Rightarrow> kever \<Rightarrow> bytes \<Rightarrow> json \<Rightarrow> siger list \<Rightarrow> key_state core_result" where
  "verify_update_owned pr kv raw sad sigs =
     (if \<not> kv_incepted kv then Inl (Validation ''kever not initialized with inception event'')
      else
        bindR (verify_said pr sad ''d'' ''E'' JsonKind) (\<lambda>_.
        bindR (ok_or (MissingField ''t'') (get_str sad ''t'')) (\<lambda>ilk.
        bindR (ok_or (MissingField ''s'') (get_str sad ''s'')) (\<lambda>sn_str.
        bindR (ok_or (Validation ''invalid sn'') (u64_from_hex sn_str)) (\<lambda>sn.
        if sn \<noteq> ks_sn (kv_state kv) + 1 then Inl (OutOfOrder (ks_sn (kv_state kv) + 1) sn)
        else if ilk = ''rot'' then
          bindR (reject_plain_rotation_when_delegated kv) (\<lambda>_.
          bindR (ok_or (Json ''RotationEvent'') (rot_from_value sad)) (\<lambda>rot.
          bindR (verfers_from_keys pr (rot_keys rot)) (\<lambda>verfers.
          bindR (verify_sigs_static pr raw sigs verfers (rot_keys_threshold rot)) (\<lambda>_.
          apply_rotation pr (kv_state kv) rot))))
        else if ilk = ''ixn'' then
          bindR (build_verfers pr kv) (\<lambda>verfers.
          bindR (verify_sigs_static pr raw sigs verfers (ks_threshold (kv_state kv))) (\<lambda>_.
          bindR (ok_or (Json ''InteractionEvent'') (ixn_from_value sad)) (\<lambda>ixn.
          apply_interaction (kv_state kv) ixn)))
        else if ilk = ''drt'' then
          Inl (UnexpectedIlk ''drt is a delegated rotation; use Kever::verify_update_delegated'')
        else Inl (UnexpectedIlk ilk))))))"

definition verify_update_delegated ::
  "prims \<Rightarrow> kever \<Rightarrow> serder \<Rightarrow> siger list \<Rightarrow> delegation_proof \<Rightarrow> anchors_source \<Rightarrow> key_state core_result" where
  "verify_update_delegated pr kv serder' sigs prf source =
     (if \<not> kv_incepted kv then Inl (Validation ''kever not initialized with inception event'')
      else
        bindR (serder_verify_said pr serder' ''E'') (\<lambda>_.
        bindR (serder_ilk serder') (\<lambda>ilk.
        if ilk \<noteq> ''drt'' then Inl (UnexpectedIlk ilk)
        else
          bindR (serder_sn serder') (\<lambda>sn.
          if sn \<noteq> ks_sn (kv_state kv) + 1 then Inl (OutOfOrder (ks_sn (kv_state kv) + 1) sn)
          else
            bindR (ok_or (Json ''DelegatedRotationEvent'') (drt_from_value (serder_sad serder'))) (\<lambda>drt.
            bindR (verfers_from_keys pr (drt_keys drt)) (\<lambda>verfers.
            bindR (verify_sigs_static pr (serder_raw serder') sigs verfers (drt_keys_threshold drt)) (\<lambda>_.
            bindR (verify_delegation (drt_prefix drt) sn (drt_said drt) (drt_delegator drt) prf source) (\<lambda>_.
            apply_delegated_rotation pr (kv_state kv) drt))))))))"

definition apply_verified_update :: "kever \<Rightarrow> key_state \<Rightarrow> kever" where
  "apply_verified_update kv new_state = kv\<lparr>kv_state := new_state\<rparr>"

definition verify_sigs :: "prims \<Rightarrow> kever \<Rightarrow> bytes \<Rightarrow> siger list \<Rightarrow> bool core_result" where
  "verify_sigs pr kv message sigs =
     bindR (build_verfers pr kv) (\<lambda>verfers.
     bindR (verify_sigs_static pr message sigs verfers (ks_threshold (kv_state kv))) (\<lambda>_. Inr True))"

definition verify_witness_receipts ::
  "prims \<Rightarrow> kever \<Rightarrow> bytes \<Rightarrow> (string \<times> bytes) list \<Rightarrow> unit core_result" where
  "verify_witness_receipts pr kv message receipt_couples =
     verify_witness_receipts_static pr message receipt_couples
       (ks_backers (kv_state kv)) (ks_backer_threshold (kv_state kv))"

definition kever_prefix :: "kever \<Rightarrow> string" where
  "kever_prefix kv = ks_prefix (kv_state kv)"

definition kever_sn :: "kever \<Rightarrow> u64" where
  "kever_sn kv = ks_sn (kv_state kv)"


subsection \<open>What the signature check accepts\<close>

text \<open>The keys that some supplied signature verifies under, by the index it names.\<close>

definition signers :: "prims \<Rightarrow> bytes \<Rightarrow> verfer list \<Rightarrow> siger list \<Rightarrow> nat set" where
  "signers pr message verfers sigs =
     {i. i < length verfers \<and>
         (\<exists>sig \<in> set sigs. siger_index sig = i \<and>
            verfer_verify pr (verfers ! i) message (siger_raw sig) = Inr True)}"

lemma satisfied_indices_Inr:
  "satisfied_indices pr message verfers acc sigs = Inr idxs \<Longrightarrow> distinct acc \<Longrightarrow>
     distinct idxs \<and> set idxs = set acc \<union> signers pr message verfers sigs"
proof (induction pr message verfers acc sigs rule: satisfied_indices.induct)
  case (1 pr message verfers acc)
  then show ?case by (auto simp: signers_def)
next
  case (2 pr message verfers acc sig sigs)
  let ?i = "siger_index sig"
  show ?case
  proof (cases "length verfers \<le> ?i")
    case True
    then have "signers pr message verfers (sig # sigs) = signers pr message verfers sigs"
      by (auto simp: signers_def)
    with 2 True show ?thesis by simp
  next
    case False
    with "2.prems" obtain valid where v: "verfer_verify pr (verfers ! ?i) message (siger_raw sig) = Inr valid"
      and rest: "satisfied_indices pr message verfers
          (if valid \<and> ?i \<notin> set acc then acc @ [?i] else acc) sigs = Inr idxs"
      by (auto simp: res_simps Let_def)
    have "signers pr message verfers (sig # sigs) =
        (if valid then {?i} else {}) \<union> signers pr message verfers sigs"
      using False v by (auto simp: signers_def)
    moreover have "distinct idxs \<and> set idxs =
        set (if valid \<and> ?i \<notin> set acc then acc @ [?i] else acc) \<union> signers pr message verfers sigs"
      using False "2.prems" v rest by (intro "2.IH"(2)) auto
    ultimately show ?thesis by auto
  qed
qed

text \<open>Satisfaction looks at which indices there are and how many, not at their order.\<close>

lemma clause_sum_set:
  "set xs = set ys \<Longrightarrow> clause_sum xs k i n d ws = clause_sum ys k i n d ws"
  by (induction ws arbitrary: i n d) (auto split: option.splits)

lemma clauses_satisfied_set:
  "set xs = set ys \<Longrightarrow> clauses_satisfied xs k i cs \<longleftrightarrow> clauses_satisfied ys k i cs"
proof (induction cs arbitrary: i)
  case (Cons c cs)
  then show ?case
    using clause_sum_set [of xs ys k i 0 1 c] by (simp split: option.splits)
qed simp

lemma is_satisfied_set:
  "set xs = set ys \<Longrightarrow> distinct xs \<Longrightarrow> distinct ys \<Longrightarrow> is_satisfied t xs k \<longleftrightarrow> is_satisfied t ys k"
  using distinct_card [of xs] distinct_card [of ys]
  by (cases t) (auto simp: clauses_satisfied_set [of xs ys])

definition quorum :: "prims \<Rightarrow> bytes \<Rightarrow> verfer list \<Rightarrow> siger list \<Rightarrow> threshold \<Rightarrow> bool" where
  "quorum pr message verfers sigs thr \<longleftrightarrow>
     is_satisfied thr (filter (\<lambda>i. i \<in> signers pr message verfers sigs) [0..<length verfers]) (length verfers)"

lemma signers_less: "i \<in> signers pr message verfers sigs \<Longrightarrow> i < length verfers"
  by (simp add: signers_def)

lemma verify_sigs_static_quorum:
  assumes "verify_sigs_static pr message sigs verfers thr = Inr ()"
  shows "quorum pr message verfers sigs thr"
proof -
  from assms obtain idxs where idxs: "satisfied_indices pr message verfers [] sigs = Inr idxs"
    and sat: "is_satisfied thr idxs (length verfers)"
    by (auto simp: verify_sigs_static_def res_simps)
  from satisfied_indices_Inr [OF idxs]
  have "distinct idxs" "set idxs = signers pr message verfers sigs" by simp_all
  moreover have "set (filter (\<lambda>i. i \<in> signers pr message verfers sigs) [0..<length verfers])
      = signers pr message verfers sigs"
    by (auto dest: signers_less)
  ultimately show ?thesis
    using sat is_satisfied_set [of idxs "filter (\<lambda>i. i \<in> signers pr message verfers sigs) [0..<length verfers]"]
    by (simp add: quorum_def)
qed

text \<open>
  The check fails otherwise, and also where a signature that names a key in range cannot
  be checked at all (its length does not fit the key's algorithm).
\<close>

definition sigs_checkable :: "prims \<Rightarrow> bytes \<Rightarrow> verfer list \<Rightarrow> siger list \<Rightarrow> bool" where
  "sigs_checkable pr message verfers sigs \<longleftrightarrow>
     (\<forall>sig \<in> set sigs. siger_index sig < length verfers \<longrightarrow>
        is_ok (verfer_verify pr (verfers ! siger_index sig) message (siger_raw sig)))"

lemma satisfied_indices_ok:
  "is_ok (satisfied_indices pr message verfers acc sigs) \<longleftrightarrow> sigs_checkable pr message verfers sigs"
proof (induction pr message verfers acc sigs rule: satisfied_indices.induct)
  case (2 pr message verfers acc sig sigs)
  then show ?case
    by (cases "length verfers \<le> siger_index sig";
        cases "verfer_verify pr (verfers ! siger_index sig) message (siger_raw sig)")
       (auto simp: sigs_checkable_def Let_def)
qed (simp add: sigs_checkable_def)

lemma verify_sigs_static_iff:
  "verify_sigs_static pr message sigs verfers thr = Inr () \<longleftrightarrow>
     sigs_checkable pr message verfers sigs \<and> quorum pr message verfers sigs thr"
proof
  assume v: "verify_sigs_static pr message sigs verfers thr = Inr ()"
  then have "is_ok (satisfied_indices pr message verfers [] sigs)"
    by (auto simp: verify_sigs_static_def res_simps is_ok_iff)
  with v show "sigs_checkable pr message verfers sigs \<and> quorum pr message verfers sigs thr"
    by (simp add: satisfied_indices_ok verify_sigs_static_quorum)
next
  assume a: "sigs_checkable pr message verfers sigs \<and> quorum pr message verfers sigs thr"
  then obtain idxs where idxs: "satisfied_indices pr message verfers [] sigs = Inr idxs"
    using satisfied_indices_ok [of pr message verfers "[]" sigs] by (auto simp: is_ok_iff)
  from satisfied_indices_Inr [OF idxs]
  have "distinct idxs" "set idxs = signers pr message verfers sigs" by simp_all
  moreover have "set (filter (\<lambda>i. i \<in> signers pr message verfers sigs) [0..<length verfers])
      = signers pr message verfers sigs"
    by (auto dest: signers_less)
  ultimately have "is_satisfied thr idxs (length verfers)"
    using a is_satisfied_set [of idxs "filter (\<lambda>i. i \<in> signers pr message verfers sigs) [0..<length verfers]"]
    by (simp add: quorum_def)
  with idxs show "verify_sigs_static pr message sigs verfers thr = Inr ()"
    by (simp add: verify_sigs_static_def)
qed


subsection \<open>What the receipt check accepts\<close>

text \<open>The backers that vouch for a message with a signature that verifies under their prefix.\<close>

definition vouching :: "prims \<Rightarrow> bytes \<Rightarrow> string list \<Rightarrow> (string \<times> bytes) list \<Rightarrow> string set" where
  "vouching pr message backers couples =
     {w \<in> set backers. \<exists>vf sig. (w, sig) \<in> set couples \<and> verfer_from_qb64 pr w = Inr vf \<and>
        verfer_verify pr vf message sig = Inr True}"

lemma vouching_Cons:
  "vouching pr message backers ((w, sig) # couples) =
     (if w \<in> set backers \<and> (\<exists>vf. verfer_from_qb64 pr w = Inr vf \<and> verfer_verify pr vf message sig = Inr True)
      then {w} else {}) \<union> vouching pr message backers couples"
  by (auto simp: vouching_def)

lemma valid_witnesses_Inr:
  "valid_witnesses pr message backers acc couples = Inr ws \<Longrightarrow> distinct acc \<Longrightarrow>
     distinct ws \<and> set ws = set acc \<union> vouching pr message backers couples"
proof (induction pr message backers acc couples rule: valid_witnesses.induct)
  case (1 pr message backers acc)
  then show ?case by (auto simp: vouching_def)
next
  case (2 pr message backers acc w sig couples)
  show ?case
  proof (cases "w \<notin> set backers \<or> w \<in> set acc")
    case True
    with 2 show ?thesis by (auto simp: vouching_Cons split: if_splits)
  next
    case False
    with "2.prems" obtain vf valid where vf: "verfer_from_qb64 pr w = Inr vf"
      and v: "verfer_verify pr vf message sig = Inr valid"
      and rest: "valid_witnesses pr message backers (if valid then acc @ [w] else acc) couples = Inr ws"
      by (auto simp: bindR_eq_Inr)
    have "distinct ws \<and> set ws = set (if valid then acc @ [w] else acc) \<union> vouching pr message backers couples"
      using False "2.prems" vf v rest by (intro "2.IH"(3)) auto
    then show ?thesis using False vf v by (auto simp: vouching_Cons)
  qed
qed

lemma finite_vouching [simp]: "finite (vouching pr message backers couples)"
  by (simp add: vouching_def)

lemma verify_witness_receipts_static_sound:
  assumes "verify_witness_receipts_static pr message couples backers n = Inr ()"
  shows "n \<le> card (vouching pr message backers couples)"
proof (cases "n = 0")
  case False
  with assms obtain ws where ws: "valid_witnesses pr message backers [] couples = Inr ws" "n \<le> length ws"
    by (auto simp: verify_witness_receipts_static_def res_simps not_less)
  from valid_witnesses_Inr [OF ws(1)]
  have "distinct ws" "set ws = vouching pr message backers couples" by simp_all
  with ws(2) show ?thesis using distinct_card [of ws] by simp
qed simp

text \<open>The check succeeds where every couple of a backer can be checked.\<close>

definition couples_checkable :: "prims \<Rightarrow> bytes \<Rightarrow> string list \<Rightarrow> (string \<times> bytes) list \<Rightarrow> bool" where
  "couples_checkable pr message backers couples \<longleftrightarrow>
     (\<forall>(w, sig) \<in> set couples. w \<in> set backers \<longrightarrow>
        (\<exists>vf. verfer_from_qb64 pr w = Inr vf \<and> is_ok (verfer_verify pr vf message sig)))"

lemma valid_witnesses_ok:
  "couples_checkable pr message backers couples \<Longrightarrow> is_ok (valid_witnesses pr message backers acc couples)"
proof (induction pr message backers acc couples rule: valid_witnesses.induct)
  case (2 pr message backers acc w sig couples)
  have rest: "couples_checkable pr message backers couples"
    using "2.prems" by (simp add: couples_checkable_def)
  show ?case
  proof (cases "w \<notin> set backers \<or> w \<in> set acc")
    case True
    with 2 rest show ?thesis by auto
  next
    case False
    with "2.prems" obtain vf valid where "verfer_from_qb64 pr w = Inr vf"
      "verfer_verify pr vf message sig = Inr valid"
      by (auto simp: couples_checkable_def is_ok_iff)
    with False "2.IH"(3) [of vf valid] rest show ?thesis by simp
  qed
qed simp

lemma verify_witness_receipts_static_complete:
  assumes "couples_checkable pr message backers couples"
    and "n \<le> card (vouching pr message backers couples)"
  shows "verify_witness_receipts_static pr message couples backers n = Inr ()"
proof -
  obtain ws where ws: "valid_witnesses pr message backers [] couples = Inr ws"
    using valid_witnesses_ok [OF assms(1)] by (auto simp: is_ok_iff)
  from valid_witnesses_Inr [OF ws]
  have "distinct ws" "set ws = vouching pr message backers couples" by simp_all
  then have "length ws = card (vouching pr message backers couples)"
    using distinct_card [of ws] by simp
  with ws assms(2) show ?thesis by (simp add: verify_witness_receipts_static_def)
qed


subsection \<open>What an accepted event establishes\<close>

lemma keys_match_iff:
  "keys_match pr ps = Inr () \<longleftrightarrow> list_all (\<lambda>(k, vf). verfer_qb64 pr vf = Inr k) ps"
proof (induction pr ps rule: keys_match.induct)
  case (2 pr key vf rest)
  then show ?case by (cases "verfer_qb64 pr vf") auto
qed simp

lemma check_keys_iff:
  "check_keys pr keys verfers = Inr () \<longleftrightarrow> list_all2 (\<lambda>k vf. verfer_qb64 pr vf = Inr k) keys verfers"
  by (auto simp: check_keys_def keys_match_iff list_all2_iff list_all_iff)

lemma validate_prefix_derivation_Inr:
  "validate_prefix_derivation pr icp = Inr () \<longleftrightarrow>
     (if is_ok (diger_from_qb64 pr (icp_prefix icp)) then icp_prefix icp = icp_said icp
      else is_ok (verfer_from_qb64 pr (icp_prefix icp)) \<and> icp_keys icp \<noteq> [] \<and>
           icp_prefix icp = icp_keys icp ! 0)"
  by (auto simp: validate_prefix_derivation_def)

lemma kever_new_Inr:
  "kever_new pr s sigs verfers = Inr kv \<longleftrightarrow>
     serder_ilk s = Inr ''icp'' \<and> serder_verify_said pr s ''E'' = Inr () \<and>
     (\<exists>icp ks. icp_from_value (serder_sad s) = Some icp \<and>
        list_all2 (\<lambda>k vf. verfer_qb64 pr vf = Inr k) (icp_keys icp) verfers \<and>
        sigs_checkable pr (serder_raw s) verfers sigs \<and>
        quorum pr (serder_raw s) verfers sigs (icp_keys_threshold icp) \<and>
        validate_prefix_derivation pr icp = Inr () \<and> from_inception icp = Inr ks \<and>
        kv = \<lparr>kv_state = ks, kv_incepted = True\<rparr>)"
  unfolding verify_sigs_static_iff [symmetric] check_keys_iff [symmetric] conj_assoc [symmetric]
  by (auto simp: kever_new_def res_simps)

text \<open>Leaving out the signatures of one key leaves out that signer, and nothing else.\<close>

lemma signers_without: "signers pr m vs (filter (\<lambda>g. siger_index g \<noteq> k) sigs) = signers pr m vs sigs - {k}"
  by (auto simp: signers_def)

lemma kever_new_without:
  assumes "kever_new pr s sigs vs = Inr kv"
  shows "kever_new pr s (filter (\<lambda>g. siger_index g \<noteq> k) sigs) vs = Inr kv \<longleftrightarrow>
    is_satisfied (ks_threshold (kv_state kv)) (filter (\<lambda>i. i \<noteq> k \<and> i \<in> signers pr (serder_raw s) vs sigs) [0..<length vs]) (length vs)"
proof -
  from assms obtain icp ks where i: "icp_from_value (serder_sad s) = Some icp" "from_inception icp = Inr ks"
    "kv = \<lparr>kv_state = ks, kv_incepted = True\<rparr>" unfolding kever_new_Inr by blast
  then have thr: "ks_threshold (kv_state kv) = icp_keys_threshold icp"
    by (auto simp: from_inception_def res_simps)
  have "sigs_checkable pr (serder_raw s) vs (filter (\<lambda>g. siger_index g \<noteq> k) sigs)"
    using assms unfolding kever_new_Inr sigs_checkable_def by auto
  with assms i show ?thesis
    unfolding kever_new_Inr thr quorum_def signers_without by (auto simp: conj_commute)
qed

lemma kever_new_delegated_Inr:
  "kever_new_delegated pr s sigs verfers prf source = Inr kv \<longleftrightarrow>
     serder_ilk s = Inr ''dip'' \<and> serder_verify_said pr s ''E'' = Inr () \<and>
     (\<exists>dip ks. dip_from_value (serder_sad s) = Some dip \<and>
        list_all2 (\<lambda>k vf. verfer_qb64 pr vf = Inr k) (dip_keys dip) verfers \<and>
        verify_sigs_static pr (serder_raw s) sigs verfers (dip_keys_threshold dip) = Inr () \<and>
        dip_prefix dip = dip_said dip \<and>
        verify_delegation (dip_prefix dip) 0 (dip_said dip) (dip_delegator dip) prf source = Inr () \<and>
        from_delegated_inception dip = Inr ks \<and> kv = \<lparr>kv_state = ks, kv_incepted = True\<rparr>)"
  unfolding check_keys_iff [symmetric]
  by (auto simp: kever_new_delegated_def res_simps)

lemma verfers_from_keys_Inr:
  "verfers_from_keys pr keys = Inr vs \<longleftrightarrow> list_all2 (\<lambda>k vf. verfer_from_qb64 pr k = Inr vf) keys vs"
  by (simp add: verfers_from_keys_def mapR_eq_Inr_conv)

lemma build_verfers_Inr:
  "build_verfers pr kv = Inr vs \<longleftrightarrow>
     list_all2 (\<lambda>k vf. verfer_from_qb64 pr k = Inr vf) (ks_keys (kv_state kv)) vs"
  by (simp add: build_verfers_def mapR_eq_Inr_conv)

text \<open>The two kinds of plain update.\<close>

definition plain_rotation :: "prims \<Rightarrow> kever \<Rightarrow> serder \<Rightarrow> siger list \<Rightarrow> rotation_event \<Rightarrow> key_state \<Rightarrow> bool" where
  "plain_rotation pr kv s sigs rot ks' \<longleftrightarrow>
     \<not> ks_delegated (kv_state kv) \<and> rot_from_value (serder_sad s) = Some rot \<and>
     (\<exists>vs. list_all2 (\<lambda>k vf. verfer_from_qb64 pr k = Inr vf) (rot_keys rot) vs \<and>
        verify_sigs_static pr (serder_raw s) sigs vs (rot_keys_threshold rot) = Inr ()) \<and>
     apply_rotation pr (kv_state kv) rot = Inr ks'"

definition interaction :: "prims \<Rightarrow> kever \<Rightarrow> serder \<Rightarrow> siger list \<Rightarrow> interaction_event \<Rightarrow> key_state \<Rightarrow> bool" where
  "interaction pr kv s sigs ixn ks' \<longleftrightarrow>
     ixn_from_value (serder_sad s) = Some ixn \<and>
     (\<exists>vs. list_all2 (\<lambda>k vf. verfer_from_qb64 pr k = Inr vf) (ks_keys (kv_state kv)) vs \<and>
        verify_sigs_static pr (serder_raw s) sigs vs (ks_threshold (kv_state kv)) = Inr ()) \<and>
     apply_interaction (kv_state kv) ixn = Inr ks'"

lemma reject_plain_Inr [res_simps]:
  "reject_plain_rotation_when_delegated kv = Inr () \<longleftrightarrow> \<not> ks_delegated (kv_state kv)"
  by (simp add: reject_plain_rotation_when_delegated_def)

lemma verify_update_Inr:
  "verify_update pr kv s sigs = Inr ks' \<longleftrightarrow>
     kv_incepted kv \<and> serder_verify_said pr s ''E'' = Inr () \<and>
     serder_sn s = Inr (ks_sn (kv_state kv) + 1) \<and>
     (serder_ilk s = Inr ''rot'' \<and> (\<exists>rot. plain_rotation pr kv s sigs rot ks') \<or>
      serder_ilk s = Inr ''ixn'' \<and> (\<exists>ixn. interaction pr kv s sigs ixn ks'))"
  (is "?L \<longleftrightarrow> ?G \<and> ?R")
proof (cases "serder_ilk s")
  case (Inl e)
  then show ?thesis by (auto simp: verify_update_def bindR_eq_Inr if_Inl_eq_Inr)
next
  case (Inr ilk)
  consider (rot) "ilk = ''rot''" | (ixn) "ilk = ''ixn''" | (other) "ilk \<noteq> ''rot''" "ilk \<noteq> ''ixn''" by blast
  then show ?thesis
  proof cases
    case rot
    with Inr show ?thesis
      unfolding plain_rotation_def verfers_from_keys_Inr [symmetric]
      by (simp add: verify_update_def bindR_eq_Inr if_Inl_eq_Inr reject_plain_Inr) blast
  next
    case ixn
    with Inr show ?thesis
      unfolding interaction_def build_verfers_Inr [symmetric]
      by (simp add: verify_update_def bindR_eq_Inr if_Inl_eq_Inr) blast
  next
    case other
    with Inr show ?thesis by (auto simp: verify_update_def bindR_eq_Inr if_Inl_eq_Inr split: if_splits)
  qed
qed

lemma verify_update_delegated_Inr:
  "verify_update_delegated pr kv s sigs prf source = Inr ks' \<longleftrightarrow>
     kv_incepted kv \<and> serder_verify_said pr s ''E'' = Inr () \<and>
     serder_ilk s = Inr ''drt'' \<and> serder_sn s = Inr (ks_sn (kv_state kv) + 1) \<and>
     (\<exists>drt vs. drt_from_value (serder_sad s) = Some drt \<and>
        list_all2 (\<lambda>k vf. verfer_from_qb64 pr k = Inr vf) (drt_keys drt) vs \<and>
        verify_sigs_static pr (serder_raw s) sigs vs (drt_keys_threshold drt) = Inr () \<and>
        verify_delegation (drt_prefix drt) (ks_sn (kv_state kv) + 1) (drt_said drt) (drt_delegator drt) prf source = Inr () \<and>
        apply_delegated_rotation pr (kv_state kv) drt = Inr ks')"
  unfolding verfers_from_keys_Inr [symmetric]
  by (auto simp: verify_update_delegated_def res_simps)

text \<open>\<open>update\<close> is \<open>verify_update\<close> and \<open>apply_verified_update\<close>.\<close>

lemma kever_update_eq:
  "kever_update pr kv s sigs =
     bindR (verify_update pr kv s sigs) (\<lambda>ks. Inr (apply_verified_update kv ks))"
  by (simp only: kever_update_def verify_update_def apply_verified_update_def bindR_assoc bindR_if bindR_simps)

text \<open>The variants that own their value: the same on JSON, but for the error of a bad number.\<close>

lemma kever_new_from_parts_eq:
  assumes "serder_kind s = JsonKind" "serder_ilk s \<noteq> Inr ''dip''"
  shows "kever_new_from_parts pr (serder_raw s) (serder_sad s) sigs verfers = kever_new pr s sigs verfers"
proof (cases "get_str (serder_sad s) ''t''")
  case (Some ilk)
  with assms show ?thesis
    by (simp add: kever_new_from_parts_def kever_new_def serder_ilk_def serder_verify_said_def)
qed (simp add: kever_new_from_parts_def kever_new_def serder_ilk_def)

lemma verify_update_owned_eq:
  assumes "serder_kind s = JsonKind" "is_ok (serder_sn s)"
  shows "verify_update_owned pr kv (serder_raw s) (serder_sad s) sigs = verify_update pr kv s sigs"
proof -
  from assms(2) obtain sn_str sn where "get_str (serder_sad s) ''s'' = Some sn_str" "u64_from_hex sn_str = Some sn"
    by (auto simp: serder_sn_def is_ok_iff bind_eq_Some_conv)
  with assms(1) show ?thesis
    by (simp add: verify_update_owned_def verify_update_def serder_sn_def serder_ilk_def serder_verify_said_def)
qed

end
