(* ===== verification/Keri_Kel.thy ===== *)
theory Keri_Kel
  imports Keri_Kever
begin

section \<open>Key event logs\<close>

text \<open>
  A verifier is driven by the events of a log: \<open>kel_step\<close> is one accepted event, plain
  (\<open>Kever::update\<close>) or delegated (\<open>verify_update_delegated\<close> and
  \<open>apply_verified_update\<close>), and \<open>reachable\<close> are the verifiers that an accepted inception
  and any number of accepted events produce. The locale \<open>linked_log\<close> is the contract of
  an append-only log whose entries name their predecessor; the verifier interprets it.
\<close>

text \<open>Any number of steps of a partial machine.\<close>

primrec run_steps :: "('k \<Rightarrow> 'e \<Rightarrow> 'k option) \<Rightarrow> 'k \<Rightarrow> 'e list \<Rightarrow> 'k option" where
  "run_steps step k [] = Some k"
| "run_steps step k (e # es) = Option.bind (step k e) (\<lambda>k'. run_steps step k' es)"

locale linked_log =
  fixes step :: "'k \<Rightarrow> 'e \<Rightarrow> 'k option"
    and ident :: "'k \<Rightarrow> 'i" and seqno :: "'k \<Rightarrow> u64" and head :: "'k \<Rightarrow> 'd"
    and prior :: "'e \<Rightarrow> 'd option" and name :: "'e \<Rightarrow> 'd option"
  assumes step_ident: "step k e = Some k' \<Longrightarrow> ident k' = ident k"
    and step_seqno: "step k e = Some k' \<Longrightarrow> seqno k' = seqno k + 1"
    and step_prior: "step k e = Some k' \<Longrightarrow> prior e = Some (head k)"
    and step_name: "step k e = Some k' \<Longrightarrow> name e = Some (head k')"
begin

lemma run_ident: "run_steps step k es = Some k' \<Longrightarrow> ident k' = ident k"
  by (induction es arbitrary: k) (auto simp: bind_eq_Some_conv dest!: step_ident)

lemma run_seqno: "run_steps step k es = Some k' \<Longrightarrow> seqno k' = seqno k + of_nat (length es)"
  by (induction es arbitrary: k) (auto simp: bind_eq_Some_conv dest!: step_seqno)

lemma run_linked:
  "run_steps step k es = Some k' \<Longrightarrow> map prior es @ [Some (head k')] = Some (head k) # map name es"
proof (induction es arbitrary: k)
  case (Cons e es)
  then obtain k1 where "step k e = Some k1" "run_steps step k1 es = Some k'"
    by (auto simp: bind_eq_Some_conv)
  with Cons.IH [of k1] step_prior [of k e k1] step_name [of k e k1] show ?case by simp
qed simp

end

datatype kel_event =
    Plain serder "siger list"
  | Delegated serder "siger list" delegation_proof anchors_source

fun event_serder :: "kel_event \<Rightarrow> serder" where
  "event_serder (Plain s _) = s"
| "event_serder (Delegated s _ _ _) = s"

fun event_sigs :: "kel_event \<Rightarrow> siger list" where
  "event_sigs (Plain _ sigs) = sigs"
| "event_sigs (Delegated _ sigs _ _) = sigs"

definition event_prior :: "kel_event \<Rightarrow> string option" where
  "event_prior ev = get_str (serder_sad (event_serder ev)) ''p''"

definition event_said :: "kel_event \<Rightarrow> string option" where
  "event_said ev = get_str (serder_sad (event_serder ev)) ''d''"

fun kel_step :: "prims \<Rightarrow> kever \<Rightarrow> kel_event \<Rightarrow> kever core_result" where
  "kel_step pr kv (Plain s sigs) = kever_update pr kv s sigs"
| "kel_step pr kv (Delegated s sigs dp source) =
     bindR (verify_update_delegated pr kv s sigs dp source) (\<lambda>ks. Inr (apply_verified_update kv ks))"

definition kel_run :: "prims \<Rightarrow> kever \<Rightarrow> kel_event list \<Rightarrow> kever option" where
  "kel_run pr = run_steps (\<lambda>kv ev. okR (kel_step pr kv ev))"

inductive reachable :: "prims \<Rightarrow> kever \<Rightarrow> bool" for pr where
  inception: "kever_new pr s sigs vs = Inr kv \<Longrightarrow> reachable pr kv"
| parts: "kever_new_from_parts pr raw sad sigs vs = Inr kv \<Longrightarrow> reachable pr kv"
| delegated: "kever_new_delegated pr s sigs vs dp source = Inr kv \<Longrightarrow> reachable pr kv"
| event: "reachable pr kv \<Longrightarrow> kel_step pr kv ev = Inr kv' \<Longrightarrow> reachable pr kv'"
| owned: "reachable pr kv \<Longrightarrow> verify_update_owned pr kv raw sad sigs = Inr ks' \<Longrightarrow>
    reachable pr (apply_verified_update kv ks')"

inductive_cases reachableE: "reachable pr kv"


subsection \<open>Fields of the decoded events\<close>

lemma struct_fields_nth:
  "struct_fields names (JObject obj) = Some fs \<Longrightarrow> i < length names \<Longrightarrow>
     map_of obj (names ! i) = Some (fs ! i)"
  by (auto simp: struct_fields_object those_eq_Some list_all2_conv_all_nth)

lemma rot_from_object:
  assumes "rot_from_value (JObject obj) = Some e"
  shows "map_of obj ''p'' = Some (JString (rot_prior_said e))"
    and "map_of obj ''d'' = Some (JString (rot_said e))"
proof -
  from assms obtain fs where "struct_fields rot_fields (JObject obj) = Some fs"
    "fs ! 2 = JString (rot_said e)" "fs ! 5 = JString (rot_prior_said e)"
    by (auto simp: rot_from_value_def bind_eq_Some_conv str_field_def)
  then show "map_of obj ''p'' = Some (JString (rot_prior_said e))"
    "map_of obj ''d'' = Some (JString (rot_said e))"
    using struct_fields_nth [of rot_fields obj fs 5] struct_fields_nth [of rot_fields obj fs 2]
    by (simp_all add: rot_fields_def)
qed

lemma drt_from_object:
  assumes "drt_from_value (JObject obj) = Some e"
  shows "map_of obj ''p'' = Some (JString (drt_prior_said e))"
    and "map_of obj ''d'' = Some (JString (drt_said e))"
proof -
  from assms obtain fs where "struct_fields drt_fields (JObject obj) = Some fs"
    "fs ! 2 = JString (drt_said e)" "fs ! 5 = JString (drt_prior_said e)"
    by (auto simp: drt_from_value_def bind_eq_Some_conv str_field_def)
  then show "map_of obj ''p'' = Some (JString (drt_prior_said e))"
    "map_of obj ''d'' = Some (JString (drt_said e))"
    using struct_fields_nth [of drt_fields obj fs 5] struct_fields_nth [of drt_fields obj fs 2]
    by (simp_all add: drt_fields_def)
qed

lemma ixn_from_object:
  assumes "ixn_from_value (JObject obj) = Some e"
  shows "map_of obj ''p'' = Some (JString (ixn_prior_said e))"
    and "map_of obj ''d'' = Some (JString (ixn_said e))"
proof -
  from assms obtain fs where "struct_fields ixn_fields (JObject obj) = Some fs"
    "fs ! 2 = JString (ixn_said e)" "fs ! 5 = JString (ixn_prior_said e)"
    by (auto simp: ixn_from_value_def bind_eq_Some_conv str_field_def)
  then show "map_of obj ''p'' = Some (JString (ixn_prior_said e))"
    "map_of obj ''d'' = Some (JString (ixn_said e))"
    using struct_fields_nth [of ixn_fields obj fs 5] struct_fields_nth [of ixn_fields obj fs 2]
    by (simp_all add: ixn_fields_def)
qed

lemma icp_from_object:
  assumes "icp_from_value (JObject obj) = Some e"
  shows "map_of obj ''d'' = Some (JString (icp_said e))"
proof -
  from assms obtain fs where "struct_fields icp_fields (JObject obj) = Some fs" "fs ! 2 = JString (icp_said e)"
    by (auto simp: icp_from_value_def bind_eq_Some_conv str_field_def)
  then show ?thesis using struct_fields_nth [of icp_fields obj fs 2] by (simp add: icp_fields_def)
qed

lemma verify_said_object: "verify_said pr sad label code kind = Inr () \<Longrightarrow> \<exists>obj. sad = JObject obj"
  by (auto simp: verify_said_Inr compute_said_Inr)


subsection \<open>One step\<close>

text \<open>
  What every accepted event does, whichever way it came: \<open>signed_by\<close> says that the raw
  message carries a quorum of the keys of a state, \<open>same_authority\<close> that two states agree
  on everything but their position in the log, \<open>installs\<close> that the keys of the second
  state are those the first one committed to.
\<close>

definition signed_by :: "prims \<Rightarrow> bytes \<Rightarrow> siger list \<Rightarrow> key_state \<Rightarrow> bool" where
  "signed_by pr raw sigs ks \<longleftrightarrow>
     (\<exists>vs. list_all2 (\<lambda>k vf. verfer_from_qb64 pr k = Inr vf) (ks_keys ks) vs \<and>
        quorum pr raw vs sigs (ks_threshold ks))"

definition same_authority :: "key_state \<Rightarrow> key_state \<Rightarrow> bool" where
  "same_authority ks ks' \<longleftrightarrow>
     ks' = ks\<lparr>ks_sn := ks_sn ks', ks_last_event_digest := ks_last_event_digest ks'\<rparr>"

definition installs :: "prims \<Rightarrow> key_state \<Rightarrow> key_state \<Rightarrow> bool" where
  "installs pr ks ks' \<longleftrightarrow> list_all2 (committed pr) (ks_keys ks') (ks_next_keys ks)"

definition extends :: "json \<Rightarrow> key_state \<Rightarrow> key_state \<Rightarrow> bool" where
  "extends sad ks ks' \<longleftrightarrow>
     ks_prefix ks' = ks_prefix ks \<and> ks_delegated ks' = ks_delegated ks \<and>
     ks_delegator ks' = ks_delegator ks \<and> ks_sn ks' = ks_sn ks + 1 \<and>
     get_str sad ''p'' = Some (ks_last_event_digest ks) \<and>
     get_str sad ''d'' = Some (ks_last_event_digest ks') \<and>
     (ks_inv ks \<longrightarrow> ks_inv ks')"

lemma plain_rotation_facts:
  assumes "plain_rotation pr kv s sigs rot ks'" and "serder_sad s = JObject obj"
  shows "extends (serder_sad s) (kv_state kv) ks'" "installs pr (kv_state kv) ks'"
    "signed_by pr (serder_raw s) sigs ks'" "\<not> ks_delegated (kv_state kv)"
  using assms rot_from_object [of obj rot] apply_rotation_inv [of pr "kv_state kv" rot ks']
  by (auto simp: plain_rotation_def extends_def installs_def signed_by_def apply_rotation_Inr
      verify_sigs_static_iff get_str_eq_Some)

lemma interaction_facts:
  assumes "interaction pr kv s sigs ixn ks'" and "serder_sad s = JObject obj"
  shows "extends (serder_sad s) (kv_state kv) ks'" "same_authority (kv_state kv) ks'"
    "signed_by pr (serder_raw s) sigs ks'"
  using assms ixn_from_object [of obj ixn] apply_interaction_inv [of "kv_state kv" ixn ks']
  by (auto simp: interaction_def extends_def same_authority_def signed_by_def apply_interaction_Inr
      verify_sigs_static_iff get_str_eq_Some)

lemma verify_update_facts:
  assumes "verify_update pr kv s sigs = Inr ks'"
  shows "extends (serder_sad s) (kv_state kv) ks' \<and> signed_by pr (serder_raw s) sigs ks' \<and>
    serder_verify_said pr s ''E'' = Inr () \<and>
    (same_authority (kv_state kv) ks' \<or> \<not> ks_delegated (kv_state kv) \<and> installs pr (kv_state kv) ks')"
proof -
  from assms have said: "serder_verify_said pr s ''E'' = Inr ()" by (simp add: verify_update_Inr)
  then obtain obj where "serder_sad s = JObject obj"
    unfolding serder_verify_said_def using verify_said_object by blast
  with assms said show ?thesis
    unfolding verify_update_Inr by (meson interaction_facts plain_rotation_facts)
qed

text \<open>A delegated rotation: the delegator of the identifier anchored this very event.\<close>

definition anchored :: "anchors_source \<Rightarrow> delegation_proof \<Rightarrow> key_state \<Rightarrow> bool" where
  "anchored source dp ks' \<longleftrightarrow>
     (\<exists>delegator anchors. ks_delegator ks' = Some delegator \<and> delegator \<noteq> [] \<and> delegator \<noteq> ks_prefix ks' \<and>
        source delegator (dp_sn dp) (dp_said dp) = Inr (Some anchors) \<and>
        (\<exists>a \<in> set anchors. seal_names (ks_prefix ks') (ks_sn ks') (ks_said ks') a))"

lemma verify_update_delegated_facts:
  assumes "verify_update_delegated pr kv s sigs dp source = Inr ks'"
  shows "extends (serder_sad s) (kv_state kv) ks' \<and> signed_by pr (serder_raw s) sigs ks' \<and>
    serder_verify_said pr s ''E'' = Inr () \<and> ks_delegated (kv_state kv) \<and>
    installs pr (kv_state kv) ks' \<and> anchored source dp ks'"
proof -
  from assms obtain drt vs where said: "serder_verify_said pr s ''E'' = Inr ()"
    and drt: "drt_from_value (serder_sad s) = Some drt"
    and vs: "list_all2 (\<lambda>k vf. verfer_from_qb64 pr k = Inr vf) (drt_keys drt) vs"
      "verify_sigs_static pr (serder_raw s) sigs vs (drt_keys_threshold drt) = Inr ()"
    and deleg: "verify_delegation (drt_prefix drt) (ks_sn (kv_state kv) + 1) (drt_said drt) (drt_delegator drt) dp source = Inr ()"
    and app: "apply_delegated_rotation pr (kv_state kv) drt = Inr ks'"
    unfolding verify_update_delegated_Inr by blast
  from said obtain obj where obj: "serder_sad s = JObject obj"
    unfolding serder_verify_said_def using verify_said_object by blast
  have rot: "apply_rotation pr (kv_state kv) (as_rotation drt) = Inr ks'"
    and d: "ks_delegated (kv_state kv)" "ks_delegator (kv_state kv) = Some (drt_delegator drt)"
    using app by (simp_all add: apply_delegated_rotation_Inr)
  note fields = rot [unfolded apply_rotation_Inr, simplified as_rotation_def, simplified]
  have "extends (serder_sad s) (kv_state kv) ks'"
    using fields drt_from_object [of obj drt] drt obj apply_rotation_inv [OF rot]
    by (auto simp: extends_def get_str_eq_Some)
  moreover have "signed_by pr (serder_raw s) sigs ks'"
    using fields vs by (auto simp: signed_by_def verify_sigs_static_iff)
  moreover have "installs pr (kv_state kv) ks'" using fields by (auto simp: installs_def)
  moreover have "anchored source dp ks'"
    using fields d deleg unfolding verify_delegation_iff anchored_def by auto
  ultimately show ?thesis using said d by simp
qed

lemma kel_step_state:
  assumes "kel_step pr kv ev = Inr kv'"
  shows "\<exists>ks'. kv' = kv\<lparr>kv_state := ks'\<rparr> \<and>
    (case ev of Plain s sigs \<Rightarrow> verify_update pr kv s sigs
     | Delegated s sigs dp source \<Rightarrow> verify_update_delegated pr kv s sigs dp source) = Inr ks'"
  using assms by (cases ev) (auto simp: kever_update_eq res_simps apply_verified_update_def)

lemma kel_step_conj:
  assumes "kel_step pr kv ev = Inr kv'"
  shows "extends (serder_sad (event_serder ev)) (kv_state kv) (kv_state kv') \<and>
    signed_by pr (serder_raw (event_serder ev)) (event_sigs ev) (kv_state kv') \<and>
    serder_verify_said pr (event_serder ev) ''E'' = Inr () \<and>
    (same_authority (kv_state kv) (kv_state kv') \<or> installs pr (kv_state kv) (kv_state kv')) \<and>
    kv_incepted kv' = kv_incepted kv"
proof (cases ev)
  case (Plain s sigs)
  with kel_step_state [OF assms] obtain ks' where "kv' = kv\<lparr>kv_state := ks'\<rparr>" "verify_update pr kv s sigs = Inr ks'"
    by auto
  with Plain verify_update_facts [of pr kv s sigs ks'] show ?thesis by auto
next
  case (Delegated s sigs dp source)
  with kel_step_state [OF assms] obtain ks' where "kv' = kv\<lparr>kv_state := ks'\<rparr>"
    "verify_update_delegated pr kv s sigs dp source = Inr ks'"
    by auto
  with Delegated verify_update_delegated_facts [of pr kv s sigs dp source ks'] show ?thesis by simp
qed

lemma kel_step_facts:
  assumes "kel_step pr kv ev = Inr kv'"
  shows "extends (serder_sad (event_serder ev)) (kv_state kv) (kv_state kv')"
    and "signed_by pr (serder_raw (event_serder ev)) (event_sigs ev) (kv_state kv')"
    and "serder_verify_said pr (event_serder ev) ''E'' = Inr ()"
    and "same_authority (kv_state kv) (kv_state kv') \<or> installs pr (kv_state kv) (kv_state kv')"
    and "kv_incepted kv' = kv_incepted kv"
  using kel_step_conj [OF assms] by simp_all

text \<open>A verifier reads a linked log: the laws of the locale hold of \<open>kel_step\<close>.\<close>

interpretation kel: linked_log "\<lambda>kv ev. okR (kel_step pr kv ev)"
  "\<lambda>kv. (ks_prefix (kv_state kv), ks_delegated (kv_state kv), ks_delegator (kv_state kv))"
  "\<lambda>kv. ks_sn (kv_state kv)" "\<lambda>kv. ks_last_event_digest (kv_state kv)" event_prior event_said for pr
proof
  fix kv kv' :: kever and ev
  assume "okR (kel_step pr kv ev) = Some kv'"
  then have e: "extends (serder_sad (event_serder ev)) (kv_state kv) (kv_state kv')"
    using kel_step_facts(1) by simp
  then show "(ks_prefix (kv_state kv'), ks_delegated (kv_state kv'), ks_delegator (kv_state kv')) =
      (ks_prefix (kv_state kv), ks_delegated (kv_state kv), ks_delegator (kv_state kv))"
    and "ks_sn (kv_state kv') = ks_sn (kv_state kv) + 1"
    and "event_prior ev = Some (ks_last_event_digest (kv_state kv))"
    and "event_said ev = Some (ks_last_event_digest (kv_state kv'))"
    by (simp_all add: extends_def event_prior_def event_said_def)
qed


subsection \<open>Invariant of every reachable verifier\<close>

definition kever_inv :: "kever \<Rightarrow> bool" where
  "kever_inv kv \<longleftrightarrow> kv_incepted kv \<and> ks_inv (kv_state kv)"

lemma kever_new_inv: "kever_new pr s sigs vs = Inr kv \<Longrightarrow> kever_inv kv"
  by (auto simp: kever_new_Inr kever_inv_def from_inception_inv)

lemma kever_new_delegated_inv: "kever_new_delegated pr s sigs vs dp source = Inr kv \<Longrightarrow> kever_inv kv"
  by (auto simp: kever_new_delegated_Inr kever_inv_def from_delegated_inception_inv)

lemma kever_new_from_parts_inv: "kever_new_from_parts pr raw sad sigs vs = Inr kv \<Longrightarrow> kever_inv kv"
  by (auto simp: kever_new_from_parts_def res_simps kever_inv_def from_inception_inv)

lemma verify_update_owned_serder:
  assumes "verify_update_owned pr kv raw sad sigs = Inr ks'"
  shows "verify_update pr kv \<lparr>serder_raw = raw, serder_version = None, serder_kind = JsonKind, serder_sad = sad\<rparr> sigs
    = Inr ks'"
proof -
  from assms obtain sn_str sn where "get_str sad ''s'' = Some sn_str" "u64_from_hex sn_str = Some sn"
    by (auto simp: verify_update_owned_def bindR_eq_Inr if_Inl_eq_Inr)
  then have "is_ok (serder_sn \<lparr>serder_raw = raw, serder_version = None, serder_kind = JsonKind, serder_sad = sad\<rparr>)"
    by (simp add: serder_sn_def)
  from verify_update_owned_eq [OF _ this] assms show ?thesis by simp
qed

lemma reachable_inv: "reachable pr kv \<Longrightarrow> kever_inv kv"
proof (induction rule: reachable.induct)
  case (event kv ev kv')
  then show ?case
    using kel_step_facts(1,5) [of pr kv ev kv'] by (simp add: kever_inv_def extends_def)
next
  case (owned kv raw sad sigs ks')
  then show ?case
    using verify_update_facts [OF verify_update_owned_serder [OF owned.hyps(2)]]
    by (simp add: kever_inv_def extends_def apply_verified_update_def)
qed (simp_all add: kever_new_inv kever_new_from_parts_inv kever_new_delegated_inv)

end
