(* ===== verification/Keri_Demo.thy ===== *)
theory Keri_Demo
  imports Keri_Prims
begin

section \<open>A concrete instance of the third-party code\<close>

text \<open>
  Executable functions that satisfy the hypotheses of \<open>Keri_Prims\<close>, on which the
  properties of the development are evaluated: the qb64 text of a primitive is its code
  and its raw bytes, a public key is its secret, a signature repeats key and message, a
  digest is a window of the message. \<open>demo_prims docs\<close> prints JSON compactly and reads
  back the texts of the values in \<open>docs\<close>. None of it models code of the program.
\<close>

text \<open>Codes and raw sizes of the primitives; no code is a prefix of another.\<close>

definition demo_sizes :: "(string \<times> nat) list" where
  "demo_sizes =
     [(''A'', 32), (''B'', 32), (''D'', 32), (''E'', 43), (''0A'', 16), (''0B'', 64), (''0D'', 64),
      (''1AAA'', 33), (''1AAB'', 33), (''1AAI'', 33), (''1AAJ'', 33)]"

definition demo_matter_new :: "string \<Rightarrow> bytes \<Rightarrow> string + matter" where
  "demo_matter_new c r =
     (if map_of demo_sizes c = Some (length r) then Inr \<lparr>mat_code = c, mat_raw = r\<rparr> else Inl ''raw size'')"

definition demo_matter_qb64 :: "matter \<Rightarrow> string + string" where
  "demo_matter_qb64 m = Inr (mat_code m @ mat_raw m)"

definition demo_matter_from_qb64 :: "string \<Rightarrow> string + matter" where
  "demo_matter_from_qb64 q =
     (case find (\<lambda>(c, n). starts_with c q) demo_sizes of
        Some (c, n) \<Rightarrow>
          if length q = length c + n then Inr \<lparr>mat_code = c, mat_raw = drop (length c) q\<rparr>
          else Inl ''qb64 length''
      | None \<Rightarrow> Inl ''unknown code'')"

definition demo_matter_fs :: "string \<Rightarrow> nat option" where
  "demo_matter_fs c = map_option (\<lambda>n. length c + n) (map_of demo_sizes c)"

text \<open>One index character after a one-character code, then 64 bytes.\<close>

definition demo_indexer_new :: "string \<Rightarrow> nat \<Rightarrow> nat option \<Rightarrow> bytes \<Rightarrow> string + indexer" where
  "demo_indexer_new c i o' r =
     (if length c = 1 \<and> i < 64 \<and> length r = 64 then
        Inr \<lparr>idx_code = c, idx_index = i, idx_ondex = o', idx_raw = r\<rparr>
      else Inl ''indexer'')"

definition demo_indexer_qb64 :: "indexer \<Rightarrow> string + string" where
  "demo_indexer_qb64 x = Inr (idx_code x @ [char_of (48 + idx_index x)] @ idx_raw x)"

definition demo_indexer_from_qb64 :: "string \<Rightarrow> string + indexer" where
  "demo_indexer_from_qb64 q =
     (case q of
        c # i # r \<Rightarrow>
          if 48 \<le> byte i \<and> byte i < 112 \<and> length r = 64 then
            Inr \<lparr>idx_code = [c], idx_index = byte i - 48, idx_ondex = None, idx_raw = r\<rparr>
          else Inl ''indexer''
      | _ \<Rightarrow> Inl ''indexer'')"

definition demo_counter_new :: "string \<Rightarrow> nat \<Rightarrow> string + counter" where
  "demo_counter_new c n =
     (if length c = 2 \<and> n < 64 then Inr \<lparr>ctr_code = c, ctr_count = n\<rparr> else Inl ''counter'')"

definition demo_counter_qb64 :: "counter \<Rightarrow> string + string" where
  "demo_counter_qb64 x = Inr (ctr_code x @ [char_of (48 + ctr_count x)])"

definition demo_counter_from_qb64 :: "string \<Rightarrow> string + counter" where
  "demo_counter_from_qb64 q =
     (case q of
        a # c # n # _ \<Rightarrow>
          if 48 \<le> byte n \<and> byte n < 112 then Inr \<lparr>ctr_code = [a, c], ctr_count = byte n - 48\<rparr>
          else Inl ''counter''
      | _ \<Rightarrow> Inl ''counter'')"

definition demo_sign :: "bytes \<Rightarrow> bytes \<Rightarrow> bytes" where
  "demo_sign sk m = take 64 (sk @ m @ replicate 64 (CHR ''s''))"

definition demo_verify :: "bytes \<Rightarrow> bytes \<Rightarrow> bytes \<Rightarrow> bool" where
  "demo_verify pk m sig = (sig = demo_sign pk m)"

definition demo_hash :: "nat \<Rightarrow> bytes \<Rightarrow> bytes" where
  "demo_hash n m =
     take n (take 35 (m @ replicate 35 (CHR ''h'')) @ take 8 (rev m @ replicate 8 (CHR ''h'')) @ replicate n (CHR ''h''))"

text \<open>A compact JSON printer, without escapes.\<close>

fun demo_join :: "string list \<Rightarrow> string" where
  "demo_join [] = ''''"
| "demo_join [s] = s"
| "demo_join (s # ss) = s @ '','' @ demo_join ss"

definition demo_quote :: "string \<Rightarrow> string" where
  "demo_quote s = [CHR 0x22] @ s @ [CHR 0x22]"

fun demo_print :: "json \<Rightarrow> string" where
  "demo_print JNull = ''null''"
| "demo_print (JBool b) = (if b then ''true'' else ''false'')"
| "demo_print (JNumber (PosInt n)) = dec (unat n)"
| "demo_print (JNumber (NegInt n)) = ''-'' @ dec (nat (- n))"
| "demo_print (JNumber (Float s)) = s"
| "demo_print (JString s) = demo_quote s"
| "demo_print (JArray xs) = ''['' @ demo_join (map demo_print xs) @ '']''"
| "demo_print (JObject ps) =
     ''{'' @ demo_join (map (\<lambda>(k, v). demo_quote k @ '':'' @ demo_print v) ps) @ ''}''"

definition demo_read :: "json list \<Rightarrow> bytes \<Rightarrow> string + json" where
  "demo_read docs bs =
     (case find (\<lambda>v. demo_print v = bs) docs of Some v \<Rightarrow> Inr v | None \<Rightarrow> Inl ''parse'')"

definition demo_prims :: "json list \<Rightarrow> prims" where
  "demo_prims docs =
     \<lparr>matter_new = demo_matter_new, matter_from_qb64 = demo_matter_from_qb64,
      matter_qb64 = demo_matter_qb64, matter_fs = demo_matter_fs,
      indexer_new = demo_indexer_new, indexer_from_qb64 = demo_indexer_from_qb64,
      indexer_qb64 = demo_indexer_qb64, indexer_fs = (\<lambda>_. Some 66),
      hardage = (\<lambda>c. if c = CHR ''-'' then None else Some (if c = CHR ''0'' then 2 else if c = CHR ''1'' then 4 else 1)),
      counter_new = demo_counter_new, counter_from_qb64 = demo_counter_from_qb64,
      counter_qb64 = demo_counter_qb64, counter_full_size = (\<lambda>_. 3),
      ed25519_public = (\<lambda>sk. sk), ed25519_sign = demo_sign, ed25519_point_ok = (\<lambda>_. True),
      ed25519_verify = demo_verify,
      k256_secret_ok = (\<lambda>sk. length sk = 32), k256_public = (\<lambda>sk. CHR ''k'' # sk),
      k256_sign = (\<lambda>sk. demo_sign (CHR ''k'' # sk)), k256_point_ok = (\<lambda>_. True),
      k256_sig_ok = (\<lambda>s. length s = 64), k256_verify = demo_verify,
      p256_secret_ok = (\<lambda>sk. length sk = 32), p256_public = (\<lambda>sk. CHR ''p'' # sk),
      p256_sign = (\<lambda>sk. demo_sign (CHR ''p'' # sk)), p256_point_ok = (\<lambda>_. True),
      p256_sig_ok = (\<lambda>s. length s = 64), p256_verify = demo_verify,
      h_blake3_256 = demo_hash 43, h_blake3_512 = demo_hash 64, h_blake2b_256 = demo_hash 43,
      h_blake2b_512 = demo_hash 64, h_blake2s_256 = demo_hash 43, h_sha3_256 = demo_hash 43,
      h_sha3_512 = demo_hash 64, h_sha2_256 = demo_hash 43, h_sha2_512 = demo_hash 64,
      argon2id = (\<lambda>_ _ _ n pw s. Inr (demo_hash n (pw @ s))),
      json_to_vec = (\<lambda>v. Inr (demo_print v)), json_from_slice = demo_read docs,
      cbor_to_vec = (\<lambda>v. Inr (demo_print v)), cbor_from_slice = demo_read docs,
      msgpack_to_vec = (\<lambda>v. Inr (demo_print v)), msgpack_from_slice = demo_read docs\<rparr>"

lemma demo_matter_round_trip:
  assumes "demo_matter_new c r = Inr m"
  shows "demo_matter_from_qb64 (c @ r) = Inr m \<and> m = \<lparr>mat_code = c, mat_raw = r\<rparr>"
proof -
  from assms have m: "m = \<lparr>mat_code = c, mat_raw = r\<rparr>" and c: "(c, length r) \<in> set demo_sizes"
    by (auto simp: demo_matter_new_def dest: map_of_SomeD split: if_splits)
  have "find (\<lambda>(c', n). starts_with c' (c @ r)) demo_sizes = Some (c, length r)"
    using c unfolding demo_sizes_def list.set insert_iff empty_iff Pair_inject
    by (elim disjE conjE; simp add: starts_with_def)
  with m show ?thesis by (simp add: demo_matter_from_qb64_def)
qed

lemma demo_matter_laws: "matter_laws (demo_prims docs)"
proof -
  have "demo_matter_fs c = Some n \<Longrightarrow> demo_matter_new c r = Inr m \<Longrightarrow> n = length c + length r" for c r m n
    by (auto simp: demo_matter_fs_def demo_matter_new_def split: if_splits)
  then show ?thesis
    using demo_matter_round_trip
    by (simp add: matter_laws_def demo_prims_def demo_matter_qb64_def) fastforce
qed

lemma length_demo_sign: "length sk \<le> 64 \<Longrightarrow> length (demo_sign sk m) = 64"
  by (simp add: demo_sign_def)

lemma length_demo_hash [simp]: "length (demo_hash n m) = n"
proof -
  have "n \<le> length (take 35 (m @ replicate 35 (CHR ''h'')) @ take 8 (rev m @ replicate 8 (CHR ''h'')) @ replicate n (CHR ''h''))"
    unfolding length_append length_replicate by simp
  then show ?thesis unfolding demo_hash_def length_take by (rule min_absorb2)
qed

lemma demo_signature_laws: "signature_laws (demo_prims docs)"
  by (simp add: signature_laws_def demo_prims_def length_demo_sign demo_verify_def)

lemma demo_sel [simp]:
  "matter_new (demo_prims docs) = demo_matter_new"
  "matter_from_qb64 (demo_prims docs) = demo_matter_from_qb64"
  "matter_qb64 (demo_prims docs) = demo_matter_qb64"
  "matter_fs (demo_prims docs) = demo_matter_fs"
  "json_to_vec (demo_prims docs) = (\<lambda>v. Inr (demo_print v))"
  "json_from_slice (demo_prims docs) = demo_read docs"
  "h_blake3_256 (demo_prims docs) = demo_hash 43"
  by (simp_all add: demo_prims_def)

end
