(* ===== verification/Keri_Scenario.thy ===== *)
theory Keri_Scenario
  imports Keri_Kel Keri_Demo
begin

section \<open>A small log\<close>

text \<open>
  One identifier on the demo instance: a single-key inception with a basic prefix, the
  rotation to the committed key, an interaction, and a delegated inception that another
  identifier anchors. The properties of the verifier are evaluated on them.
\<close>

definition no_docs :: "prims" where
  "no_docs = demo_prims []"

definition sk_a :: "bytes" where "sk_a = replicate 32 (CHR ''a'')"
definition sk_b :: "bytes" where "sk_b = replicate 32 (CHR ''b'')"
definition key_a :: "string" where "key_a = ''D'' @ sk_a"
definition key_b :: "string" where "key_b = ''D'' @ sk_b"
definition next_b :: "string" where "next_b = ''E'' @ demo_hash 43 key_b"
definition next_a :: "string" where "next_a = ''E'' @ demo_hash 43 key_a"

definition blank :: "string" where "blank = replicate 44 (CHR ''#'')"

text \<open>The SAID of an event body, which is computed with placeholders in it.\<close>

definition said_of :: "(string \<Rightarrow> json) \<Rightarrow> string" where
  "said_of body = ''E'' @ demo_hash 43 (demo_print (body blank))"

definition serder_of :: "json \<Rightarrow> serder" where
  "serder_of v = \<lparr>serder_raw = demo_print v, serder_version = None, serder_kind = JsonKind, serder_sad = v\<rparr>"

definition sig_of :: "bytes \<Rightarrow> serder \<Rightarrow> siger" where
  "sig_of sk s = \<lparr>sg_indexer = \<lparr>idx_code = ''A'', idx_index = 0, idx_ondex = None,
     idx_raw = demo_sign sk (serder_raw s)\<rparr>, sg_verfer = None\<rparr>"

definition verfer_of :: "bytes \<Rightarrow> verfer" where
  "verfer_of sk = \<lparr>vf_matter = \<lparr>mat_code = ''D'', mat_raw = sk\<rparr>\<rparr>"

definition icp_body :: "string \<Rightarrow> json" where
  "icp_body d = JObject
     [(''v'', JString ''KERI10JSON000000_''), (''t'', JString ''icp''), (''d'', JString d),
      (''i'', JString key_a), (''s'', JString ''0''), (''kt'', JString ''1''), (''k'', jstrings [key_a]),
      (''nt'', JString ''1''), (''n'', jstrings [next_b]), (''bt'', JString ''0''), (''b'', jstrings []),
      (''c'', jstrings []), (''a'', JArray [])]"

definition rot_body :: "string \<Rightarrow> json" where
  "rot_body d = JObject
     [(''v'', JString ''KERI10JSON000000_''), (''t'', JString ''rot''), (''d'', JString d),
      (''i'', JString key_a), (''s'', JString ''1''), (''p'', JString (said_of icp_body)),
      (''kt'', JString ''1''), (''k'', jstrings [key_b]), (''nt'', JString ''1''), (''n'', jstrings [next_a]),
      (''bt'', JString ''0''), (''br'', jstrings []), (''ba'', jstrings []),
      (''c'', jstrings []), (''a'', JArray [])]"

definition ixn_body :: "string \<Rightarrow> json" where
  "ixn_body d = JObject
     [(''v'', JString ''KERI10JSON000000_''), (''t'', JString ''ixn''), (''d'', JString d),
      (''i'', JString key_a), (''s'', JString ''2''), (''p'', JString (said_of rot_body)),
      (''a'', JArray [])]"

text \<open>Self-addressing: the placeholders stand in \<open>i\<close> as well.\<close>

definition dip_body :: "string \<Rightarrow> json" where
  "dip_body d = JObject
     [(''v'', JString ''KERI10JSON000000_''), (''t'', JString ''dip''), (''d'', JString d),
      (''i'', JString d), (''s'', JString ''0''), (''kt'', JString ''1''), (''k'', jstrings [key_b]),
      (''nt'', JString ''1''), (''n'', jstrings [next_a]), (''bt'', JString ''0''), (''b'', jstrings []),
      (''c'', jstrings []), (''a'', JArray []), (''di'', JString key_a)]"

text \<open>The rotation of the delegated identifier, and the seal its delegator anchors for it.\<close>

definition drt_body :: "string \<Rightarrow> json" where
  "drt_body d = JObject
     [(''v'', JString ''KERI10JSON000000_''), (''t'', JString ''drt''), (''d'', JString d),
      (''i'', JString (said_of dip_body)), (''s'', JString ''1''), (''p'', JString (said_of dip_body)),
      (''kt'', JString ''1''), (''k'', jstrings [key_a]), (''nt'', JString ''1''), (''n'', jstrings [next_b]),
      (''bt'', JString ''0''), (''br'', jstrings []), (''ba'', jstrings []),
      (''c'', jstrings []), (''a'', JArray []), (''di'', JString key_a)]"

text \<open>An inception for the prefix \<open>key_a\<close> that lists a second key next to it.\<close>

definition evil_body :: "string \<Rightarrow> json" where
  "evil_body d = JObject
     [(''v'', JString ''KERI10JSON000000_''), (''t'', JString ''icp''), (''d'', JString d),
      (''i'', JString key_a), (''s'', JString ''0''), (''kt'', JString ''1''), (''k'', jstrings [key_a, key_b]),
      (''nt'', JString ''1''), (''n'', jstrings [next_b]), (''bt'', JString ''0''), (''b'', jstrings []),
      (''c'', jstrings []), (''a'', JArray [JString ''x''])]"

definition icp_serder :: "serder" where "icp_serder = serder_of (icp_body (said_of icp_body))"
definition rot_serder :: "serder" where "rot_serder = serder_of (rot_body (said_of rot_body))"
definition ixn_serder :: "serder" where "ixn_serder = serder_of (ixn_body (said_of ixn_body))"
definition dip_serder :: "serder" where "dip_serder = serder_of (dip_body (said_of dip_body))"

definition drt_serder :: "serder" where "drt_serder = serder_of (drt_body (said_of drt_body))"
definition evil_serder :: "serder" where "evil_serder = serder_of (evil_body (said_of evil_body))"

text \<open>The signature of the second key alone.\<close>

definition evil_sig :: "siger" where
  "evil_sig = \<lparr>sg_indexer = \<lparr>idx_code = ''A'', idx_index = 1, idx_ondex = None,
     idx_raw = demo_sign sk_b (serder_raw evil_serder)\<rparr>, sg_verfer = None\<rparr>"

definition dip_seal :: "json" where
  "dip_seal = seal_to_json (SealEvent \<lparr>se_prefix = said_of dip_body, se_sn = ''0'', se_digest = said_of dip_body\<rparr>)"

definition anchor_proof :: "delegation_proof" where
  "anchor_proof = \<lparr>dp_sn = 2, dp_said = said_of ixn_body\<rparr>"

definition anchor_source :: "anchors_source" where
  "anchor_source delegator sn said =
     Inr (if delegator = key_a \<and> sn = 2 \<and> said = said_of ixn_body then Some [dip_seal] else None)"

definition drt_source :: "anchors_source" where
  "drt_source delegator sn said =
     Inr (if delegator = key_a \<and> sn = 2 \<and> said = said_of ixn_body then
            Some [seal_to_json (SealEvent \<lparr>se_prefix = said_of dip_body, se_sn = ''1'', se_digest = said_of drt_body\<rparr>)]
          else None)"

definition state_0 :: "key_state" where
  "state_0 =
     \<lparr>ks_prefix = key_a, ks_sn = 0, ks_said = said_of icp_body, ks_threshold = Simple 1, ks_keys = [key_a],
      ks_next_keys = [next_b], ks_next_threshold = Simple 1, ks_backer_threshold = 0, ks_backers = [],
      ks_config = [], ks_last_event_digest = said_of icp_body, ks_delegated = False, ks_delegator = None\<rparr>"

definition state_1 :: "key_state" where
  "state_1 =
     \<lparr>ks_prefix = key_a, ks_sn = 1, ks_said = said_of rot_body, ks_threshold = Simple 1, ks_keys = [key_b],
      ks_next_keys = [next_a], ks_next_threshold = Simple 1, ks_backer_threshold = 0, ks_backers = [],
      ks_config = [], ks_last_event_digest = said_of rot_body, ks_delegated = False, ks_delegator = None\<rparr>"

definition state_2 :: "key_state" where
  "state_2 = state_1\<lparr>ks_sn := 2, ks_last_event_digest := said_of ixn_body\<rparr>"

definition state_d0 :: "key_state" where
  "state_d0 =
     \<lparr>ks_prefix = said_of dip_body, ks_sn = 0, ks_said = said_of dip_body, ks_threshold = Simple 1, ks_keys = [key_b],
      ks_next_keys = [next_a], ks_next_threshold = Simple 1, ks_backer_threshold = 0, ks_backers = [],
      ks_config = [], ks_last_event_digest = said_of dip_body, ks_delegated = True, ks_delegator = Some key_a\<rparr>"

definition state_d1 :: "key_state" where
  "state_d1 =
     \<lparr>ks_prefix = said_of dip_body, ks_sn = 1, ks_said = said_of drt_body, ks_threshold = Simple 1, ks_keys = [key_a],
      ks_next_keys = [next_b], ks_next_threshold = Simple 1, ks_backer_threshold = 0, ks_backers = [],
      ks_config = [], ks_last_event_digest = said_of drt_body, ks_delegated = True, ks_delegator = Some key_a\<rparr>"

definition state_evil :: "key_state" where
  "state_evil = state_0\<lparr>ks_said := said_of evil_body, ks_keys := [key_a, key_b],
     ks_last_event_digest := said_of evil_body\<rparr>"

definition kever_d0 :: "kever" where "kever_d0 = \<lparr>kv_state = state_d0, kv_incepted = True\<rparr>"
definition kever_0 :: "kever" where "kever_0 = \<lparr>kv_state = state_0, kv_incepted = True\<rparr>"
definition kever_1 :: "kever" where "kever_1 = \<lparr>kv_state = state_1, kv_incepted = True\<rparr>"
definition kever_2 :: "kever" where "kever_2 = \<lparr>kv_state = state_2, kv_incepted = True\<rparr>"


subsection \<open>Evaluation\<close>

lemma char_of_48 [simp]: "char_of (48 :: nat) = CHR ''0''" "char_of (49 :: nat) = CHR ''1''"
  by code_simp+

lemma demo_numbers [simp]:
  "u64_from_hex ''0'' = Some 0" "u64_from_hex ''1'' = Some 1" "u64_from_hex ''2'' = Some 2"
  "usize_from_dec ''0'' = Some 0" "usize_from_dec ''1'' = Some 1"
  "threshold_from_json_value (JString ''1'') = Inr (Simple 1)"
  "u64_hex 0 = ''0''" "u64_hex 1 = ''1''"
  by (simp_all add: u64_from_hex_def usize_from_dec_def from_str_radix_def char_digit_def byte_def
      u64_hex_def hex_def to_radix.simps digit_char_def)

lemma length_sk [simp]: "length sk_a = 32" "length sk_b = 32"
  by (simp_all add: sk_a_def sk_b_def)

lemma demo_matter_D: "length sk = 32 \<Longrightarrow>
    demo_matter_from_qb64 (CHR ''D'' # sk) = Inr \<lparr>mat_code = ''D'', mat_raw = sk\<rparr>"
  using demo_matter_round_trip [of "''D''" sk] by (simp add: demo_matter_new_def demo_sizes_def)

lemma demo_verfer_from [simp]:
  "verfer_from_qb64 no_docs key_a = Inr (verfer_of sk_a)" "verfer_from_qb64 no_docs key_b = Inr (verfer_of sk_b)"
  by (simp_all add: verfer_from_qb64_def no_docs_def key_a_def key_b_def demo_matter_D verfer_of_def
      verfer_validate_code_def verfer_codes_def)

lemma keys_differ [simp]: "key_a \<noteq> key_b" "key_b \<noteq> key_a"
  by (simp_all add: key_a_def key_b_def sk_a_def sk_b_def)

lemma demo_verfer_qb64 [simp]:
  "verfer_qb64 no_docs (verfer_of sk_a) = Inr key_a" "verfer_qb64 no_docs (verfer_of sk_b) = Inr key_b"
  by (simp_all add: verfer_qb64_def no_docs_def verfer_of_def demo_matter_qb64_def key_a_def key_b_def)

lemma demo_diger_key [simp]: "\<not> is_ok (diger_from_qb64 no_docs key_a)" "\<not> is_ok (diger_from_qb64 no_docs key_b)"
  by (simp_all add: diger_from_qb64_def no_docs_def key_a_def key_b_def demo_matter_D
      diger_validate_code_def diger_codes_def)

lemma demo_verfer_verify [simp]:
  "length sk = 32 \<Longrightarrow> verfer_verify no_docs (verfer_of sk) m (demo_sign sk m) = Inr True"
  by (simp add: verfer_verify_def verify_ed25519_def verfer_of_def verfer_code_def verfer_raw_def
      no_docs_def demo_prims_def demo_verify_def length_demo_sign)

lemma demo_signed [simp]:
  "length sk = 32 \<Longrightarrow>
     verify_sigs_static no_docs (serder_raw s) [sig_of sk s] [verfer_of sk] (Simple (Suc 0)) = Inr ()"
  by (simp add: verify_sigs_static_def sig_of_def siger_index_def siger_raw_def)

lemma demo_fs [simp]: "demo_matter_fs ''E'' = Some 44"
  by (simp add: demo_matter_fs_def demo_sizes_def)

lemma demo_digest [simp]: "digest_qb64 no_docs ''E'' data = Inr (''E'' @ demo_hash 43 data)"
  by (simp add: digest_qb64_def diger_from_data_def compute_digest_def diger_qb64_def no_docs_def
      demo_matter_new_def demo_sizes_def demo_matter_qb64_def)

lemma demo_committed [simp]: "committed no_docs key_b next_b" "committed no_docs key_a next_a"
  using committed_digest [of no_docs key_b "''E''" next_b] committed_digest [of no_docs key_a "''E''" next_a]
  by (simp_all add: next_b_def next_a_def) (simp_all add: no_docs_def demo_matter_laws)

lemma not_self_addressing: "hd d \<noteq> CHR ''D'' \<Longrightarrow> key_a \<noteq> d"
  by (auto simp: key_a_def)

text \<open>Such a body verifies, where writing a digest into it gives the body of that digest.\<close>

lemma demo_said:
  assumes obj: "\<exists>obj. body (said_of body) = JObject obj \<and> map_of obj ''d'' = Some (JString (said_of body))"
    and put: "\<And>d. put_said ''d'' (is_self_addressing (body (said_of body)) ''d'') d (body (said_of body)) = body d"
  shows "verify_said no_docs (body (said_of body)) ''d'' ''E'' JsonKind = Inr ()"
proof -
  have fs: "matter_fs no_docs ''E'' = Some 44" by (simp add: no_docs_def)
  have ser: "json_to_vec no_docs v = Inr (demo_print v)" for v by (simp add: no_docs_def)
  from obj obtain obj where o: "body (said_of body) = JObject obj" "map_of obj ''d'' = Some (JString (said_of body))"
    by blast
  have "compute_said no_docs (body (said_of body)) ''d'' ''E'' JsonKind = Inr (said_of body, body (said_of body))"
    unfolding compute_said_Inr put using o
    by (simp add: fs ser put said_of_def blank_def del: put_said_object)
  with o show ?thesis by (auto simp: verify_said_Inr get_str_def)
qed

lemma demo_saids:
  "verify_said no_docs (icp_body (said_of icp_body)) ''d'' ''E'' JsonKind = Inr ()"
  "verify_said no_docs (rot_body (said_of rot_body)) ''d'' ''E'' JsonKind = Inr ()"
  "verify_said no_docs (ixn_body (said_of ixn_body)) ''d'' ''E'' JsonKind = Inr ()"
  "verify_said no_docs (dip_body (said_of dip_body)) ''d'' ''E'' JsonKind = Inr ()"
  "verify_said no_docs (drt_body (said_of drt_body)) ''d'' ''E'' JsonKind = Inr ()"
  "verify_said no_docs (evil_body (said_of evil_body)) ''d'' ''E'' JsonKind = Inr ()"
proof -
  have ne: "key_a \<noteq> said_of b" for b using not_self_addressing [of "said_of b"] by (simp add: said_of_def)
  have nd: "said_of drt_body \<noteq> said_of dip_body" "said_of dip_body \<noteq> said_of drt_body"
    by (simp_all add: said_of_def demo_hash_def drt_body_def dip_body_def demo_quote_def)
  show "verify_said no_docs (icp_body (said_of icp_body)) ''d'' ''E'' JsonKind = Inr ()"
    by (rule demo_said [of icp_body]) (simp_all add: is_self_addressing_def put_said_def icp_body_def ne ne [symmetric] nd)
  show "verify_said no_docs (rot_body (said_of rot_body)) ''d'' ''E'' JsonKind = Inr ()"
    by (rule demo_said [of rot_body]) (simp_all add: is_self_addressing_def put_said_def rot_body_def ne ne [symmetric] nd)
  show "verify_said no_docs (ixn_body (said_of ixn_body)) ''d'' ''E'' JsonKind = Inr ()"
    by (rule demo_said [of ixn_body]) (simp_all add: is_self_addressing_def put_said_def ixn_body_def ne ne [symmetric] nd)
  show "verify_said no_docs (dip_body (said_of dip_body)) ''d'' ''E'' JsonKind = Inr ()"
    by (rule demo_said [of dip_body]) (simp_all add: is_self_addressing_def put_said_def dip_body_def ne ne [symmetric] nd)
  show "verify_said no_docs (drt_body (said_of drt_body)) ''d'' ''E'' JsonKind = Inr ()"
    by (rule demo_said [of drt_body]) (simp_all add: is_self_addressing_def put_said_def drt_body_def ne ne [symmetric] nd)
  show "verify_said no_docs (evil_body (said_of evil_body)) ''d'' ''E'' JsonKind = Inr ()"
    by (rule demo_said [of evil_body]) (simp_all add: is_self_addressing_def put_said_def evil_body_def ne ne [symmetric] nd)
qed

text \<open>The two inceptions of \<open>key_a\<close> have different digests.\<close>

lemma demo_saids_differ: "said_of icp_body \<noteq> said_of evil_body"
proof -
  have "take 8 (rev (demo_print (icp_body blank))) \<noteq> take 8 (rev (demo_print (evil_body blank)))"
    by (simp add: icp_body_def evil_body_def demo_quote_def)
  moreover have "35 \<le> length (demo_print (icp_body blank))" "35 \<le> length (demo_print (evil_body blank))"
    by (simp_all add: icp_body_def evil_body_def demo_quote_def blank_def)
  ultimately show ?thesis by (simp add: said_of_def demo_hash_def)
qed

text \<open>So have the three events of its log.\<close>

lemma demo_saids_of_log:
  "said_of icp_body \<noteq> said_of rot_body" "said_of icp_body \<noteq> said_of ixn_body" "said_of rot_body \<noteq> said_of ixn_body"
proof -
  have "35 \<le> length (demo_print (icp_body blank))" "35 \<le> length (demo_print (rot_body blank))" "35 \<le> length (demo_print (ixn_body blank))"
    by (simp_all add: icp_body_def rot_body_def ixn_body_def demo_quote_def blank_def)
  moreover have "take 35 (demo_print (icp_body blank)) \<noteq> take 35 (demo_print (rot_body blank))"
    "take 35 (demo_print (icp_body blank)) \<noteq> take 35 (demo_print (ixn_body blank))"
    "take 35 (demo_print (rot_body blank)) \<noteq> take 35 (demo_print (ixn_body blank))"
    by (simp_all add: icp_body_def rot_body_def ixn_body_def demo_quote_def)
  ultimately show "said_of icp_body \<noteq> said_of rot_body" "said_of icp_body \<noteq> said_of ixn_body"
    "said_of rot_body \<noteq> said_of ixn_body"
    by (simp_all add: said_of_def demo_hash_def)
qed

lemma demo_icp: "kever_new no_docs icp_serder [sig_of sk_a icp_serder] [verfer_of sk_a] = Inr kever_0"
proof -
  have "serder_ilk icp_serder = Inr ''icp''"
    by (simp add: serder_ilk_def icp_serder_def serder_of_def icp_body_def get_str_def)
  moreover have "serder_verify_said no_docs icp_serder ''E'' = Inr ()"
    using demo_saids by (simp add: serder_verify_said_def icp_serder_def serder_of_def)
  moreover have "icp_from_value (serder_sad icp_serder) = Some
      \<lparr>icp_version = ''KERI10JSON000000_'', icp_ilk = ''icp'', icp_said = said_of icp_body, icp_prefix = key_a,
       icp_sn = ''0'', icp_keys_threshold = Simple 1, icp_keys = [key_a], icp_next_threshold = Simple 1,
       icp_next_keys = [next_b], icp_backer_threshold = ''0'', icp_backers = [], icp_config = [], icp_anchors = []\<rparr>"
    by (simp add: icp_from_value_def icp_fields_def struct_fields_object field_defs icp_serder_def serder_of_def
        icp_body_def)
  ultimately show ?thesis
    by (simp add: kever_new_def check_keys_def validate_prefix_derivation_def from_inception_def
        parse_sn_def parse_backer_threshold_def kever_0_def state_0_def)
qed

lemma demo_rot: "verify_update no_docs kever_0 rot_serder [sig_of sk_b rot_serder] = Inr state_1"
proof -
  have "serder_ilk rot_serder = Inr ''rot''" "serder_sn rot_serder = Inr 1"
    by (simp_all add: serder_ilk_def serder_sn_def rot_serder_def serder_of_def rot_body_def get_str_def)
  moreover have "serder_verify_said no_docs rot_serder ''E'' = Inr ()"
    using demo_saids by (simp add: serder_verify_said_def rot_serder_def serder_of_def)
  moreover have "rot_from_value (serder_sad rot_serder) = Some
      \<lparr>rot_version = ''KERI10JSON000000_'', rot_ilk = ''rot'', rot_said = said_of rot_body, rot_prefix = key_a,
       rot_sn = ''1'', rot_prior_said = said_of icp_body, rot_keys_threshold = Simple 1, rot_keys = [key_b],
       rot_next_threshold = Simple 1, rot_next_keys = [next_a], rot_backer_threshold = ''0'',
       rot_backers_remove = [], rot_backers_add = [], rot_config = [], rot_anchors = []\<rparr>"
    by (simp add: rot_from_value_def rot_fields_def struct_fields_object field_defs rot_serder_def serder_of_def
        rot_body_def)
  ultimately show ?thesis
    by (simp add: verify_update_def verfers_from_keys_def kever_0_def state_0_def state_1_def
        reject_plain_rotation_when_delegated_def apply_rotation_Inr new_backers_def)
qed

lemma demo_ixn: "verify_update no_docs kever_1 ixn_serder [sig_of sk_b ixn_serder] = Inr state_2"
proof -
  have "serder_ilk ixn_serder = Inr ''ixn''" "serder_sn ixn_serder = Inr 2"
    by (simp_all add: serder_ilk_def serder_sn_def ixn_serder_def serder_of_def ixn_body_def get_str_def)
  moreover have "serder_verify_said no_docs ixn_serder ''E'' = Inr ()"
    using demo_saids by (simp add: serder_verify_said_def ixn_serder_def serder_of_def)
  moreover have "ixn_from_value (serder_sad ixn_serder) = Some
      \<lparr>ixn_version = ''KERI10JSON000000_'', ixn_ilk = ''ixn'', ixn_said = said_of ixn_body, ixn_prefix = key_a,
       ixn_sn = ''2'', ixn_prior_said = said_of rot_body, ixn_anchors = []\<rparr>"
    by (simp add: ixn_from_value_def ixn_fields_def struct_fields_object field_defs ixn_serder_def serder_of_def
        ixn_body_def)
  ultimately show ?thesis
    by (simp add: verify_update_def build_verfers_def kever_1_def state_1_def state_2_def apply_interaction_Inr)
qed

lemma demo_delegation:
  "verify_delegation (said_of dip_body) 0 (said_of dip_body) key_a anchor_proof anchor_source = Inr ()"
  using not_self_addressing [of "said_of dip_body"]
  by (simp add: verify_delegation_def anchor_source_def anchor_proof_def seal_names_iff dip_seal_def
      seal_event_from_value_def struct_fields_object said_of_def key_a_def)

lemma key_not_Nil [simp]: "key_a \<noteq> []" "key_b \<noteq> []"
  by (simp_all add: key_a_def key_b_def)

lemma demo_dip:
  "kever_new_delegated no_docs dip_serder [sig_of sk_b dip_serder] [verfer_of sk_b] anchor_proof anchor_source
     = Inr kever_d0"
proof -
  have "serder_ilk dip_serder = Inr ''dip''"
    by (simp add: serder_ilk_def dip_serder_def serder_of_def dip_body_def get_str_def)
  moreover have "serder_verify_said no_docs dip_serder ''E'' = Inr ()"
    using demo_saids by (simp add: serder_verify_said_def dip_serder_def serder_of_def)
  moreover have "dip_from_value (serder_sad dip_serder) = Some
      \<lparr>dip_version = ''KERI10JSON000000_'', dip_ilk = ''dip'', dip_said = said_of dip_body,
       dip_prefix = said_of dip_body, dip_sn = ''0'', dip_keys_threshold = Simple 1, dip_keys = [key_b],
       dip_next_threshold = Simple 1, dip_next_keys = [next_a], dip_backer_threshold = ''0'', dip_backers = [],
       dip_config = [], dip_anchors = [], dip_delegator = key_a\<rparr>"
    by (simp add: dip_from_value_def dip_fields_def struct_fields_object field_defs dip_serder_def serder_of_def
        dip_body_def)
  ultimately show ?thesis
    using demo_delegation
    by (simp add: kever_new_delegated_def check_keys_def from_delegated_inception_def
        parse_sn_def parse_backer_threshold_def kever_d0_def state_d0_def)
qed

lemma demo_drt:
  "verify_update_delegated no_docs kever_d0 drt_serder [sig_of sk_a drt_serder] anchor_proof drt_source = Inr state_d1"
proof -
  have "serder_ilk drt_serder = Inr ''drt''" "serder_sn drt_serder = Inr 1"
    by (simp_all add: serder_ilk_def serder_sn_def drt_serder_def serder_of_def drt_body_def get_str_def)
  moreover have "serder_verify_said no_docs drt_serder ''E'' = Inr ()"
    using demo_saids by (simp add: serder_verify_said_def drt_serder_def serder_of_def)
  moreover have "drt_from_value (serder_sad drt_serder) = Some
      \<lparr>drt_version = ''KERI10JSON000000_'', drt_ilk = ''drt'', drt_said = said_of drt_body,
       drt_prefix = said_of dip_body, drt_sn = ''1'', drt_prior_said = said_of dip_body,
       drt_keys_threshold = Simple 1, drt_keys = [key_a], drt_next_threshold = Simple 1, drt_next_keys = [next_b],
       drt_backer_threshold = ''0'', drt_backers_remove = [], drt_backers_add = [], drt_config = [],
       drt_anchors = [], drt_delegator = key_a\<rparr>"
    by (simp add: drt_from_value_def drt_fields_def struct_fields_object field_defs drt_serder_def serder_of_def
        drt_body_def)
  moreover have "verify_delegation (said_of dip_body) 1 (said_of drt_body) key_a anchor_proof drt_source = Inr ()"
    using not_self_addressing [of "said_of dip_body"]
    by (simp add: verify_delegation_def drt_source_def anchor_proof_def seal_names_iff
        seal_event_from_value_def struct_fields_object said_of_def key_a_def)
  ultimately show ?thesis
    by (simp add: verify_update_delegated_def verfers_from_keys_def kever_d0_def state_d0_def state_d1_def
        apply_delegated_rotation_Inr as_rotation_def apply_rotation_Inr new_backers_def)
qed

lemma demo_evil:
  "kever_new no_docs evil_serder [evil_sig] [verfer_of sk_a, verfer_of sk_b] =
     Inr \<lparr>kv_state = state_evil, kv_incepted = True\<rparr>"
proof -
  have "serder_ilk evil_serder = Inr ''icp''"
    by (simp add: serder_ilk_def evil_serder_def serder_of_def evil_body_def get_str_def)
  moreover have "serder_verify_said no_docs evil_serder ''E'' = Inr ()"
    using demo_saids by (simp add: serder_verify_said_def evil_serder_def serder_of_def)
  moreover have "icp_from_value (serder_sad evil_serder) = Some
      \<lparr>icp_version = ''KERI10JSON000000_'', icp_ilk = ''icp'', icp_said = said_of evil_body, icp_prefix = key_a,
       icp_sn = ''0'', icp_keys_threshold = Simple 1, icp_keys = [key_a, key_b], icp_next_threshold = Simple 1,
       icp_next_keys = [next_b], icp_backer_threshold = ''0'', icp_backers = [], icp_config = [], icp_anchors = [JString ''x'']\<rparr>"
    by (simp add: icp_from_value_def icp_fields_def struct_fields_object field_defs evil_serder_def serder_of_def
        evil_body_def)
  moreover have "verify_sigs_static no_docs (serder_raw evil_serder) [evil_sig] [verfer_of sk_a, verfer_of sk_b] (Simple 1) = Inr ()"
    by (simp add: verify_sigs_static_def evil_sig_def siger_index_def siger_raw_def)
  ultimately show ?thesis
    by (simp add: kever_new_def check_keys_def validate_prefix_derivation_def from_inception_def
        parse_sn_def parse_backer_threshold_def state_evil_def state_0_def)
qed

end
