(* ===== verification/Log_Properties.thy ===== *)
theory Log_Properties
  imports Keri_Scenario
begin

section \<open>Properties of key state, verifier and key event log\<close>

text \<open>
  The properties of \<open>key_state.rs\<close>, \<open>delegation.rs\<close>, \<open>kever.rs\<close> and \<open>threshold.rs\<close>, each
  over the definitions of its component, with the log of \<open>Keri_Scenario\<close> as the input
  that its witness evaluates.
\<close>

text \<open>C1: Authority over a log. An event that the verifier accepts, plain or delegated, continues the
  identifier (same prefix and delegation, next sequence number, the digest of the previous
  event as its prior), carries a digest that verifies, and is signed by a quorum of the keys
  of the state it leads to; these are the keys in force, or keys whose digests the previous
  establishment event committed to.\<close>

theorem accepted_event_authority:
  assumes "kel_step pr kv ev = Inr kv'"
  shows "extends (serder_sad (event_serder ev)) (kv_state kv) (kv_state kv') \<and>
    serder_verify_said pr (event_serder ev) ''E'' = Inr () \<and>
    signed_by pr (serder_raw (event_serder ev)) (event_sigs ev) (kv_state kv') \<and>
    (same_authority (kv_state kv) (kv_state kv') \<or> installs pr (kv_state kv) (kv_state kv'))"
  using kel_step_facts [OF assms] by blast

theorem accepted_event_authority_witness:
  "installs no_docs state_0 state_1 \<and> signed_by no_docs (serder_raw rot_serder) [sig_of sk_b rot_serder] state_1"
proof -
  have "kel_step no_docs kever_0 (Plain rot_serder [sig_of sk_b rot_serder]) = Inr kever_1"
    using demo_rot by (simp add: kever_update_eq apply_verified_update_def kever_0_def kever_1_def)
  from accepted_event_authority [OF this] show ?thesis
    by (auto simp: kever_0_def kever_1_def same_authority_def state_0_def state_1_def key_a_def key_b_def sk_a_def sk_b_def)
qed

text \<open>C2: A log is a chain. However many events a verifier accepts, its prefix, delegation flag and delegator
  stay, its sequence number grows by their number, and each event's prior digest is the digest
  of the event before it.\<close>

theorem log_is_chain:
  assumes "kel_run pr kv es = Some kv'"
  shows "ks_prefix (kv_state kv') = ks_prefix (kv_state kv) \<and>
    ks_delegated (kv_state kv') = ks_delegated (kv_state kv) \<and>
    ks_delegator (kv_state kv') = ks_delegator (kv_state kv) \<and>
    ks_sn (kv_state kv') = ks_sn (kv_state kv) + of_nat (length es) \<and>
    map event_prior es @ [Some (ks_last_event_digest (kv_state kv'))] =
      Some (ks_last_event_digest (kv_state kv)) # map event_said es"
  using assms kel.run_ident [of pr kv es kv'] kel.run_seqno [of pr kv es kv'] kel.run_linked [of pr kv es kv']
  by (simp add: kel_run_def)

theorem log_is_chain_witness:
  "ks_sn (kv_state kever_2) = ks_sn (kv_state kever_0) + 2 \<and> ks_prefix (kv_state kever_2) = key_a"
proof -
  have "kel_run no_docs kever_0 [Plain rot_serder [sig_of sk_b rot_serder], Plain ixn_serder [sig_of sk_b ixn_serder]]
      = Some kever_2"
    using demo_rot demo_ixn
    by (simp add: kel_run_def kever_update_eq apply_verified_update_def kever_0_def kever_1_def kever_2_def)
  from log_is_chain [OF this] show ?thesis by (simp add: kever_0_def state_0_def)
qed

text \<open>C3: Every verifier that accepted events produce is initialised, its backer threshold is at most the number
  of its backers, and it names a delegator (which is not empty) exactly when it is delegated.\<close>

theorem reachable_state_ok:
  assumes "reachable pr kv"
  shows "kv_incepted kv \<and> ks_inv (kv_state kv)"
  using reachable_inv [OF assms] by (simp add: kever_inv_def)

theorem reachable_state_ok_witness: "ks_inv state_2"
proof -
  have "reachable no_docs kever_0" by (rule reachable.inception [OF demo_icp])
  moreover have "kel_step no_docs kever_0 (Plain rot_serder [sig_of sk_b rot_serder]) = Inr kever_1"
    using demo_rot by (simp add: kever_update_eq apply_verified_update_def kever_0_def kever_1_def)
  moreover have "kel_step no_docs kever_1 (Plain ixn_serder [sig_of sk_b ixn_serder]) = Inr kever_2"
    using demo_ixn by (simp add: kever_update_eq apply_verified_update_def kever_1_def kever_2_def)
  ultimately have "reachable no_docs kever_2" by (blast intro: reachable.event)
  from reachable_state_ok [OF this] show ?thesis by (simp add: kever_2_def)
qed

text \<open>C4: Inception binds the identifier. An accepted inception has a digest that verifies, is signed by a quorum of the
  keys it lists, starts at sequence number 0, is not delegated, and its prefix is the digest of
  the event itself or the first of its keys.\<close>

theorem inception_binds_prefix:
  assumes "kever_new pr s sigs verfers = Inr kv"
  shows "serder_verify_said pr s ''E'' = Inr () \<and>
    list_all2 (\<lambda>k vf. verfer_qb64 pr vf = Inr k) (ks_keys (kv_state kv)) verfers \<and>
    quorum pr (serder_raw s) verfers sigs (ks_threshold (kv_state kv)) \<and>
    ks_sn (kv_state kv) = 0 \<and> \<not> ks_delegated (kv_state kv) \<and>
    (ks_prefix (kv_state kv) = ks_said (kv_state kv) \<or>
     ks_keys (kv_state kv) \<noteq> [] \<and> ks_prefix (kv_state kv) = hd (ks_keys (kv_state kv)))"
proof -
  from assms obtain icp ks where said: "serder_verify_said pr s ''E'' = Inr ()"
    and keys: "list_all2 (\<lambda>k vf. verfer_qb64 pr vf = Inr k) (icp_keys icp) verfers"
      "quorum pr (serder_raw s) verfers sigs (icp_keys_threshold icp)"
    and pre: "validate_prefix_derivation pr icp = Inr ()"
    and st: "from_inception icp = Inr ks" and kv: "kv = \<lparr>kv_state = ks, kv_incepted = True\<rparr>"
    unfolding kever_new_Inr by blast
  from st have "ks_keys ks = icp_keys icp \<and> ks_threshold ks = icp_keys_threshold icp \<and> ks_sn ks = 0 \<and>
      \<not> ks_delegated ks \<and> ks_prefix ks = icp_prefix icp \<and> ks_said ks = icp_said icp"
    by (auto simp: from_inception_def res_simps)
  with said keys pre show ?thesis
    by (auto simp: kv validate_prefix_derivation_Inr hd_conv_nth split: if_splits)
qed

theorem inception_binds_prefix_witness:
  "ks_prefix (kv_state kever_0) = hd (ks_keys (kv_state kever_0))"
  using inception_binds_prefix [OF demo_icp] not_self_addressing [of "said_of icp_body"]
  by (auto simp: kever_0_def state_0_def said_of_def)

text \<open>C5: A delegated inception stands on its delegator: its prefix is its own digest, a quorum of the keys it
  lists signed it, and the delegator it names (another, non-empty prefix) has anchored a seal of
  exactly this event at the place the proof points to.\<close>

theorem delegated_inception_anchored:
  assumes "kever_new_delegated pr s sigs verfers dp source = Inr kv"
  shows "serder_verify_said pr s ''E'' = Inr () \<and>
    list_all2 (\<lambda>k vf. verfer_qb64 pr vf = Inr k) (ks_keys (kv_state kv)) verfers \<and>
    quorum pr (serder_raw s) verfers sigs (ks_threshold (kv_state kv)) \<and>
    ks_prefix (kv_state kv) = ks_said (kv_state kv) \<and> ks_sn (kv_state kv) = 0 \<and>
    ks_delegated (kv_state kv) \<and> anchored source dp (kv_state kv)"
proof -
  from assms obtain dip ks where said: "serder_verify_said pr s ''E'' = Inr ()"
    and keys: "list_all2 (\<lambda>k vf. verfer_qb64 pr vf = Inr k) (dip_keys dip) verfers"
    and q: "verify_sigs_static pr (serder_raw s) sigs verfers (dip_keys_threshold dip) = Inr ()"
    and pre: "dip_prefix dip = dip_said dip"
    and del: "verify_delegation (dip_prefix dip) 0 (dip_said dip) (dip_delegator dip) dp source = Inr ()"
    and st: "from_delegated_inception dip = Inr ks" and kv: "kv = \<lparr>kv_state = ks, kv_incepted = True\<rparr>"
    unfolding kever_new_delegated_Inr by blast
  from st have "ks_threshold ks = dip_keys_threshold dip \<and> ks_sn ks = 0 \<and> ks_delegated ks \<and> ks_keys ks = dip_keys dip \<and>
      ks_prefix ks = dip_prefix dip \<and> ks_said ks = dip_said dip \<and> ks_delegator ks = Some (dip_delegator dip)"
    by (auto simp: from_delegated_inception_def res_simps)
  with said keys q pre del show ?thesis
    by (auto simp: kv verify_sigs_static_iff verify_delegation_iff anchored_def)
qed

theorem delegated_inception_anchored_witness: "anchored anchor_source anchor_proof state_d0"
  using delegated_inception_anchored [OF demo_dip] by (simp add: kever_d0_def)

text \<open>C6: A delegated identifier changes hands only with its delegator. An accepted event of a delegated
  identifier leaves its keys, thresholds and backers alone, or it is a delegated rotation for
  which the delegator anchored a seal of exactly this event, and the keys it installs were
  committed to.\<close>

theorem delegated_authority:
  assumes "kel_step pr kv ev = Inr kv'" "ks_delegated (kv_state kv)"
    and "\<not> same_authority (kv_state kv) (kv_state kv')"
  shows "\<exists>s sigs dp source. ev = Delegated s sigs dp source \<and> anchored source dp (kv_state kv') \<and>
    installs pr (kv_state kv) (kv_state kv')"
proof (cases ev)
  case (Plain s sigs)
  with kel_step_state [OF assms(1)] obtain ks' where "kv_state kv' = ks'" "verify_update pr kv s sigs = Inr ks'" by auto
  with verify_update_facts [of pr kv s sigs ks'] assms(2,3) show ?thesis by auto
next
  case (Delegated s sigs dp source)
  with kel_step_state [OF assms(1)] obtain ks' where "kv_state kv' = ks'"
    "verify_update_delegated pr kv s sigs dp source = Inr ks'" by auto
  with Delegated verify_update_delegated_facts [of pr kv s sigs dp source ks'] show ?thesis by auto
qed

theorem delegated_authority_witness: "anchored drt_source anchor_proof state_d1 \<and> installs no_docs state_d0 state_d1"
proof -
  have "kel_step no_docs kever_d0 (Delegated drt_serder [sig_of sk_a drt_serder] anchor_proof drt_source)
      = Inr \<lparr>kv_state = state_d1, kv_incepted = True\<rparr>"
    using demo_drt by (simp add: apply_verified_update_def kever_d0_def)
  moreover have "ks_delegated (kv_state kever_d0)" "\<not> same_authority (kv_state kever_d0) state_d1"
    by (simp_all add: kever_d0_def same_authority_def state_d0_def state_d1_def key_a_def key_b_def sk_a_def sk_b_def)
  ultimately show ?thesis
    using delegated_authority [of no_docs kever_d0 "Delegated drt_serder [sig_of sk_a drt_serder] anchor_proof drt_source"
        "\<lparr>kv_state = state_d1, kv_incepted = True\<rparr>"]
    by (auto simp: kever_d0_def)
qed

text \<open>C7: Rotation. \<open>apply_rotation\<close> succeeds exactly on the next sequence number of this identifier, with the digest
  of the last event as prior, keys that match the committed digests one for one, and a backer
  threshold its new backers can meet: the old ones that are not cut, in their order, then each
  add that is not among them, once, in the order of its first occurrence. Then the event's keys, thresholds and
  backers are in force and everything else is kept. Any two rotations that one state accepts
  install keys of the same digests: pre-rotation leaves no choice but a collision.\<close>

theorem rotation_exact:
  "(apply_rotation pr ks e = Inr ks' \<longleftrightarrow>
     u64_from_hex (rot_sn e) = Some (ks_sn ks + 1) \<and> rot_prefix e = ks_prefix ks \<and>
     rot_prior_said e = ks_last_event_digest ks \<and>
     list_all2 (committed pr) (rot_keys e) (ks_next_keys ks) \<and>
     (\<exists>bt kept. usize_from_dec (rot_backer_threshold e) = Some bt \<and> bt \<le> length (ks_backers ks') \<and>
        kept = filter (\<lambda>b. b \<notin> set (rot_backers_remove e)) (ks_backers ks) \<and>
        ks' = \<lparr>ks_prefix = ks_prefix ks, ks_sn = ks_sn ks + 1, ks_said = rot_said e,
               ks_threshold = rot_keys_threshold e, ks_keys = rot_keys e,
               ks_next_keys = rot_next_keys e, ks_next_threshold = rot_next_threshold e,
               ks_backer_threshold = bt,
               ks_backers = kept @ filter (\<lambda>b. b \<notin> set kept) (rev (remdups (rev (rot_backers_add e)))),
               ks_config = rot_config e, ks_last_event_digest = rot_said e,
               ks_delegated = ks_delegated ks, ks_delegator = ks_delegator ks\<rparr>)) \<and>
   (apply_rotation pr ks e = Inr ks' \<and> apply_rotation pr ks e2 = Inr ks2 \<longrightarrow>
     list_all2 (\<lambda>k k2. \<exists>code \<in> set diger_codes. compute_digest pr code k = compute_digest pr code k2) (ks_keys ks') (ks_keys ks2))"
  using apply_rotation_exact rotations_agree by blast

definition backed_state :: "key_state" where
  "backed_state = state_0\<lparr>ks_backers := [''w1'', ''w2'', ''w3'']\<rparr>"

definition backed_rotation :: "rotation_event" where
  "backed_rotation =
     \<lparr>rot_version = ''KERI10JSON000000_'', rot_ilk = ''rot'', rot_said = said_of rot_body, rot_prefix = key_a,
      rot_sn = ''1'', rot_prior_said = said_of icp_body, rot_keys_threshold = Simple 1, rot_keys = [key_b],
      rot_next_threshold = Simple 1, rot_next_keys = [next_a], rot_backer_threshold = ''1'',
      rot_backers_remove = [''w2''], rot_backers_add = [''w4'', ''w1'', ''w4''], rot_config = [], rot_anchors = []\<rparr>"

theorem rotation_exact_witness:
  "apply_rotation no_docs backed_state backed_rotation =
     Inr (state_1\<lparr>ks_backer_threshold := 1, ks_backers := [''w1'', ''w3'', ''w4'']\<rparr>)"
  using rotation_exact [of no_docs backed_state backed_rotation "state_1\<lparr>ks_backer_threshold := 1, ks_backers := [''w1'', ''w3'', ''w4'']\<rparr>"
      backed_rotation "state_1\<lparr>ks_backer_threshold := 1, ks_backers := [''w1'', ''w3'', ''w4'']\<rparr>"]
  by (simp add: backed_state_def backed_rotation_def state_0_def state_1_def)

text \<open>C8: The signature check accepts exactly a quorum: \<open>verify_sigs_static\<close> succeeds iff every signature that names a
  key can be checked and the threshold is satisfied by the set of keys that some signature
  verifies under, each counted once whatever the order or number of signatures.\<close>

theorem signature_check_is_quorum:
  "verify_sigs_static pr message sigs verfers thr = Inr () \<longleftrightarrow>
     sigs_checkable pr message verfers sigs \<and> quorum pr message verfers sigs thr"
  by (rule verify_sigs_static_iff)

text \<open>C9: The receipt check. Where the couples of the backers can be checked, receipts are accepted iff at
  least the threshold of distinct backers signed the message; couples of strangers and
  repeated ones count for nothing.\<close>

theorem receipt_check_counts_backers:
  assumes "couples_checkable pr message backers couples"
  shows "verify_witness_receipts_static pr message couples backers n = Inr () \<longleftrightarrow>
    n \<le> card (vouching pr message backers couples)"
  using verify_witness_receipts_static_complete [OF assms] verify_witness_receipts_static_sound by blast

theorem receipt_check_counts_backers_witness:
  "verify_witness_receipts_static no_docs ''m'' [(key_a, demo_sign sk_a ''m''), (key_a, demo_sign sk_a ''m'')] [key_a, key_b] 1 = Inr () \<and>
   verify_witness_receipts_static no_docs ''m'' [(key_a, demo_sign sk_a ''m''), (key_a, demo_sign sk_a ''m'')] [key_a, key_b] 2 \<noteq> Inr ()"
proof -
  let ?c = "[(key_a, demo_sign sk_a ''m''), (key_a, demo_sign sk_a ''m'')]"
  have "couples_checkable no_docs ''m'' [key_a, key_b] ?c" by (simp add: couples_checkable_def)
  note iff = receipt_check_counts_backers [OF this]
  have "vouching no_docs ''m'' [key_a, key_b] ?c \<subseteq> {key_a}" "key_a \<in> vouching no_docs ''m'' [key_a, key_b] ?c"
    by (auto simp: vouching_def simp del: demo_verfer_from) simp
  then have "vouching no_docs ''m'' [key_a, key_b] ?c = {key_a}" by blast
  then show ?thesis unfolding iff by simp
qed

text \<open>C10: The variants that take the parsed value agree with the others on JSON messages: \<open>verify_update_owned\<close> with
  \<open>verify_update\<close> where the sequence number parses, \<open>new_from_parts\<close> with \<open>new\<close> but for the
  wording of the error on a delegated inception.\<close>

theorem owned_variants_agree:
  assumes "serder_kind s = JsonKind"
  shows "(is_ok (serder_sn s) \<longrightarrow>
      verify_update_owned pr kv (serder_raw s) (serder_sad s) sigs = verify_update pr kv s sigs) \<and>
    (serder_ilk s \<noteq> Inr ''dip'' \<longrightarrow>
      kever_new_from_parts pr (serder_raw s) (serder_sad s) sigs verfers = kever_new pr s sigs verfers)"
  using verify_update_owned_eq [OF assms] kever_new_from_parts_eq [OF assms] by auto

theorem owned_variants_agree_witness:
  "verify_update_owned no_docs kever_0 (serder_raw rot_serder) (serder_sad rot_serder) [sig_of sk_b rot_serder] = Inr state_1 \<and>
   kever_new_from_parts no_docs (serder_raw icp_serder) (serder_sad icp_serder) [sig_of sk_a icp_serder] [verfer_of sk_a]
     = Inr kever_0"
proof -
  have "serder_kind rot_serder = JsonKind" "serder_kind icp_serder = JsonKind" "is_ok (serder_sn rot_serder)"
    "serder_ilk icp_serder \<noteq> Inr ''dip''"
    by (simp_all add: rot_serder_def icp_serder_def serder_of_def serder_sn_def serder_ilk_def get_str_def
        rot_body_def icp_body_def)
  then show ?thesis
    using owned_variants_agree [of rot_serder no_docs kever_0] owned_variants_agree [of icp_serder no_docs]
      demo_rot demo_icp
    by simp
qed

text \<open>C11: Weighted thresholds are exact fractions. A weighted threshold read from a message is satisfied iff in every
  clause the weights of the keys that signed add up to at least one, as rationals, and the
  unreduced fraction of the sum fits 64 bits; keys are numbered through the clauses in order.\<close>

theorem weighted_threshold_exact:
  assumes "threshold_ok (Weighted cs)"
  shows "is_satisfied (Weighted cs) indices total_keys \<longleftrightarrow>
    list_all clause_met (signed_clauses indices total_keys 0 cs)"
  by (rule is_satisfied_Weighted_iff [OF assms])

definition half :: "weight" where "half = \<lparr>w_num = 1, w_den = 2\<rparr>"
definition third :: "weight" where "third = \<lparr>w_num = 1, w_den = 3\<rparr>"

theorem weighted_threshold_exact_witness:
  "is_satisfied (Weighted [[half, half], [third, third, third]]) [0, 1, 2, 3, 4] 5 \<and>
   \<not> is_satisfied (Weighted [[half, half], [third, third, third]]) [0, 1, 2, 3] 5"
proof -
  have ok: "threshold_ok (Weighted [[half, half], [third, third, third]])" by (simp add: half_def third_def)
  show ?thesis
    unfolding weighted_threshold_exact [OF ok]
    by (simp add: half_def third_def clause_met_def weight_value_def fits64_def)
qed

definition tiny :: "weight" where "tiny = \<lparr>w_num = 1, w_den = 4294967295\<rparr>"

text \<open>C12: When more signatures help. A weighted threshold that some signers satisfy stays satisfied by every larger set of signers
  if and only if, in every clause, the unreduced fraction that all its keys together give fits
  64 bits. Then the width of the integers plays no part at all: the threshold is satisfied
  iff the weights of the signers of each clause add up to at least one. Otherwise the checked
  sum overflows and adding valid signatures can turn acceptance into refusal, as with the
  weights 1 and three times 1/(2^32-1).\<close>

theorem weighted_threshold_monotone:
  assumes "threshold_ok (Weighted cs)" "sum_list (map length cs) \<le> total_keys" "is_satisfied (Weighted cs) indices total_keys"
  shows "((\<forall>I J. set I \<subseteq> set J \<longrightarrow> is_satisfied (Weighted cs) I total_keys \<longrightarrow> is_satisfied (Weighted cs) J total_keys) \<longleftrightarrow>
      list_all (\<lambda>c. fits64 (exact_sum 0 1 c)) cs) \<and>
    (list_all (\<lambda>c. fits64 (exact_sum 0 1 c)) cs \<longrightarrow>
      (\<forall>I. is_satisfied (Weighted cs) I total_keys \<longleftrightarrow>
         list_all (\<lambda>ws. 1 \<le> (\<Sum>w\<leftarrow>ws. weight_value w)) (signed_clauses I total_keys 0 cs)))"
proof -
  have "list_all (list_all (\<lambda>w. w_den w \<noteq> 0)) cs" using assms(1) by (simp add: list_all_iff)
  with is_satisfied_mono_iff [OF assms] fitting_clauses_met show ?thesis
    unfolding is_satisfied_Weighted_iff [OF assms(1)] by blast
qed

theorem weighted_threshold_monotone_witness:
  "(\<exists>I J. set I \<subseteq> set J \<and> is_satisfied (Weighted [[\<lparr>w_num = 1, w_den = 1\<rparr>, tiny, tiny, tiny]]) I 4 \<and>
       \<not> is_satisfied (Weighted [[\<lparr>w_num = 1, w_den = 1\<rparr>, tiny, tiny, tiny]]) J 4) \<and>
   is_satisfied (Weighted [[half, half], [third, third, third]]) [9, 4, 3, 2, 1, 0, 0] 5"
proof -
  let ?t = "[[\<lparr>w_num = 1, w_den = 1\<rparr>, tiny, tiny, tiny]]" and ?h = "[[half, half], [third, third, third]]"
  have ok: "threshold_ok (Weighted ?t)" "threshold_ok (Weighted ?h)" by (simp_all add: tiny_def half_def third_def)
  have sat: "is_satisfied (Weighted ?t) [0] 4" "is_satisfied (Weighted ?h) [0, 1, 2, 3, 4] 5"
    unfolding ok [THEN is_satisfied_Weighted_iff]
    by (simp_all add: tiny_def half_def third_def clause_met_def weight_value_def fits64_def)
  have fits: "\<not> list_all (\<lambda>c. fits64 (exact_sum 0 1 c)) ?t" "list_all (\<lambda>c. fits64 (exact_sum 0 1 c)) ?h"
    by (simp_all add: tiny_def half_def third_def fits64_def)
  have "sum_list (map length ?t) \<le> 4" "sum_list (map length ?h) \<le> 5" by simp_all
  note t = weighted_threshold_monotone [OF ok(1) this(1) sat(1), THEN conjunct1]
    and h = weighted_threshold_monotone [OF ok(2) this(2) sat(2), THEN conjunct1]
  have "set [0, 1, 2, 3, 4] \<subseteq> set [9, 4, 3, 2, 1, 0, 0 :: nat]" by simp
  with h fits(2) sat(2) have "is_satisfied (Weighted ?h) [9, 4, 3, 2, 1, 0, 0] 5" by blast
  moreover from t fits(1) have "\<exists>I J. set I \<subseteq> set J \<and> is_satisfied (Weighted ?t) I 4 \<and> \<not> is_satisfied (Weighted ?t) J 4" by blast
  ultimately show ?thesis by blast
qed

text \<open>The committed signing threshold of the next keys is recorded but not enforced: whatever it is, a rotation
  is accepted or refused the same way and leads to the same state.\<close>

lemma next_threshold_not_enforced:
  "apply_rotation pr (ks\<lparr>ks_next_threshold := thr\<rparr>) e = apply_rotation pr ks e"
  by (rule apply_rotation_ignores_next_threshold)

text \<open>C14: A basic prefix does not bind the key set. In an accepted inception whose prefix is a key and not the digest, that
  key is the first of the list and otherwise a key like the others: the same message without
  its signatures is accepted iff the other signers reach the threshold on their own. Only
  where it is the sole key must it have signed. So who lists the key of another first, an own key
  second and threshold 1 incepts the other's prefix alone (the witness).\<close>

theorem basic_prefix_without_its_key:
  assumes "kever_new pr s sigs vs = Inr kv" "ks_prefix (kv_state kv) \<noteq> ks_said (kv_state kv)"
  shows "ks_prefix (kv_state kv) = hd (ks_keys (kv_state kv)) \<and> length vs = length (ks_keys (kv_state kv)) \<and>
    (kever_new pr s (filter (\<lambda>g. siger_index g \<noteq> 0) sigs) vs = Inr kv \<longleftrightarrow>
       is_satisfied (ks_threshold (kv_state kv)) (filter (\<lambda>i. i \<in> signers pr (serder_raw s) vs sigs) [1..<length vs]) (length vs)) \<and>
    (length vs = 1 \<longrightarrow> 0 \<in> signers pr (serder_raw s) vs sigs)"
proof -
  from assms(1) obtain icp ks where k: "list_all2 (\<lambda>k vf. verfer_qb64 pr vf = Inr k) (icp_keys icp) vs"
    "quorum pr (serder_raw s) vs sigs (icp_keys_threshold icp)" "validate_prefix_derivation pr icp = Inr ()"
    "from_inception icp = Inr ks" "kv = \<lparr>kv_state = ks, kv_incepted = True\<rparr>"
    unfolding kever_new_Inr by blast
  from k(4) have st: "ks_keys ks = icp_keys icp \<and> ks_prefix ks = icp_prefix icp \<and> ks_said ks = icp_said icp"
    by (auto simp: from_inception_def res_simps)
  with k(3,5) assms(2) have keys: "ks_keys ks \<noteq> []" "ks_prefix ks = hd (ks_keys ks)"
    by (auto simp: validate_prefix_derivation_Inr hd_conv_nth split: if_splits)
  have len: "length vs = length (ks_keys ks)" using k(1) st by (simp add: list_all2_lengthD)
  have "0 \<in> signers pr (serder_raw s) vs sigs" if "length vs = 1"
  proof (rule ccontr)
    assume "0 \<notin> signers pr (serder_raw s) vs sigs"
    then have "filter (\<lambda>i. i \<in> signers pr (serder_raw s) vs sigs) [0..<length vs] = []" using that by simp
    with k(2) show False by (simp add: quorum_def not_satisfied_by_none)
  qed
  moreover have "[0..<length vs] = 0 # [1..<length vs]" using keys len by (simp add: upt_conv_Cons)
  then have "filter (\<lambda>i. i \<noteq> 0 \<and> i \<in> signers pr (serder_raw s) vs sigs) [0..<length vs] =
      filter (\<lambda>i. i \<in> signers pr (serder_raw s) vs sigs) [1..<length vs]"
    by (auto intro: filter_cong)
  ultimately show ?thesis using keys len kever_new_without [OF assms(1), of 0] k(5) by simp
qed

theorem basic_prefix_without_its_key_witness:
  "ks_prefix state_evil = key_a \<and> length (ks_keys state_evil) = 2 \<and>
   is_satisfied (ks_threshold state_evil)
     (filter (\<lambda>i. i \<in> signers no_docs (serder_raw evil_serder) [verfer_of sk_a, verfer_of sk_b] [evil_sig]) [1..<2]) 2"
proof -
  have ne: "ks_prefix state_evil \<noteq> ks_said state_evil"
    using not_self_addressing [of "said_of evil_body"] by (auto simp: state_evil_def state_0_def said_of_def)
  have only: "filter (\<lambda>g. siger_index g \<noteq> 0) [evil_sig] = [evil_sig]" by (simp add: evil_sig_def siger_index_def)
  have two: "length [verfer_of sk_a, verfer_of sk_b] = 2" by simp
  note facts = basic_prefix_without_its_key [OF demo_evil, unfolded only two kever.simps, OF ne]
  have "is_satisfied (ks_threshold state_evil)
     (filter (\<lambda>i. i \<in> signers no_docs (serder_raw evil_serder) [verfer_of sk_a, verfer_of sk_b] [evil_sig]) [1..<2]) 2"
    using facts demo_evil by blast
  then show ?thesis by (simp add: state_evil_def state_0_def del: is_satisfied.simps)
qed

end
