(* ===== verification/Data_Properties.thy ===== *)
theory Data_Properties
  imports Keri_Scenario
begin

section \<open>Properties of the message formats\<close>

text \<open>
  The properties of \<open>version.rs\<close>, \<open>said.rs\<close>, \<open>serder.rs\<close>, \<open>event.rs\<close>, \<open>threshold.rs\<close>,
  \<open>counter_table.rs\<close> and of the signer of \<open>affinidi-keri-crypto\<close>: what is written reads
  back, and what is accepted has the form that the writers produce.
\<close>

text \<open>C15: Version strings. Whatever the version parser accepts fits the format (four ASCII characters of protocol, two
  hexadecimal version digits, a size below 16 MiB), and printing it gives 17 characters that
  read back as the same version, whatever follows them.\<close>

theorem version_string_normal_form:
  assumes "version_parse data = Inr v"
  shows "version_ok v \<and> length (to_version_string v) = KERI_VER_FULLSIZE \<and>
    version_parse (to_version_string v @ rest) = Inr v"
proof -
  have "version_ok v" using assms by (auto simp: version_parse_Inr intro: version_parse_str_ok)
  then show ?thesis by (simp add: version_parse_Inr version_parse_str_prefix length_to_version_string)
qed

theorem version_string_normal_form_witness:
  "\<exists>v. version_parse ''KERI10JSON0000Fd_{}'' = Inr v \<and> v_size v = 253 \<and>
     version_parse (to_version_string v @ ''{}'') = Inr v"
proof -
  let ?v = "\<lparr>v_protocol = ''KERI'', v_major = 1, v_minor = 0, v_kind = JsonKind, v_size = 253\<rparr>"
  have p: "version_parse ''KERI10JSON0000Fd_{}'' = Inr ?v"
    by (simp add: version_parse_Inr version_parse_str_def KERI_VER_FULLSIZE_def hex_digit_def byte_def str_slice_def
        kind_from_tag_def usize_from_hex_def from_str_radix_def char_digit_def)
  from version_string_normal_form [OF p, of "''{}''"] show ?thesis using p by (intro exI [of _ ?v]) simp
qed

text \<open>C16: A digest that was computed verifies. The value \<open>compute_said\<close> returns passes \<open>verify_said\<close> under the same
  code and encoding, for a plain event unless its prefix happens to be the very digest.\<close>

theorem computed_said_verifies:
  assumes "compute_said pr sad label code kind = Inr (said, sad')"
    and "is_self_addressing sad label \<or> label \<noteq> ''d'' \<or> jget sad ''i'' \<noteq> Some (JString said)"
  shows "verify_said pr sad' label code kind = Inr () \<and> get_str sad' label = Some said"
proof -
  from assms(1) obtain obj where "sad = JObject obj" "sad' = put_said label (is_self_addressing sad label) said sad"
    unfolding compute_said_Inr by blast
  then have "get_str sad' label = Some said" unfolding get_str_def by (simp only: jget_put_said) simp
  with compute_said_verify [OF assms] show ?thesis by blast
qed

theorem computed_said_verifies_witness:
  "verify_said no_docs (JObject [(''d'', JString (''E'' @ demo_hash 43 (demo_print (JObject [(''d'', JString blank)]))))])
     ''d'' ''E'' JsonKind = Inr ()"
proof -
  have c: "compute_said no_docs (JObject [(''d'', JString '''')]) ''d'' ''E'' JsonKind =
    Inr (''E'' @ demo_hash 43 (demo_print (JObject [(''d'', JString blank)])),
         JObject [(''d'', JString (''E'' @ demo_hash 43 (demo_print (JObject [(''d'', JString blank)]))))])"
    by (simp add: compute_said_def is_self_addressing_def put_said_def no_docs_def blank_def [symmetric] Let_def)
       (simp add: no_docs_def [symmetric])
  from computed_said_verifies [OF c] show ?thesis by simp
qed

definition demo_doc :: "string \<Rightarrow> json" where
  "demo_doc vs = JObject [(''v'', JString vs), (''d'', JString ''x'')]"

lemma length_demo_doc: "length (demo_print (demo_doc vs)) = 16 + length vs"
  by (simp add: demo_doc_def demo_quote_def)

lemma put_version_demo_doc: "put_version ver (demo_doc vs) = demo_doc (to_version_string ver)"
  by (simp add: demo_doc_def put_version_def)

text \<open>Framing: a buffer that starts with a JSON message whose version string stands at its front and declares its
  length is read as exactly that message, whatever bytes follow.\<close>

lemma message_framing:
  assumes "v_protocol ver \<in> set protocols" "version_ok ver"
    and "raw = json_head @ to_version_string ver @ tail" "v_size ver = length raw"
    and "json_from_slice pr raw = Inr sad"
  shows "serder_from_raw pr (raw @ rest) =
    Inr \<lparr>serder_raw = raw, serder_version = Some ver, serder_kind = JsonKind, serder_sad = sad\<rparr>"
  using assms by (rule serder_from_raw_message)

definition demo_version :: "version" where
  "demo_version = \<lparr>v_protocol = ''KERI'', v_major = 1, v_minor = 0, v_kind = JsonKind, v_size = 33\<rparr>"

lemma message_framing_witness:
  "serder_from_raw (demo_prims [demo_doc (to_version_string demo_version)])
     (demo_print (demo_doc (to_version_string demo_version)) @ ''-AAB and more'') =
   Inr \<lparr>serder_raw = demo_print (demo_doc (to_version_string demo_version)), serder_version = Some demo_version,
        serder_kind = JsonKind, serder_sad = demo_doc (to_version_string demo_version)\<rparr>"
proof (rule message_framing)
  show ok: "version_ok demo_version" by (simp add: demo_version_def version_ok_def byte_def)
  show "v_protocol demo_version \<in> set protocols" by (simp add: demo_version_def protocols_def)
  show "demo_print (demo_doc (to_version_string demo_version)) =
      json_head @ to_version_string demo_version @ [CHR 0x22, CHR '','', CHR 0x22, CHR ''d'', CHR 0x22, CHR '':'',
        CHR 0x22, CHR ''x'', CHR 0x22, CHR ''}'']"
    by (simp add: demo_doc_def json_head_def demo_quote_def)
  show "v_size demo_version = length (demo_print (demo_doc (to_version_string demo_version)))"
    using length_to_version_string [OF ok] by (simp add: length_demo_doc KERI_VER_FULLSIZE_def) (simp add: demo_version_def)
  show "json_from_slice (demo_prims [demo_doc (to_version_string demo_version)])
      (demo_print (demo_doc (to_version_string demo_version))) = Inr (demo_doc (to_version_string demo_version))"
    by (simp add: demo_read_def)
qed

text \<open>The accessors of a typed event agree with those of the message that holds its value.\<close>

lemma typed_event_fields:
  assumes "serder_sad m = (case e of Inception i \<Rightarrow> icp_to_value i | Rotation r \<Rightarrow> rot_to_value r | Interaction x \<Rightarrow> ixn_to_value x
    | DelegatedInception d \<Rightarrow> dip_to_value d | DelegatedRotation r \<Rightarrow> drt_to_value r)"
  shows "serder_prefix m = Inr (key_event_prefix e)" "serder_said m = Inr (key_event_said e)"
    "serder_sn m = Inr n \<longleftrightarrow> key_event_sn e = Inr n" "get_str (serder_sad m) ''v'' = Some (key_event_version e)"
  using assms
  by (cases e; simp add: serder_prefix_def serder_said_def serder_sn_def key_event_sn_def get_str_def icp_to_value_def rot_to_value_def
      ixn_to_value_def dip_to_value_def drt_to_value_def)+

text \<open>C20: Thresholds normalise. What the threshold parser accepts is at least 1, has no empty clause and no zero
  denominator, and its printed form parses back to it.\<close>

theorem threshold_normal_form:
  assumes "threshold_from_json_value v = Inr t"
  shows "threshold_ok t \<and> threshold_from_json_value (threshold_to_json_value t) = Inr t"
  using threshold_from_json_ok [OF assms] threshold_json_round_trip by blast

theorem threshold_normal_form_witness:
  "threshold_from_json_value (JArray [JArray [JString ''1/2'', JString ''03'']]) =
     Inr (Weighted [[\<lparr>w_num = 1, w_den = 2\<rparr>, \<lparr>w_num = 3, w_den = 1\<rparr>]]) \<and>
   threshold_ok (Weighted [[\<lparr>w_num = 1, w_den = 2\<rparr>, \<lparr>w_num = 3, w_den = 1\<rparr>]])"
proof -
  have "threshold_from_json_value (JArray [JArray [JString ''1/2'', JString ''03'']]) =
     Inr (Weighted [[\<lparr>w_num = 1, w_den = 2\<rparr>, \<lparr>w_num = 3, w_den = 1\<rparr>]])"
    by (simp add: clause_from_json_def weight_parse_def weight_new_def u32_from_dec_def from_str_radix_def
        char_digit_def byte_def)
  with threshold_normal_form [OF this] show ?thesis by blast
qed

text \<open>C21: Signing. A signer that its constructor made signs every message, the signature verifies under its own public
  key, and the text of that key reads back as the key. As a cigar or as an indexed signature
  it verifies on its own; a cigar reads back from its text but for the key, which the text
  does not carry, and an indexed signature keeps its index.\<close>

theorem signer_signs_and_verifies:
  assumes "matter_laws pr" "signature_laws pr" "indexer_laws pr"
    and "signer_new_with_transferable pr code seed transferable = Inr s"
  shows "(\<exists>sig. sign_raw pr s m = Inr sig \<and> verfer_verify pr (sn_verfer s) m sig = Inr True) \<and>
    (\<exists>q. verfer_qb64 pr (sn_verfer s) = Inr q \<and> verfer_from_qb64 pr q = Inr (sn_verfer s)) \<and>
    verfer_transferable (sn_verfer s) = transferable \<and>
    (\<forall>c. signer_sign pr s m = Inr c \<longrightarrow> cigar_verify pr c m = Inr True \<and>
       (\<exists>q c'. cigar_qb64 pr c = Inr q \<and> cigar_from_qb64 pr q = Inr c' \<and> cigar_set_verfer c' (sn_verfer s) = c)) \<and>
    (\<forall>i only g. signer_sign_indexed pr s m i only = Inr g \<longrightarrow> siger_verify pr g m = Inr True \<and> siger_index g = i)"
proof -
  note ok = signer_new_ok [OF assms(4)]
  have "sn_transferable s = transferable"
    using assms(4) by (auto simp: signer_new_with_transferable_def res_simps)
  with signer_transferable_verfer [OF assms(1) ok] have "verfer_transferable (sn_verfer s) = transferable" by simp
  with sign_raw_total [OF assms(1) ok, of m] sign_raw_verifies [OF assms(1,2) ok, of m] signer_verfer_qb64 [OF assms(1) ok]
    sign_cigar_verifies [OF assms(1,2) ok, of m] sign_siger_verifies [OF assms(1-3) ok, of m]
  show ?thesis by blast
qed

theorem signer_signs_and_verifies_witness:
  "\<exists>s sig. signer_new_with_transferable no_docs ''A'' sk_a True = Inr s \<and> sign_raw no_docs s ''m'' = Inr sig \<and>
     verfer_verify no_docs (sn_verfer s) ''m'' sig = Inr True"
proof -
  obtain s where s: "signer_new_with_transferable no_docs ''A'' sk_a True = Inr s"
    by (simp add: signer_new_with_transferable_def derive_verfer_def algorithm_from_code_def no_docs_def
        demo_prims_def verfer_new_def verfer_validate_code_def verfer_codes_def demo_matter_new_def demo_sizes_def)
  have "indexer_laws no_docs" by (simp add: indexer_laws_def no_docs_def demo_prims_def demo_indexer_new_def)
  with signer_signs_and_verifies [OF _ _ _ s, of "''m''"] show ?thesis
    using s demo_matter_laws [of "[]"] demo_signature_laws [of "[]"] by (auto simp: no_docs_def)
qed

end
