(* ===== verification/Keri_Parser.thy ===== *)
theory Keri_Parser
  imports Keri_Serder
begin

section \<open>Parser for message streams\<close>

text \<open>
  \<open>affinidi-keri-core/src/parser.rs\<close>. The source keeps an offset into a buffer; the model
  passes the rest of the buffer and returns what was consumed. \<open>parse_attachments\<close> calls
  itself on the contents of wrapper groups, so it takes fuel; \<open>None\<close> is "out of fuel",
  which \<open>parse_attachments_total\<close> excludes for the fuel \<open>parse_next\<close> gives it, provided
  the counter parser keeps to its documentation (\<open>counter_laws\<close>).
\<close>

definition MAX_ATTACHMENT_COUNT :: "nat" where
  "MAX_ATTACHMENT_COUNT = 4096"

definition MIN_PRIMITIVE_SIZE :: "nat" where
  "MIN_PRIMITIVE_SIZE = 4"

record trans_idx_sig_group =
  tg_prefix :: string
  tg_sn :: string
  tg_said :: string
  tg_sigs :: "siger list"

datatype attachment =
    ControllerSigs "siger list"
  | WitnessSigs "siger list"
  | ReceiptCouples "(string \<times> bytes) list"
  | FirstSeenReplay "(string \<times> string) list"
  | SealSourceCouples "(string \<times> string) list"
  | TransIdxSigGroups "trans_idx_sig_group list"
  | Unknown string nat bytes

record parsed_message =
  pm_serder :: serder
  pm_attachments :: "attachment list"


subsection \<open>Accessors\<close>

fun find_map :: "('a \<Rightarrow> 'b option) \<Rightarrow> 'a list \<Rightarrow> 'b option" where
  "find_map f [] = None"
| "find_map f (x # xs) = (case f x of Some y \<Rightarrow> Some y | None \<Rightarrow> find_map f xs)"

definition unwrap_or :: "'a \<Rightarrow> 'a option \<Rightarrow> 'a" where
  "unwrap_or d o' = (case o' of Some x \<Rightarrow> x | None \<Rightarrow> d)"

definition controller_sigs :: "parsed_message \<Rightarrow> siger list" where
  "controller_sigs m =
     unwrap_or [] (find_map (\<lambda>a. case a of ControllerSigs s \<Rightarrow> Some s | _ \<Rightarrow> None) (pm_attachments m))"

definition witness_sigs :: "parsed_message \<Rightarrow> siger list" where
  "witness_sigs m =
     unwrap_or [] (find_map (\<lambda>a. case a of WitnessSigs s \<Rightarrow> Some s | _ \<Rightarrow> None) (pm_attachments m))"

definition seal_source_couples :: "parsed_message \<Rightarrow> (string \<times> string) list" where
  "seal_source_couples m =
     unwrap_or [] (find_map (\<lambda>a. case a of SealSourceCouples c \<Rightarrow> Some c | _ \<Rightarrow> None) (pm_attachments m))"

definition trans_idx_sig_groups :: "parsed_message \<Rightarrow> trans_idx_sig_group list" where
  "trans_idx_sig_groups m =
     unwrap_or [] (find_map (\<lambda>a. case a of TransIdxSigGroups g \<Rightarrow> Some g | _ \<Rightarrow> None) (pm_attachments m))"

fun is_unknown :: "attachment \<Rightarrow> bool" where
  "is_unknown (Unknown _ _ _) = True"
| "is_unknown _ = False"

definition has_uninterpreted_attachments :: "parsed_message \<Rightarrow> bool" where
  "has_uninterpreted_attachments m = list_ex is_unknown (pm_attachments m)"


subsection \<open>Primitives and counted groups\<close>

definition parse_matter_qb64 :: "prims \<Rightarrow> string \<Rightarrow> (string \<times> nat) core_result" where
  "parse_matter_qb64 pr text =
     (case text of
        [] \<Rightarrow> Inl (ParseError ''empty data'')
      | first_char # _ \<Rightarrow>
          bindR (ok_or (ParseError ''unknown hardage'') (hardage pr first_char)) (\<lambda>hs.
          if length text < hs then Inl (ParseError ''truncated code'')
          else
            bindR (ok_or (ParseError ''unknown matter code'') (matter_fs pr (take hs text))) (\<lambda>fs.
            if fs = 0 then Inl (ParseError ''variable-length primitive not supported in couples'')
            else if length text < fs then Inl (ParseError ''truncated primitive'')
            else Inr (take fs text, fs))))"

fun parse_pairs_loop :: "prims \<Rightarrow> nat \<Rightarrow> string \<Rightarrow> ((string \<times> string) list \<times> nat) core_result" where
  "parse_pairs_loop pr 0 text = Inr ([], 0)"
| "parse_pairs_loop pr (Suc n) text =
     bindR (parse_matter_qb64 pr text) (\<lambda>(first, first_size).
     bindR (parse_matter_qb64 pr (drop first_size text)) (\<lambda>(second, second_size).
     bindR (parse_pairs_loop pr n (drop (first_size + second_size) text)) (\<lambda>(couples, consumed).
     Inr ((first, second) # couples, first_size + second_size + consumed))))"

definition parse_qb64_pairs :: "prims \<Rightarrow> bytes \<Rightarrow> nat \<Rightarrow> ((string \<times> string) list \<times> nat) core_result" where
  "parse_qb64_pairs pr data count =
     (if MAX_ATTACHMENT_COUNT < count then Inl (ParseError ''couple count exceeds maximum'')
      else if length data < count * MIN_PRIMITIVE_SIZE * 2 then
        Inl (ParseError ''couple count requires more bytes than available'')
      else if \<not> is_ascii data then Inl (ParseError ''couple data contains non-ASCII bytes'')
      else parse_pairs_loop pr count data)"

fun parse_receipts_loop :: "prims \<Rightarrow> nat \<Rightarrow> string \<Rightarrow> ((string \<times> bytes) list \<times> nat) core_result" where
  "parse_receipts_loop pr 0 text = Inr ([], 0)"
| "parse_receipts_loop pr (Suc n) text =
     bindR (parse_matter_qb64 pr text) (\<lambda>(prefix_qb64, prefix_size).
     bindR (parse_matter_qb64 pr (drop prefix_size text)) (\<lambda>(sig_qb64, sig_size).
     bindR (map_err (\<lambda>_. ParseError ''failed to parse sig matter'') (matter_from_qb64 pr sig_qb64)) (\<lambda>sig_matter.
     bindR (parse_receipts_loop pr n (drop (prefix_size + sig_size) text)) (\<lambda>(couples, consumed).
     Inr ((prefix_qb64, mat_raw sig_matter) # couples, prefix_size + sig_size + consumed)))))"

definition parse_receipt_couples :: "prims \<Rightarrow> bytes \<Rightarrow> nat \<Rightarrow> ((string \<times> bytes) list \<times> nat) core_result" where
  "parse_receipt_couples pr data count =
     (if MAX_ATTACHMENT_COUNT < count then Inl (ParseError ''receipt couple count exceeds maximum'')
      else if length data < count * MIN_PRIMITIVE_SIZE * 2 then
        Inl (ParseError ''receipt couple count requires more bytes than available'')
      else if \<not> is_ascii data then Inl (ParseError ''receipt couple data contains non-ASCII bytes'')
      else parse_receipts_loop pr count data)"

fun parse_sigs_loop :: "prims \<Rightarrow> nat \<Rightarrow> string \<Rightarrow> (siger list \<times> nat) core_result" where
  "parse_sigs_loop pr 0 text = Inr ([], 0)"
| "parse_sigs_loop pr (Suc n) text =
     (case text of
        [] \<Rightarrow> Inl (ParseError ''unexpected end of data while parsing indexed sig'')
      | first_char # _ \<Rightarrow>
          bindR (ok_or (ParseError ''unknown hardage'') (hardage pr first_char)) (\<lambda>hs.
          if length text < hs then Inl (ParseError ''truncated indexer code'')
          else
            bindR (ok_or (ParseError ''unknown indexer code'') (indexer_fs pr (take hs text))) (\<lambda>fs.
            if length text < fs then Inl (ParseError ''truncated indexed sig'')
            else
              bindR (map_err (\<lambda>_. ParseError ''failed to parse indexer'') (indexer_from_qb64 pr (take fs text))) (\<lambda>ix.
              bindR (crypto (siger_new pr (idx_code ix) (idx_index ix) (idx_ondex ix) (idx_raw ix))) (\<lambda>siger'.
              bindR (parse_sigs_loop pr n (drop fs text)) (\<lambda>(sigers, consumed).
              Inr (siger' # sigers, fs + consumed)))))))"

definition parse_indexed_sigs :: "prims \<Rightarrow> bytes \<Rightarrow> nat \<Rightarrow> (siger list \<times> nat) core_result" where
  "parse_indexed_sigs pr data count =
     (if MAX_ATTACHMENT_COUNT < count then Inl (ParseError ''indexed sig count exceeds maximum'')
      else if length data < count * MIN_PRIMITIVE_SIZE then
        Inl (ParseError ''indexed sig count requires more bytes than available'')
      else if \<not> is_ascii data then Inl (ParseError ''indexed sig data contains non-ASCII bytes'')
      else parse_sigs_loop pr count data)"


subsection \<open>Attachment groups\<close>

text \<open>Sequencing of results that may run out of fuel.\<close>

definition bindF :: "('e + 'a) option \<Rightarrow> ('a \<Rightarrow> ('e + 'b) option) \<Rightarrow> ('e + 'b) option" where
  "bindF r f = (case r of None \<Rightarrow> None | Some (Inl e) \<Rightarrow> Some (Inl e) | Some (Inr v) \<Rightarrow> f v)"

lemma bindF_simps [simp]:
  "bindF None f = None"
  "bindF (Some (Inl e)) f = Some (Inl e)"
  "bindF (Some (Inr v)) f = f v"
  by (simp_all add: bindF_def)

lemma bindF_eq_Inr [res_simps]:
  "bindF r f = Some (Inr v) \<longleftrightarrow> (\<exists>a. r = Some (Inr a) \<and> f a = Some (Inr v))"
  by (auto simp: bindF_def split: option.splits sum.splits)

lemma bindF_eq_None: "bindF r f = None \<longleftrightarrow> r = None \<or> (\<exists>a. r = Some (Inr a) \<and> f a = None)"
  by (auto simp: bindF_def split: option.splits sum.splits)

lemma bindF_cong [fundef_cong]:
  "r = r' \<Longrightarrow> (\<And>v. r' = Some (Inr v) \<Longrightarrow> f v = g v) \<Longrightarrow> bindF r f = bindF r' g"
  by (auto simp: bindF_def split: option.splits sum.splits)

type_synonym att_parser = "bytes \<Rightarrow> ((attachment list \<times> nat) core_result) option"

text \<open>The signatures of the nested group; anything else in it is an error.\<close>

fun only_controller_sigs :: "attachment list \<Rightarrow> siger list core_result" where
  "only_controller_sigs [] = Inr []"
| "only_controller_sigs (ControllerSigs s # as) = bindR (only_controller_sigs as) (\<lambda>ss. Inr (s @ ss))"
| "only_controller_sigs (_ # as) =
     Inl (ParseError ''transferable sig group contains another group where indexed signatures were expected'')"

fun parse_trans_loop ::
  "prims \<Rightarrow> att_parser \<Rightarrow> nat \<Rightarrow> bytes \<Rightarrow> ((trans_idx_sig_group list \<times> nat) core_result) option" where
  "parse_trans_loop pr inner 0 text = Some (Inr ([], 0))"
| "parse_trans_loop pr inner (Suc n) text =
     bindF (Some (parse_matter_qb64 pr text)) (\<lambda>(prefix', n1).
     bindF (Some (parse_matter_qb64 pr (drop n1 text))) (\<lambda>(sn, n2).
     bindF (Some (parse_matter_qb64 pr (drop (n1 + n2) text))) (\<lambda>(said, n3).
     bindF (inner (drop (n1 + n2 + n3) text)) (\<lambda>(atts, n4).
     bindF (Some (only_controller_sigs atts)) (\<lambda>sigs.
     if sigs = [] then Some (Inl (ParseError ''transferable sig group carries no signatures''))
     else
       bindF (parse_trans_loop pr inner n (drop (n1 + n2 + n3 + n4) text)) (\<lambda>(groups, consumed).
       Some (Inr (\<lparr>tg_prefix = prefix', tg_sn = sn, tg_said = said, tg_sigs = sigs\<rparr> # groups,
                  n1 + n2 + n3 + n4 + consumed))))))))"

definition parse_trans_idx_sig_groups ::
  "prims \<Rightarrow> att_parser \<Rightarrow> bytes \<Rightarrow> nat \<Rightarrow> ((trans_idx_sig_group list \<times> nat) core_result) option" where
  "parse_trans_idx_sig_groups pr inner data count =
     (if MAX_ATTACHMENT_COUNT < count then Some (Inl (ParseError ''transferable sig group count exceeds maximum''))
      else if \<not> is_ascii data then Some (Inl (ParseError ''transferable sig group data contains non-ASCII bytes''))
      else parse_trans_loop pr inner count data)"

text \<open>
  A wrapper group: exactly \<open>count\<close> quadlets, all of which its contents must account for.
  (That the byte length or the end of the span overflow \<open>usize\<close> are separate checks in
  the source; either is an error here as there, since no buffer is that long.)
\<close>

definition parse_quadlets :: "att_parser \<Rightarrow> bytes \<Rightarrow> nat \<Rightarrow> ((attachment list \<times> nat) core_result) option" where
  "parse_quadlets inner data count =
     (let byte_len = count * 4 in
      if 2 ^ 64 \<le> byte_len then Some (Inl (ParseError ''quadlet count overflows''))
      else if length data < byte_len then Some (Inl (ParseError ''attachment group extends past the stream''))
      else
        bindF (inner (take byte_len data)) (\<lambda>(atts, consumed).
        if consumed \<noteq> byte_len then
          Some (Inl (ParseError ''attachment group contents do not fill its declared length''))
        else Some (Inr (atts, byte_len))))"

text \<open>A counter whose group has no parser ends lenient parsing and fails strict parsing.\<close>

definition unknown_group :: "bool \<Rightarrow> string \<Rightarrow> nat \<Rightarrow> bytes \<Rightarrow> (attachment list \<times> nat) core_result" where
  "unknown_group strict code count data =
     (if strict then Inl (ParseError ''attachment group is not supported; refusing to guess its length'')
      else Inr ([Unknown code count data], length data))"

definition parse_group ::
  "prims \<Rightarrow> bool \<Rightarrow> att_parser \<Rightarrow> string \<Rightarrow> nat \<Rightarrow> group_kind option \<Rightarrow> att_parser" where
  "parse_group pr strict inner code count kind data =
     (case kind of
        None \<Rightarrow> Some (unknown_group strict code count data)
      | Some AttachedMaterialQuadlets \<Rightarrow> parse_quadlets inner data count
      | Some ControllerIdxSigs \<Rightarrow>
          Some (bindR (parse_indexed_sigs pr data count) (\<lambda>(s, consumed). Inr ([ControllerSigs s], consumed)))
      | Some WitnessIdxSigs \<Rightarrow>
          Some (bindR (parse_indexed_sigs pr data count) (\<lambda>(s, consumed). Inr ([WitnessSigs s], consumed)))
      | Some NonTransReceiptCouples \<Rightarrow>
          Some (bindR (parse_receipt_couples pr data count) (\<lambda>(c, consumed). Inr ([ReceiptCouples c], consumed)))
      | Some FirstSeenReplayCouples \<Rightarrow>
          Some (bindR (parse_qb64_pairs pr data count) (\<lambda>(c, consumed). Inr ([FirstSeenReplay c], consumed)))
      | Some SealSourceCouplesK \<Rightarrow>
          Some (bindR (parse_qb64_pairs pr data count) (\<lambda>(c, consumed). Inr ([SealSourceCouples c], consumed)))
      | Some TransIdxSigGroupsK \<Rightarrow>
          bindF (parse_trans_idx_sig_groups pr inner data count) (\<lambda>(g, consumed).
          Some (Inr ([TransIdxSigGroups g], consumed)))
      | Some TransReceiptQuadruples \<Rightarrow> Some (unknown_group strict code count data))"

primrec parse_attachments :: "nat \<Rightarrow> prims \<Rightarrow> counter_table \<Rightarrow> bool \<Rightarrow> att_parser" where
  "parse_attachments 0 pr table strict data = None"
| "parse_attachments (Suc fuel) pr table strict data =
     (if data = [] \<or> hd data \<noteq> CHR ''-'' then Some (Inr ([], 0))
      else if \<not> is_ascii data then Some (Inl (ParseError ''attachment data contains non-ASCII bytes''))
      else
        bindF (Some (map_err (\<lambda>_. ParseError ''failed to parse counter'') (counter_from_qb64 pr data))) (\<lambda>c.
        bindF (parse_group pr strict (parse_attachments fuel pr table strict) (ctr_code c) (ctr_count c)
                 (classify (ctr_code c) table) (drop (counter_full_size pr c) data)) (\<lambda>(atts, consumed).
        bindF (parse_attachments fuel pr table strict (drop (counter_full_size pr c + consumed) data)) (\<lambda>(rest, more).
        Some (Inr (atts @ rest, counter_full_size pr c + consumed + more))))))"


subsection \<open>Messages\<close>

definition table_for :: "serder \<Rightarrow> counter_table" where
  "table_for s =
     (case serder_version s of None \<Rightarrow> default | Some v \<Rightarrow> table_from_major (unat (v_major v)))"

definition parse_next_sad :: "prims \<Rightarrow> bytes \<Rightarrow> bool \<Rightarrow> ((parsed_message \<times> nat) core_result) option" where
  "parse_next_sad pr stream strict =
     bindF (Some (serder_from_raw pr stream)) (\<lambda>s.
     let rest = drop (serder_size s) stream in
     bindF (parse_attachments (Suc (length rest)) pr (table_for s) strict rest) (\<lambda>(atts, att_consumed).
     Some (Inr (\<lparr>pm_serder = s, pm_attachments = atts\<rparr>, serder_size s + att_consumed))))"

definition is_cbor_start :: "char \<Rightarrow> bool" where
  "is_cbor_start c =
     (let b = byte c in 160 \<le> b \<and> b \<le> 183 \<or> b = 184 \<or> b = 185 \<or> b = 186 \<or> b = 187 \<or> b = 191)"

definition is_msgpack_start :: "char \<Rightarrow> bool" where
  "is_msgpack_start c = (let b = byte c in 128 \<le> b \<and> b \<le> 143 \<or> b = 222 \<or> b = 223)"

definition parse_next_inner :: "prims \<Rightarrow> bytes \<Rightarrow> bool \<Rightarrow> ((parsed_message \<times> nat) core_result) option" where
  "parse_next_inner pr stream strict =
     (case stream of
        [] \<Rightarrow> Some (Inl (ParseError ''empty stream''))
      | c # _ \<Rightarrow>
          if c = CHR ''{'' \<or> is_cbor_start c \<or> is_msgpack_start c then parse_next_sad pr stream strict
          else Some (Inl (ParseError ''unrecognized stream start byte'')))"

definition parse_next :: "prims \<Rightarrow> bytes \<Rightarrow> ((parsed_message \<times> nat) core_result) option" where
  "parse_next pr stream = parse_next_inner pr stream True"

definition parse_next_lenient :: "prims \<Rightarrow> bytes \<Rightarrow> ((parsed_message \<times> nat) core_result) option" where
  "parse_next_lenient pr stream = parse_next_inner pr stream False"

lemma drop_dropWhile_less: "dropWhile P s \<noteq> [] \<Longrightarrow> 0 < n \<Longrightarrow> length (drop n (dropWhile P s)) < length s"
proof -
  assume "dropWhile P s \<noteq> []" "0 < n"
  then have "length (drop n (dropWhile P s)) < length (dropWhile P s)" by simp
  also have "\<dots> \<le> length s" by (rule length_dropWhile_le)
  finally show ?thesis .
qed

function parse_all_inner :: "prims \<Rightarrow> bytes \<Rightarrow> bool \<Rightarrow> (parsed_message list core_result) option" where
  "parse_all_inner pr stream strict =
     (let stream' = dropWhile is_ascii_whitespace stream in
      if stream' = [] then Some (Inr [])
      else
        bindF (parse_next_inner pr stream' strict) (\<lambda>(msg, consumed).
        if consumed = 0 then Some (Inl (ParseError ''parse_next consumed zero bytes''))
        else
          bindF (parse_all_inner pr (drop consumed stream') strict) (\<lambda>msgs.
          Some (Inr (msg # msgs)))))"
  by pat_completeness auto

termination
  by (relation "measure (\<lambda>(pr, stream, strict). length stream)")
     (auto simp: drop_dropWhile_less simp del: length_drop)

declare parse_all_inner.simps [simp del]

definition parse_all :: "prims \<Rightarrow> bytes \<Rightarrow> (parsed_message list core_result) option" where
  "parse_all pr stream = parse_all_inner pr stream True"

definition parse_all_lenient :: "prims \<Rightarrow> bytes \<Rightarrow> (parsed_message list core_result) option" where
  "parse_all_lenient pr stream = parse_all_inner pr stream False"


subsection \<open>What is consumed\<close>

lemma parse_matter_qb64_Inr:
  "parse_matter_qb64 pr text = Inr (q, n) \<Longrightarrow> q = take n text \<and> 0 < n \<and> n \<le> length text"
  by (auto simp: parse_matter_qb64_def res_simps split: list.splits)

lemma parse_pairs_loop_Inr:
  "parse_pairs_loop pr k text = Inr (cs, n) \<Longrightarrow> length cs = k \<and> n \<le> length text"
proof (induction pr k "text" arbitrary: cs n rule: parse_pairs_loop.induct)
  case (2 pr k s)
  then show ?case by (fastforce simp: res_simps dest: parse_matter_qb64_Inr)
qed simp

lemma parse_receipts_loop_Inr:
  "parse_receipts_loop pr k text = Inr (cs, n) \<Longrightarrow> length cs = k \<and> n \<le> length text"
proof (induction pr k "text" arbitrary: cs n rule: parse_receipts_loop.induct)
  case (2 pr k s)
  then show ?case by (fastforce simp: res_simps dest: parse_matter_qb64_Inr)
qed simp

lemma parse_sigs_loop_Inr:
  "parse_sigs_loop pr k text = Inr (ss, n) \<Longrightarrow> length ss = k \<and> n \<le> length text"
proof (induction pr k "text" arbitrary: ss n rule: parse_sigs_loop.induct)
  case (2 pr k s)
  then show ?case by (fastforce simp: res_simps split: list.splits)
qed simp

lemma parse_trans_loop_Inr:
  assumes inner: "\<And>d a n. inner d = Some (Inr (a, n)) \<Longrightarrow> n \<le> length d"
  shows "parse_trans_loop pr inner k text = Some (Inr (gs, n)) \<Longrightarrow> length gs = k \<and> n \<le> length text"
proof (induction k arbitrary: "text" gs n)
  case (Suc k)
  then obtain p1 n1 p2 n2 p3 n3 atts n4 gs' n5 where
    "parse_matter_qb64 pr text = Inr (p1, n1)" "parse_matter_qb64 pr (drop n1 text) = Inr (p2, n2)"
    "parse_matter_qb64 pr (drop (n1 + n2) text) = Inr (p3, n3)"
    "inner (drop (n1 + n2 + n3) text) = Some (Inr (atts, n4))"
    "parse_trans_loop pr inner k (drop (n1 + n2 + n3 + n4) text) = Some (Inr (gs', n5))"
    and n: "n = n1 + n2 + n3 + n4 + n5" "length gs = Suc (length gs')"
    by (auto simp: res_simps split: if_splits)
  with Suc.IH [of "drop (n1 + n2 + n3 + n4) text" gs' n5] inner [of "drop (n1 + n2 + n3) text" atts n4]
    parse_matter_qb64_Inr [of pr "text"] parse_matter_qb64_Inr [of pr "drop n1 text"]
    parse_matter_qb64_Inr [of pr "drop (n1 + n2) text"]
  show ?case by fastforce
qed simp

lemma parse_group_consumed:
  assumes inner: "\<And>d a n. inner d = Some (Inr (a, n)) \<Longrightarrow> n \<le> length d"
    and p: "parse_group pr strict inner code count kind data = Some (Inr (atts, n))"
  shows "n \<le> length data"
proof -
  have "n \<le> length data" if "parse_quadlets inner data count = Some (Inr (atts, n))"
    using that by (auto simp: parse_quadlets_def res_simps Let_def split: if_splits)
  moreover have "n \<le> length data" if "parse_trans_idx_sig_groups pr inner data count = Some (Inr (g, n))" for g
    using that parse_trans_loop_Inr [of inner pr count data g n] inner
    by (auto simp: parse_trans_idx_sig_groups_def split: if_splits)
  ultimately show ?thesis
    using p
    by (auto simp: parse_group_def unknown_group_def parse_indexed_sigs_def parse_receipt_couples_def
        parse_qb64_pairs_def res_simps split: option.splits group_kind.splits if_splits
        dest: parse_sigs_loop_Inr parse_receipts_loop_Inr parse_pairs_loop_Inr)
qed

text \<open>\<open>Counter::from_qb64\<close> reads a counter off the front: some characters that are there.\<close>

definition counter_laws :: "prims \<Rightarrow> bool" where
  "counter_laws pr \<longleftrightarrow>
     (\<forall>data c. counter_from_qb64 pr data = Inr c \<longrightarrow>
        0 < counter_full_size pr c \<and> counter_full_size pr c \<le> length data)"

lemma parse_attachments_consumed:
  assumes laws: "counter_laws pr"
  shows "parse_attachments fuel pr table strict data = Some (Inr (atts, n)) \<Longrightarrow> n \<le> length data"
proof (induction fuel arbitrary: data atts n)
  case (Suc fuel)
  show ?case
  proof (cases "data = [] \<or> hd data \<noteq> CHR ''-''")
    case False
    with Suc.prems obtain c a1 n1 a2 n2 where c: "counter_from_qb64 pr data = Inr c"
      and g: "parse_group pr strict (parse_attachments fuel pr table strict) (ctr_code c) (ctr_count c)
        (classify (ctr_code c) table) (drop (counter_full_size pr c) data) = Some (Inr (a1, n1))"
      and r: "parse_attachments fuel pr table strict (drop (counter_full_size pr c + n1) data) = Some (Inr (a2, n2))"
      and n: "n = counter_full_size pr c + n1 + n2"
      by (auto simp: res_simps split: if_splits)
    have "counter_full_size pr c \<le> length data" using laws c by (simp add: counter_laws_def)
    moreover have "n1 \<le> length (drop (counter_full_size pr c) data)"
      using g by (rule parse_group_consumed [rotated]) (rule Suc.IH)
    ultimately show ?thesis using Suc.IH [OF r] n by simp
  qed (use Suc.prems in auto)
qed simp


subsection \<open>Enough fuel\<close>

lemma parse_trans_loop_total:
  "(\<And>d. length d \<le> length text \<Longrightarrow> inner d \<noteq> None) \<Longrightarrow> parse_trans_loop pr inner k text \<noteq> None"
proof (induction k arbitrary: "text")
  case (Suc k)
  have "parse_trans_loop pr inner k (drop n text) \<noteq> None" "inner (drop n text) \<noteq> None" for n
    using Suc.prems by (intro Suc.IH Suc.prems; simp del: not_None_eq)+
  then show ?case by (simp add: bindF_eq_None split: prod.splits del: not_None_eq)
qed simp

lemma parse_group_total:
  assumes "\<And>d. length d \<le> length data \<Longrightarrow> inner d \<noteq> None"
  shows "parse_group pr strict inner code count kind data \<noteq> None"
  using assms parse_trans_loop_total [of data inner pr count]
  by (auto simp: parse_group_def parse_quadlets_def parse_trans_idx_sig_groups_def bindF_eq_None Let_def
      split: option.splits group_kind.splits simp del: not_None_eq)

lemma parse_attachments_total:
  assumes laws: "counter_laws pr"
  shows "length data < fuel \<Longrightarrow> parse_attachments fuel pr table strict data \<noteq> None"
proof (induction fuel arbitrary: data)
  case (Suc fuel)
  have "parse_group pr strict (parse_attachments fuel pr table strict) (ctr_code c) (ctr_count c)
      (classify (ctr_code c) table) (drop (counter_full_size pr c) data) \<noteq> None"
    and "parse_attachments fuel pr table strict (drop (counter_full_size pr c + n) data) \<noteq> None"
    if "counter_from_qb64 pr data = Inr c" for c n
  proof -
    have c: "0 < counter_full_size pr c" "counter_full_size pr c \<le> length data"
      using laws that by (simp_all add: counter_laws_def)
    then show "parse_group pr strict (parse_attachments fuel pr table strict) (ctr_code c) (ctr_count c)
        (classify (ctr_code c) table) (drop (counter_full_size pr c) data) \<noteq> None"
      using Suc by (intro parse_group_total) simp
    show "parse_attachments fuel pr table strict (drop (counter_full_size pr c + n) data) \<noteq> None"
      using Suc c by (intro Suc.IH) simp
  qed
  then show ?case by (auto simp: bindF_eq_None simp del: not_None_eq)
qed simp

text \<open>More fuel changes nothing.\<close>

definition refines :: "att_parser \<Rightarrow> att_parser \<Rightarrow> bool" where
  "refines p q \<longleftrightarrow> (\<forall>d r. p d = Some r \<longrightarrow> q d = Some r)"

lemma bindF_mono:
  "bindF r f = Some v \<Longrightarrow> (\<And>w. r = Some w \<Longrightarrow> r' = Some w) \<Longrightarrow>
     (\<And>a w. r = Some (Inr a) \<Longrightarrow> f a = Some w \<Longrightarrow> g a = Some w) \<Longrightarrow> bindF r' g = Some v"
  by (auto simp: bindF_def split: option.splits sum.splits)

lemma parse_trans_loop_mono:
  assumes "refines p q"
  shows "parse_trans_loop pr p k text = Some r \<Longrightarrow> parse_trans_loop pr q k text = Some r"
proof (induction k arbitrary: "text" r)
  case (Suc k)
  have p: "p d = Some w \<Longrightarrow> q d = Some w" for d w using assms by (simp add: refines_def)
  show ?case
    using Suc.prems unfolding parse_trans_loop.simps
    by (elim bindF_mono) (auto intro: p Suc.IH elim!: bindF_mono split: if_splits)
qed simp

lemma parse_group_mono:
  assumes "refines p q" "parse_group pr strict p code count kind data = Some r"
  shows "parse_group pr strict q code count kind data = Some r"
proof -
  have p: "p d = Some w \<Longrightarrow> q d = Some w" for d w using assms(1) by (simp add: refines_def)
  have "parse_quadlets q data count = Some w" if "parse_quadlets p data count = Some w" for w
    using that unfolding parse_quadlets_def Let_def by (auto intro: p elim!: bindF_mono split: if_splits)
  moreover have "parse_trans_idx_sig_groups pr q data count = Some w"
    if "parse_trans_idx_sig_groups pr p data count = Some w" for w
    using that parse_trans_loop_mono [OF assms(1)]
    unfolding parse_trans_idx_sig_groups_def by (auto split: if_splits)
  ultimately show ?thesis
    using assms(2) unfolding parse_group_def
    by (auto split: option.splits group_kind.splits elim!: bindF_mono)
qed

lemma parse_attachments_fuel_Suc:
  "refines (parse_attachments fuel pr table strict) (parse_attachments (Suc fuel) pr table strict)"
proof (induction fuel)
  case (Suc fuel)
  then have step: "parse_attachments fuel pr table strict d = Some w \<Longrightarrow>
      parse_attachments (Suc fuel) pr table strict d = Some w" for d w
    unfolding refines_def by blast
  show ?case
    unfolding refines_def
  proof (intro allI impI)
    fix d r
    assume p: "parse_attachments (Suc fuel) pr table strict d = Some r"
    show "parse_attachments (Suc (Suc fuel)) pr table strict d = Some r"
      unfolding parse_attachments.simps(2) [of "Suc fuel"]
      using p [unfolded parse_attachments.simps(2) [of fuel]]
      by (auto intro: step parse_group_mono [OF Suc] simp del: parse_attachments.simps
          elim!: bindF_mono split: if_splits)
  qed
qed (simp add: refines_def)

lemma parse_attachments_fuel:
  "parse_attachments m pr table strict d = Some r \<Longrightarrow> m \<le> n \<Longrightarrow> parse_attachments n pr table strict d = Some r"
proof (induction n)
  case (Suc n)
  then show ?case
    using parse_attachments_fuel_Suc [of n pr table strict] unfolding refines_def
    by (cases "m = Suc n") auto
qed simp


subsection \<open>What an attachment can be\<close>

text \<open>Counted groups hold at most 4096 members; strict parsing leaves nothing uninterpreted.\<close>

fun att_ok :: "bool \<Rightarrow> attachment \<Rightarrow> bool" where
  "att_ok strict (ControllerSigs s) = (length s \<le> MAX_ATTACHMENT_COUNT)"
| "att_ok strict (WitnessSigs s) = (length s \<le> MAX_ATTACHMENT_COUNT)"
| "att_ok strict (ReceiptCouples c) = (length c \<le> MAX_ATTACHMENT_COUNT)"
| "att_ok strict (FirstSeenReplay c) = (length c \<le> MAX_ATTACHMENT_COUNT)"
| "att_ok strict (SealSourceCouples c) = (length c \<le> MAX_ATTACHMENT_COUNT)"
| "att_ok strict (TransIdxSigGroups g) = (length g \<le> MAX_ATTACHMENT_COUNT)"
| "att_ok strict (Unknown code count raw) = (\<not> strict)"

lemma parse_trans_loop_length:
  "parse_trans_loop pr inner k text = Some (Inr (gs, n)) \<Longrightarrow> length gs = k"
  by (induction k arbitrary: "text" gs n) (auto simp: res_simps split: if_splits)

lemma parse_group_ok:
  assumes inner: "\<And>d a n. inner d = Some (Inr (a, n)) \<Longrightarrow> list_all (att_ok strict) a"
    and p: "parse_group pr strict inner code count kind data = Some (Inr (atts, n))"
  shows "list_all (att_ok strict) atts"
proof -
  have "list_all (att_ok strict) atts" if "parse_quadlets inner data count = Some (Inr (atts, n))"
    using that by (auto simp: parse_quadlets_def res_simps Let_def split: if_splits intro: inner)
  moreover have "length g \<le> MAX_ATTACHMENT_COUNT"
    if "parse_trans_idx_sig_groups pr inner data count = Some (Inr (g, n))" for g
    using that parse_trans_loop_length [of pr inner count data g n]
    by (auto simp: parse_trans_idx_sig_groups_def split: if_splits)
  ultimately show ?thesis
    using p
    by (auto simp: parse_group_def unknown_group_def parse_indexed_sigs_def parse_receipt_couples_def
        parse_qb64_pairs_def res_simps split: option.splits group_kind.splits if_splits
        dest!: parse_sigs_loop_Inr parse_receipts_loop_Inr parse_pairs_loop_Inr)
qed

lemma parse_attachments_ok:
  "parse_attachments fuel pr table strict data = Some (Inr (atts, n)) \<Longrightarrow> list_all (att_ok strict) atts"
proof (induction fuel arbitrary: data atts n)
  case (Suc fuel)
  show ?case
  proof (cases "data = [] \<or> hd data \<noteq> CHR ''-''")
    case False
    with Suc.prems obtain c a1 n1 a2 n2 where
      g: "parse_group pr strict (parse_attachments fuel pr table strict) (ctr_code c) (ctr_count c)
        (classify (ctr_code c) table) (drop (counter_full_size pr c) data) = Some (Inr (a1, n1))"
      and r: "parse_attachments fuel pr table strict (drop (counter_full_size pr c + n1) data) = Some (Inr (a2, n2))"
      and atts: "atts = a1 @ a2"
      by (auto simp: res_simps split: if_splits)
    have "list_all (att_ok strict) a1" using g by (rule parse_group_ok [rotated]) (rule Suc.IH)
    with Suc.IH [OF r] atts show ?thesis by simp
  qed (use Suc.prems in auto)
qed simp


subsection \<open>One message, and all of them\<close>

lemma parse_next_inner_Inr:
  assumes "parse_next_inner pr stream strict = Some (Inr (m, n))"
  shows "\<exists>att. serder_from_raw pr stream = Inr (pm_serder m) \<and> n = serder_size (pm_serder m) + att \<and>
    parse_attachments (Suc (length stream - serder_size (pm_serder m))) pr (table_for (pm_serder m)) strict
      (drop (serder_size (pm_serder m)) stream) = Some (Inr (pm_attachments m, att))"
  using assms
  by (auto simp: parse_next_inner_def parse_next_sad_def res_simps Let_def split: list.splits if_splits)

lemma serder_size_le: "serder_from_raw pr stream = Inr s \<Longrightarrow> serder_size s \<le> length stream"
  by (auto simp: serder_size_def dest!: serder_from_raw_prefix)

lemma parse_next_inner_consumed:
  assumes "counter_laws pr" "parse_next_inner pr stream strict = Some (Inr (m, n))"
  shows "n \<le> length stream"
proof -
  from parse_next_inner_Inr [OF assms(2)] obtain att where
    s: "serder_from_raw pr stream = Inr (pm_serder m)" and n: "n = serder_size (pm_serder m) + att"
    and p: "parse_attachments (Suc (length stream - serder_size (pm_serder m))) pr (table_for (pm_serder m)) strict
      (drop (serder_size (pm_serder m)) stream) = Some (Inr (pm_attachments m, att))" by blast
  from parse_attachments_consumed [OF assms(1) p] serder_size_le [OF s] n show ?thesis by simp
qed

lemma parse_next_inner_total:
  "counter_laws pr \<Longrightarrow> parse_next_inner pr stream strict \<noteq> None"
  by (auto simp: parse_next_inner_def parse_next_sad_def bindF_eq_None Let_def parse_attachments_total
      simp del: not_None_eq parse_attachments.simps split: list.splits)

lemma parse_all_inner_total:
  "counter_laws pr \<Longrightarrow> parse_all_inner pr stream strict \<noteq> None"
proof (induction pr stream strict rule: parse_all_inner.induct)
  case (1 pr stream strict)
  then show ?case
    by (subst parse_all_inner.simps)
       (auto simp: Let_def bindF_eq_None parse_next_inner_total simp del: not_None_eq)
qed

end
