(* ===== verification/Keri_Composer.thy ===== *)
theory Keri_Composer
  imports Keri_Parser
begin

section \<open>Composer\<close>

text \<open>
  \<open>affinidi-keri-core/src/composer.rs\<close>: a message body followed by one counted group. The
  composer picks the counter code from the same table as the parser (\<open>table_for\<close>), so a
  composed message reads back; the lemmas below prove it for any continuation of the
  stream that the parser does not take for another group.
\<close>

definition counter_code_for :: "serder \<Rightarrow> group_kind \<Rightarrow> string core_result" where
  "counter_code_for s kind = ok_or (ParseError ''group has no counter code'') (group_code kind (table_for s))"

definition counter_for :: "prims \<Rightarrow> serder \<Rightarrow> group_kind \<Rightarrow> nat \<Rightarrow> string core_result" where
  "counter_for pr s kind n =
     bindR (counter_code_for s kind) (\<lambda>code.
     bindR (map_err (\<lambda>_. ParseError ''failed to create counter'') (counter_new pr code n)) (\<lambda>c.
     map_err (\<lambda>_. ParseError ''failed to encode counter'') (counter_qb64 pr c)))"

definition compose_sigs :: "prims \<Rightarrow> group_kind \<Rightarrow> serder \<Rightarrow> siger list \<Rightarrow> bytes core_result" where
  "compose_sigs pr kind s sigs =
     (if sigs = [] then Inr (serder_raw s)
      else
        bindR (counter_for pr s kind (length sigs)) (\<lambda>counter_text.
        bindR (mapR (\<lambda>sig. crypto (siger_qb64 pr sig)) sigs) (\<lambda>texts.
        Inr (serder_raw s @ counter_text @ concat texts))))"

definition compose_event :: "prims \<Rightarrow> serder \<Rightarrow> siger list \<Rightarrow> bytes core_result" where
  "compose_event pr s sigs = compose_sigs pr ControllerIdxSigs s sigs"

definition compose_witness_sigs :: "prims \<Rightarrow> serder \<Rightarrow> siger list \<Rightarrow> bytes core_result" where
  "compose_witness_sigs pr s sigs = compose_sigs pr WitnessIdxSigs s sigs"

definition compose_receipt :: "prims \<Rightarrow> serder \<Rightarrow> string \<Rightarrow> cigar \<Rightarrow> bytes core_result" where
  "compose_receipt pr s prefix' cigar' =
     bindR (counter_for pr s NonTransReceiptCouples 1) (\<lambda>counter_text.
     bindR (crypto (cigar_qb64 pr cigar')) (\<lambda>cigar_text.
     Inr (serder_raw s @ counter_text @ prefix' @ cigar_text)))"


subsection \<open>Texts that read back\<close>

text \<open>
  What the CESR crate documents of a primitive's text: its first characters give its
  code, the code its length, and reading it yields the primitive.
\<close>

definition sig_reads :: "prims \<Rightarrow> siger \<Rightarrow> string \<Rightarrow> bool" where
  "sig_reads pr s q \<longleftrightarrow>
     indexer_qb64 pr (sg_indexer s) = Inr q \<and> is_ascii q \<and> MIN_PRIMITIVE_SIZE \<le> length q \<and>
     (\<exists>hs. hardage pr (hd q) = Some hs \<and> hs \<le> length q \<and> indexer_fs pr (take hs q) = Some (length q)) \<and>
     indexer_from_qb64 pr q = Inr (sg_indexer s) \<and>
     indexer_new pr (idx_code (sg_indexer s)) (idx_index (sg_indexer s)) (idx_ondex (sg_indexer s))
       (idx_raw (sg_indexer s)) = Inr (sg_indexer s)"

definition matter_reads :: "prims \<Rightarrow> string \<Rightarrow> bool" where
  "matter_reads pr q \<longleftrightarrow>
     is_ascii q \<and> MIN_PRIMITIVE_SIZE \<le> length q \<and>
     (\<exists>hs. hardage pr (hd q) = Some hs \<and> hs \<le> length q \<and> matter_fs pr (take hs q) = Some (length q))"

definition counter_reads :: "prims \<Rightarrow> string \<Rightarrow> nat \<Rightarrow> string \<Rightarrow> bool" where
  "counter_reads pr code n q \<longleftrightarrow>
     q \<noteq> [] \<and> hd q = CHR ''-'' \<and> is_ascii q \<and>
     (\<forall>rest. \<exists>c. counter_from_qb64 pr (q @ rest) = Inr c \<and> counter_full_size pr c = length q \<and>
        ctr_code c = code \<and> ctr_count c = n)"

definition parsed_sig :: "siger \<Rightarrow> siger" where
  "parsed_sig s = s\<lparr>sg_verfer := None\<rparr>"

lemma parse_sigs_loop_texts:
  "list_all2 (sig_reads pr) sigs qs \<Longrightarrow>
     parse_sigs_loop pr (length sigs) (concat qs @ rest) = Inr (map parsed_sig sigs, length (concat qs))"
proof (induction sigs qs rule: list_all2_induct)
  case (Cons s sigs q qs)
  from Cons(1) obtain hs where q: "4 \<le> length q" "hardage pr (hd q) = Some hs" "hs \<le> length q"
    "indexer_fs pr (take hs q) = Some (length q)" "indexer_from_qb64 pr q = Inr (sg_indexer s)"
    "indexer_new pr (idx_code (sg_indexer s)) (idx_index (sg_indexer s)) (idx_ondex (sg_indexer s))
       (idx_raw (sg_indexer s)) = Inr (sg_indexer s)"
    by (auto simp: sig_reads_def MIN_PRIMITIVE_SIZE_def)
  then obtain c cs where c: "q = c # cs" by (cases q) auto
  have "take hs (q @ concat qs @ rest) = take hs q" using q(3) by simp
  then have t: "take hs (c # cs @ concat qs @ rest) = take hs q" by (simp add: c)
  have "parse_sigs_loop pr (Suc (length sigs)) (q @ concat qs @ rest) =
      Inr (parsed_sig s # map parsed_sig sigs, length q + length (concat qs))"
    using q t Cons.IH by (simp add: c siger_new_def parsed_sig_def)
  then show ?case by simp
qed simp

lemma parse_indexed_sigs_texts:
  assumes qs: "list_all2 (sig_reads pr) sigs qs" and n: "length sigs \<le> MAX_ATTACHMENT_COUNT"
    and rest: "is_ascii rest"
  shows "parse_indexed_sigs pr (concat qs @ rest) (length sigs) = Inr (map parsed_sig sigs, length (concat qs))"
proof -
  have "length sigs * MIN_PRIMITIVE_SIZE \<le> length (concat qs) \<and> is_ascii (concat qs)"
    using qs by (induction rule: list_all2_induct) (auto simp: sig_reads_def MIN_PRIMITIVE_SIZE_def)
  then show ?thesis
    using n rest parse_sigs_loop_texts [OF qs, of rest] by (simp add: parse_indexed_sigs_def)
qed

lemma parse_matter_qb64_text:
  assumes "matter_reads pr q"
  shows "parse_matter_qb64 pr (q @ rest) = Inr (q, length q)"
proof -
  from assms obtain hs where q: "4 \<le> length q" "hardage pr (hd q) = Some hs" "hs \<le> length q"
    "matter_fs pr (take hs q) = Some (length q)"
    by (auto simp: matter_reads_def MIN_PRIMITIVE_SIZE_def)
  then obtain c cs where c: "q = c # cs" by (cases q) auto
  have "take hs (q @ rest) = take hs q" using q(3) by simp
  then have "take hs (c # cs @ rest) = take hs q" by (simp add: c)
  with q c show ?thesis by (simp add: parse_matter_qb64_def)
qed

text \<open>Receipt couples: the text of a prefix, then the text of a signature of the couple's bytes.\<close>

definition couple_reads :: "prims \<Rightarrow> string \<times> bytes \<Rightarrow> string \<Rightarrow> bool" where
  "couple_reads pr c ct \<longleftrightarrow>
     matter_reads pr (fst c) \<and> matter_reads pr ct \<and> (\<exists>m. matter_from_qb64 pr ct = Inr m \<and> mat_raw m = snd c)"

lemma parse_receipts_loop_texts:
  "list_all2 (couple_reads pr) couples cts \<Longrightarrow> ts = map2 (\<lambda>c ct. fst c @ ct) couples cts \<Longrightarrow>
     parse_receipts_loop pr (length couples) (concat ts @ rest) = Inr (couples, length (concat ts))"
proof (induction couples cts arbitrary: ts rule: list_all2_induct)
  case (Cons c couples ct cts)
  let ?ts = "map2 (\<lambda>c ct. fst c @ ct) couples cts"
  from Cons(1) obtain m where c: "matter_reads pr (fst c)" "matter_reads pr ct" "matter_from_qb64 pr ct = Inr m" "mat_raw m = snd c"
    by (auto simp: couple_reads_def)
  show ?case
    using parse_matter_qb64_text [OF c(1), of "ct @ concat ?ts @ rest"] parse_matter_qb64_text [OF c(2), of "concat ?ts @ rest"]
      c(3,4) Cons.IH [OF refl] Cons.prems by simp
qed simp

lemma parse_receipt_couples_texts:
  assumes c: "list_all2 (couple_reads pr) couples cts" and n: "length couples \<le> MAX_ATTACHMENT_COUNT" and rest: "is_ascii rest"
  defines "t \<equiv> concat (map2 (\<lambda>c ct. fst c @ ct) couples cts)"
  shows "parse_receipt_couples pr (t @ rest) (length couples) = Inr (couples, length t)" and "is_ascii t"
proof -
  have a: "length couples * (MIN_PRIMITIVE_SIZE * 2) \<le> length t \<and> is_ascii t"
    using c unfolding t_def by (induction rule: list_all2_induct) (auto simp: couple_reads_def matter_reads_def MIN_PRIMITIVE_SIZE_def)
  then show "is_ascii t" ..
  show "parse_receipt_couples pr (t @ rest) (length couples) = Inr (couples, length t)"
    using a n rest parse_receipts_loop_texts [OF c refl, of rest] unfolding t_def [symmetric]
    by (simp add: parse_receipt_couples_def MIN_PRIMITIVE_SIZE_def)
qed

text \<open>A group before others, and the end of the attachments.\<close>

lemma parse_attachments_group:
  assumes c: "counter_reads pr code n q" and code: "group_code kind table = Some code"
    and g: "\<And>inner. parse_group pr strict inner code n (Some kind) (body @ rest) = Some (Inr ([att], length body))"
    and ascii: "is_ascii body" "is_ascii rest"
    and r: "parse_attachments fuel pr table strict rest = Some (Inr (atts, k))"
  shows "parse_attachments (Suc fuel) pr table strict (q @ body @ rest) =
    Some (Inr (att # atts, length q + length body + k))"
proof -
  from c obtain ctr where ctr: "counter_from_qb64 pr (q @ body @ rest) = Inr ctr"
    "counter_full_size pr ctr = length q" "ctr_code ctr = code" "ctr_count ctr = n"
    and q: "q \<noteq> []" "hd q = CHR ''-''" "is_ascii q"
    unfolding counter_reads_def by blast
  show ?thesis
    unfolding parse_attachments.simps(2) [of fuel]
    using ctr q ascii g r group_code_classify [OF code] by (simp del: parse_attachments.simps)
qed

lemma parse_attachments_stop:
  "rest = [] \<or> hd rest \<noteq> CHR ''-'' \<Longrightarrow> parse_attachments (Suc fuel) pr table strict rest = Some (Inr ([], 0))"
  by auto

lemma counter_for_Inr:
  "counter_for pr s kind n = Inr q \<longleftrightarrow>
     (\<exists>code c. group_code kind (table_for s) = Some code \<and> counter_new pr code n = Inr c \<and> counter_qb64 pr c = Inr q)"
  by (auto simp: counter_for_def counter_code_for_def res_simps)

lemma parse_next_after:
  assumes raw: "serder_raw s \<noteq> []" "hd (serder_raw s) = CHR ''{''"
    and s: "serder_from_raw pr (serder_raw s @ tail) = Inr s"
    and p: "parse_attachments fuel pr (table_for s) strict tail = Some (Inr (atts, n))"
    and fuel: "fuel \<le> Suc (length tail)"
  shows "parse_next_inner pr (serder_raw s @ tail) strict =
    Some (Inr (\<lparr>pm_serder = s, pm_attachments = atts\<rparr>, length (serder_raw s) + n))"
proof -
  obtain cs where "serder_raw s = CHR ''{'' # cs" using raw by (cases "serder_raw s") auto
  moreover have "parse_attachments (Suc (length tail)) pr (table_for s) strict tail = Some (Inr (atts, n))"
    by (rule parse_attachments_fuel [OF p fuel])
  ultimately show ?thesis
    using s by (simp add: parse_next_inner_def parse_next_sad_def serder_size_def del: parse_attachments.simps)
qed

lemma compose_sigs_parse:
  assumes kind: "kind = ControllerIdxSigs \<and> att = ControllerSigs (map parsed_sig sigs) \<or>
      kind = WitnessIdxSigs \<and> att = WitnessSigs (map parsed_sig sigs)"
    and out: "compose_sigs pr kind s sigs = Inr out" "sigs \<noteq> []"
    and raw: "serder_raw s \<noteq> []" "hd (serder_raw s) = CHR ''{''"
    and reads: "\<And>tail. serder_from_raw pr (serder_raw s @ tail) = Inr s"
    and sigs: "list_all (\<lambda>sig. \<exists>q. sig_reads pr sig q) sigs" "length sigs \<le> MAX_ATTACHMENT_COUNT"
    and ctr: "\<And>code c q. group_code kind (table_for s) = Some code \<Longrightarrow> counter_new pr code (length sigs) = Inr c \<Longrightarrow>
       counter_qb64 pr c = Inr q \<Longrightarrow> counter_reads pr code (length sigs) q"
    and rest: "is_ascii rest" "parse_attachments (Suc fuel) pr (table_for s) True rest = Some (Inr (atts, n))"
      "fuel \<le> length rest"
  shows "parse_next pr (out @ rest) =
    Some (Inr (\<lparr>pm_serder = s, pm_attachments = att # atts\<rparr>, length out + n))"
proof -
  from out obtain q texts where q: "counter_for pr s kind (length sigs) = Inr q"
    and texts: "list_all2 (\<lambda>sig t. indexer_qb64 pr (sg_indexer sig) = Inr t) sigs texts"
    and o': "out = serder_raw s @ q @ concat texts"
    by (auto simp: compose_sigs_def res_simps mapR_eq_Inr_conv siger_qb64_def)
  from q obtain code where code: "group_code kind (table_for s) = Some code"
    and cr: "counter_reads pr code (length sigs) q"
    using ctr unfolding counter_for_Inr by blast
  have reads_texts: "list_all2 (sig_reads pr) sigs texts"
    using texts sigs(1) by (induction rule: list_all2_induct) (auto simp: sig_reads_def)
  then have "is_ascii (concat texts)"
    by (induction rule: list_all2_induct) (auto simp: sig_reads_def)
  moreover have "parse_group pr True inner code (length sigs) (Some kind) (concat texts @ rest) =
      Some (Inr ([att], length (concat texts)))" for inner
    using kind parse_indexed_sigs_texts [OF reads_texts sigs(2) rest(1)] by (auto simp: parse_group_def)
  ultimately have p2: "parse_attachments (Suc (Suc fuel)) pr (table_for s) True (q @ concat texts @ rest) =
      Some (Inr (att # atts, length q + length (concat texts) + n))"
    using cr code rest by (intro parse_attachments_group)
  have fuel: "Suc (Suc fuel) \<le> Suc (length (q @ concat texts @ rest))"
    using cr rest(3) by (cases q) (auto simp: counter_reads_def)
  have "parse_next_inner pr (serder_raw s @ q @ concat texts @ rest) True =
      Some (Inr (\<lparr>pm_serder = s, pm_attachments = att # atts\<rparr>, length (serder_raw s) + (length q + length (concat texts) + n)))"
    by (rule parse_next_after [OF raw reads p2 fuel])
  then show ?thesis by (simp add: parse_next_def o')
qed

lemma compose_receipt_parse:
  assumes out: "compose_receipt pr s prefix' cigar' = Inr out"
    and raw: "serder_raw s \<noteq> []" "hd (serder_raw s) = CHR ''{''"
    and reads: "\<And>tail. serder_from_raw pr (serder_raw s @ tail) = Inr s"
    and p: "matter_reads pr prefix'"
    and cig: "\<And>q. cigar_qb64 pr cigar' = Inr q \<Longrightarrow> matter_reads pr q \<and> matter_from_qb64 pr q = Inr (cg_matter cigar')"
    and ctr: "\<And>code c q. group_code NonTransReceiptCouples (table_for s) = Some code \<Longrightarrow>
       counter_new pr code 1 = Inr c \<Longrightarrow> counter_qb64 pr c = Inr q \<Longrightarrow> counter_reads pr code 1 q"
    and rest: "is_ascii rest" "rest = [] \<or> hd rest \<noteq> CHR ''-''"
  shows "parse_next pr (out @ rest) =
    Some (Inr (\<lparr>pm_serder = s, pm_attachments = [ReceiptCouples [(prefix', cigar_raw cigar')]]\<rparr>, length out))"
proof -
  from out obtain q ct where q: "counter_for pr s NonTransReceiptCouples 1 = Inr q"
    and ct: "cigar_qb64 pr cigar' = Inr ct" and o': "out = serder_raw s @ q @ prefix' @ ct"
    by (auto simp: compose_receipt_def res_simps)
  from q obtain code where code: "group_code NonTransReceiptCouples (table_for s) = Some code"
    and cr: "counter_reads pr code 1 q"
    using ctr unfolding counter_for_Inr by blast
  have ct': "matter_reads pr ct" "matter_from_qb64 pr ct = Inr (cg_matter cigar')" using cig [OF ct] by auto
  have "parse_receipts_loop pr (Suc 0) (prefix' @ ct @ rest) =
      Inr ([(prefix', mat_raw (cg_matter cigar'))], length prefix' + length ct)"
    using parse_matter_qb64_text [OF p, of "ct @ rest"] parse_matter_qb64_text [OF ct'(1), of rest] ct'(2) by simp
  then have g: "parse_group pr True inner code 1 (Some NonTransReceiptCouples) ((prefix' @ ct) @ rest) =
      Some (Inr ([ReceiptCouples [(prefix', cigar_raw cigar')]], length (prefix' @ ct)))" for inner
    using p ct'(1) rest(1)
    by (simp add: parse_group_def parse_receipt_couples_def MAX_ATTACHMENT_COUNT_def MIN_PRIMITIVE_SIZE_def
        matter_reads_def cigar_raw_def)
  have a: "is_ascii (prefix' @ ct)" using p ct' by (simp add: matter_reads_def)
  have p2: "parse_attachments (Suc (Suc 0)) pr (table_for s) True (q @ (prefix' @ ct) @ rest) =
      Some (Inr ([ReceiptCouples [(prefix', cigar_raw cigar')]], length q + length (prefix' @ ct)))"
    using parse_attachments_group [OF cr code g a rest(1) parse_attachments_stop [OF rest(2), of 0]]
    by (simp del: parse_attachments.simps)
  have fuel: "Suc (Suc 0) \<le> Suc (length (q @ (prefix' @ ct) @ rest))"
    using cr by (cases q) (auto simp: counter_reads_def)
  have "parse_next_inner pr (serder_raw s @ q @ (prefix' @ ct) @ rest) True =
      Some (Inr (\<lparr>pm_serder = s, pm_attachments = [ReceiptCouples [(prefix', cigar_raw cigar')]]\<rparr>,
        length (serder_raw s) + (length q + length (prefix' @ ct))))"
    by (rule parse_next_after [OF raw reads p2 fuel])
  then show ?thesis by (simp add: parse_next_def o')
qed

end
