(* ===== verification/Keri_Demo_Wire.thy ===== *)
theory Keri_Demo_Wire
  imports Keri_Demo Keri_Composer
begin

section \<open>Reading the texts of the concrete instance\<close>

text \<open>
  The counters of \<open>Keri_Demo\<close> read back, and a reader for what \<open>demo_print\<close> writes, with fuel: on values of plain texts it is its
  inverse, whatever follows (\<open>demo_parse_print\<close>). Like \<open>Keri_Demo\<close>, it models no code of
  the program.
\<close>

lemma demo_counter_laws: "counter_laws (demo_prims docs)"
  by (auto simp: counter_laws_def demo_prims_def demo_counter_from_qb64_def split: list.splits if_splits)

lemma demo_counter_reads:
  assumes "counter_new (demo_prims docs) code n = Inr c" "counter_qb64 (demo_prims docs) c = Inr q" "hd code = CHR ''-''"
    and "is_ascii code"
  shows "counter_reads (demo_prims docs) code n q"
proof -
  from assms have n: "n < 64" "length code = 2" and q: "q = code @ [char_of (48 + n)]"
    by (auto simp: demo_prims_def demo_counter_new_def demo_counter_qb64_def split: if_splits)
  from n(2) obtain a b where code: "code = [a, b]" by (auto simp: length_Suc_conv numeral_2_eq_2)
  have "byte (char_of (48 + n)) = 48 + n" using n by simp
  with assms(3,4) n q code show ?thesis
    by (simp add: counter_reads_def demo_prims_def demo_counter_from_qb64_def)
qed

definition no_quote :: "char \<Rightarrow> bool" where
  "no_quote c \<longleftrightarrow> c \<noteq> CHR 0x22"

fun rd_value :: "nat \<Rightarrow> string \<Rightarrow> (json \<times> string) option"
and rd_items :: "nat \<Rightarrow> string \<Rightarrow> (json list \<times> string) option"
and rd_members :: "nat \<Rightarrow> string \<Rightarrow> ((string \<times> json) list \<times> string) option" where
  "rd_value 0 s = None"
| "rd_value (Suc n) s =
     (case s of [] \<Rightarrow> None
      | c # r \<Rightarrow>
          if c = CHR ''n'' then Some (JNull, drop 3 r)
          else if c = CHR ''t'' then Some (JBool True, drop 3 r)
          else if c = CHR ''f'' then Some (JBool False, drop 4 r)
          else if c = CHR 0x22 then Some (JString (takeWhile no_quote r), tl (dropWhile no_quote r))
          else if c = CHR ''['' then
            (if take 1 r = '']'' then Some (JArray [], tl r) else map_option (map_prod JArray id) (rd_items n r))
          else if c = CHR ''{'' then
            (if take 1 r = ''}'' then Some (JObject [], tl r) else map_option (map_prod JObject id) (rd_members n r))
          else None)"
| "rd_items 0 s = None"
| "rd_items (Suc n) s =
     (case rd_value n s of
        Some (v, c # r) \<Rightarrow>
          if c = CHR '','' then map_option (map_prod (Cons v) id) (rd_items n r)
          else if c = CHR '']'' then Some ([v], r) else None
      | _ \<Rightarrow> None)"
| "rd_members 0 s = None"
| "rd_members (Suc n) s =
     (let k = takeWhile no_quote (tl s) in
      case rd_value n (drop (length k + 3) s) of
        Some (v, c # r) \<Rightarrow>
          if c = CHR '','' then map_option (map_prod (Cons (k, v)) id) (rd_members n r)
          else if c = CHR ''}'' then Some ([(k, v)], r) else None
      | _ \<Rightarrow> None)"

definition demo_parse :: "bytes \<Rightarrow> string + json" where
  "demo_parse bs =
     (case rd_value (length bs) bs of Some (v, r) \<Rightarrow> if r = [] then Inr v else Inl ''trailing'' | None \<Rightarrow> Inl ''parse'')"

abbreviation demo_member :: "string \<times> json \<Rightarrow> string" where
  "demo_member \<equiv> \<lambda>(k, v). demo_quote k @ '':'' @ demo_print v"

lemma plain_no_quote: "plain s \<Longrightarrow> list_all no_quote s"
  by (auto simp: plain_def list_all_iff no_quote_def byte_def)

lemma takeWhile_quote: "plain s \<Longrightarrow> takeWhile no_quote (s @ CHR 0x22 # r) = s"
  and dropWhile_quote: "plain s \<Longrightarrow> dropWhile no_quote (s @ CHR 0x22 # r) = CHR 0x22 # r"
  using plain_no_quote [of s] by (auto simp: list_all_iff takeWhile_append2 dropWhile_append2 no_quote_def)

lemma drop_key: "drop (length k + 3) (q # k @ q' # c # r) = r"
  by (simp add: numeral_3_eq_3)

lemma demo_print_head:
  "text_json d v \<Longrightarrow> \<exists>c cs. demo_print v = c # cs \<and> c \<noteq> CHR '']'' \<and> c \<noteq> CHR ''}''"
  by (cases v) (auto simp: demo_quote_def split: if_splits)

lemma demo_join_Cons: "ss \<noteq> [] \<Longrightarrow> demo_join (s # ss) = s @ CHR '','' # demo_join ss"
  by (cases ss) auto

lemma demo_join_head: "s = c # cs \<Longrightarrow> \<exists>r. demo_join (s # ss) = c # r"
  by (cases ss) auto

lemma rd_print:
  "(\<forall>d v rest. text_json d v \<longrightarrow> length (demo_print v) \<le> n \<longrightarrow> rd_value n (demo_print v @ rest) = Some (v, rest)) \<and>
   (\<forall>d vs rest. vs \<noteq> [] \<longrightarrow> list_all (text_json d) vs \<longrightarrow> length (demo_join (map demo_print vs)) < n \<longrightarrow>
      rd_items n (demo_join (map demo_print vs) @ CHR '']'' # rest) = Some (vs, rest)) \<and>
   (\<forall>d ps rest. ps \<noteq> [] \<longrightarrow> list_all (\<lambda>p. plain (fst p) \<and> text_json d (snd p)) ps \<longrightarrow>
      length (demo_join (map demo_member ps)) < n \<longrightarrow>
      rd_members n (demo_join (map demo_member ps) @ CHR ''}'' # rest) = Some (ps, rest))"
proof (induction n)
  case 0
  have "demo_print v \<noteq> []" if "text_json d v" for d v using demo_print_head [OF that] by auto
  then show ?case by simp
next
  case (Suc n)
  then have rv: "text_json d v \<Longrightarrow> length (demo_print v) \<le> n \<Longrightarrow> rd_value n (demo_print v @ rest) = Some (v, rest)"
    and ri: "vs \<noteq> [] \<Longrightarrow> list_all (text_json d) vs \<Longrightarrow> length (demo_join (map demo_print vs)) < n \<Longrightarrow>
      rd_items n (demo_join (map demo_print vs) @ CHR '']'' # rest) = Some (vs, rest)"
    and rm: "ps \<noteq> [] \<Longrightarrow> list_all (\<lambda>p. plain (fst p) \<and> text_json d (snd p)) ps \<Longrightarrow>
      length (demo_join (map demo_member ps)) < n \<Longrightarrow>
      rd_members n (demo_join (map demo_member ps) @ CHR ''}'' # rest) = Some (ps, rest)" for d v vs ps rest
    by blast+
  have "rd_value (Suc n) (demo_print v @ rest) = Some (v, rest)"
    if v: "text_json d v" and len: "length (demo_print v) \<le> Suc n" for d v rest
  proof (cases v)
    case (JString s)
    with v show ?thesis by (simp add: demo_quote_def takeWhile_quote dropWhile_quote)
  next
    case (JArray vs)
    show ?thesis
    proof (cases vs)
      case (Cons w ws)
      from v JArray have vs: "list_all (text_json (d - 1)) vs" by simp
      with Cons obtain c cs where "demo_print w = c # cs" "c \<noteq> CHR '']''" using demo_print_head by fastforce
      with demo_join_head [OF this(1)] obtain r where "demo_join (map demo_print vs) = c # r" "c \<noteq> CHR '']''"
        using Cons by fastforce
      with ri [of vs "d - 1" rest] vs Cons len show ?thesis by (simp add: JArray del: demo_join.simps)
    qed (simp add: JArray)
  next
    case (JObject ps)
    show ?thesis
    proof (cases ps)
      case (Cons p qs)
      from v JObject have ps: "list_all (\<lambda>p. plain (fst p) \<and> text_json (d - 1) (snd p)) ps" by simp
      have "demo_member p = CHR 0x22 # (fst p @ [CHR 0x22] @ '':'' @ demo_print (snd p))"
        by (simp add: demo_quote_def case_prod_beta)
      from demo_join_head [OF this] obtain r where "demo_join (map demo_member ps) = CHR 0x22 # r"
        using Cons by (auto simp del: demo_join.simps)
      with rm [of ps "d - 1" rest] ps Cons len show ?thesis by (simp add: JObject del: demo_join.simps)
    qed (simp add: JObject)
  qed (use v in auto)
  moreover have "rd_items (Suc n) (demo_join (map demo_print vs) @ CHR '']'' # rest) = Some (vs, rest)"
    if ne: "vs \<noteq> []" and vs: "list_all (text_json d) vs" and len: "length (demo_join (map demo_print vs)) < Suc n" for d vs rest
  proof -
    obtain w ws where w: "vs = w # ws" using ne by (cases vs) auto
    show ?thesis
      using vs len rv [of d w] ri [of ws d rest] by (cases "ws = []") (simp_all add: w demo_join_Cons del: demo_join.simps(3))
  qed
  moreover have "rd_members (Suc n) (demo_join (map demo_member ps) @ CHR ''}'' # rest) = Some (ps, rest)"
    if ne: "ps \<noteq> []" and ps: "list_all (\<lambda>p. plain (fst p) \<and> text_json d (snd p)) ps"
      and len: "length (demo_join (map demo_member ps)) < Suc n" for d ps rest
  proof -
    obtain k w qs where w: "ps = (k, w) # qs" using ne by (cases ps) auto
    show ?thesis
      using ps len rv [of d w] rm [of qs d rest]
      by (cases "qs = []") (simp_all add: w demo_join_Cons demo_quote_def takeWhile_quote drop_key Let_def del: demo_join.simps(3))
  qed
  ultimately show ?case by blast
qed

lemma demo_parse_print:
  assumes "text_json d v"
  shows "demo_parse (demo_print v) = Inr v"
proof -
  have "rd_value (length (demo_print v)) (demo_print v @ []) = Some (v, [])"
    using rd_print [THEN conjunct1] assms by blast
  then show ?thesis by (simp add: demo_parse_def)
qed

end
