(* ===== verification/Stream_Properties.thy ===== *)
theory Stream_Properties
  imports Keri_Demo_Wire Data_Properties
begin

section \<open>Properties of the message stream\<close>

text \<open>
  The properties of \<open>parser.rs\<close> and \<open>composer.rs\<close>: parsing ends, stays inside its buffer
  and, in strict mode, interprets everything it takes; what the composer writes is read
  back as it was. Counters, indexers and matter come from the CESR crate: the properties
  name what they use of its documentation.
\<close>

definition demo_text :: "string" where
  "demo_text = to_version_string demo_version"

definition demo_stream_prims :: "prims" where
  "demo_stream_prims = demo_prims [demo_doc demo_text]"

definition demo_message :: "serder" where
  "demo_message = \<lparr>serder_raw = demo_print (demo_doc demo_text), serder_version = Some demo_version,
     serder_kind = JsonKind, serder_sad = demo_doc demo_text\<rparr>"

lemma demo_version_ok: "version_ok demo_version"
  by (simp add: demo_version_def version_ok_def byte_def)

lemma demo_message_reads: "serder_from_raw demo_stream_prims (serder_raw demo_message @ rest) = Inr demo_message"
  unfolding demo_stream_prims_def demo_message_def demo_text_def serder.simps
proof (rule serder_from_raw_message)
  show "v_protocol demo_version \<in> set protocols" by (simp add: demo_version_def protocols_def)
  show "demo_print (demo_doc (to_version_string demo_version)) =
      json_head @ to_version_string demo_version @ [CHR 0x22, CHR '','', CHR 0x22, CHR ''d'', CHR 0x22, CHR '':'',
        CHR 0x22, CHR ''x'', CHR 0x22, CHR ''}'']"
    by (simp add: demo_doc_def json_head_def demo_quote_def)
  show "v_size demo_version = length (demo_print (demo_doc (to_version_string demo_version)))"
    using length_to_version_string [OF demo_version_ok]
    by (simp add: length_demo_doc KERI_VER_FULLSIZE_def) (simp add: demo_version_def)
  show "json_from_slice (demo_prims [demo_doc (to_version_string demo_version)])
      (demo_print (demo_doc (to_version_string demo_version))) = Inr (demo_doc (to_version_string demo_version))"
    by (simp add: demo_read_def)
qed (rule demo_version_ok)

lemma demo_message_head: "serder_raw demo_message \<noteq> []" "hd (serder_raw demo_message) = CHR ''{''"
  by (simp_all add: demo_message_def demo_doc_def)

definition demo_sig :: "siger" where
  "demo_sig = \<lparr>sg_indexer = \<lparr>idx_code = ''A'', idx_index = 0, idx_ondex = None, idx_raw = replicate 64 (CHR ''s'')\<rparr>,
     sg_verfer = None\<rparr>"

lemma demo_sig_reads: "sig_reads (demo_prims docs) demo_sig (''A0'' @ replicate 64 (CHR ''s''))"
  by (simp add: sig_reads_def demo_sig_def demo_prims_def demo_indexer_qb64_def demo_indexer_from_qb64_def
      demo_indexer_new_def MIN_PRIMITIVE_SIZE_def is_ascii_def byte_def list_all_iff)

lemma demo_table: "table_for demo_message = V1"
  by (simp add: table_for_def demo_message_def demo_version_def table_from_major_def)


text \<open>C22: Parsing ends. With a counter parser that never reports a size of zero or beyond its input, the message parser
  and the stream parser return on every input, in strict and in lenient mode: the recursion
  into wrapper groups never runs out of the fuel the buffer length gives it.\<close>

theorem parsing_terminates:
  assumes "counter_laws pr"
  shows "parse_next pr stream \<noteq> None \<and> parse_next_lenient pr stream \<noteq> None \<and>
    parse_all pr stream \<noteq> None \<and> parse_all_lenient pr stream \<noteq> None"
  using parse_next_inner_total [OF assms] parse_all_inner_total [OF assms]
  by (simp add: parse_next_def parse_next_lenient_def parse_all_def parse_all_lenient_def)

theorem parsing_terminates_witness: "parse_next (demo_prims []) ''-AA'' \<noteq> None"
  using parsing_terminates [OF demo_counter_laws [of "[]"], of "''-AA''"] by blast

text \<open>C23: Parsing stays inside its buffer. A parsed message starts the buffer, it and its attachments take no more
  than the buffer holds, no counted group has more than 4096 members, and in strict mode no
  group is left uninterpreted.\<close>

theorem parsing_is_bounded:
  assumes "counter_laws pr" "parse_next pr stream = Some (Inr (m, n))"
  shows "(\<exists>rest. stream = serder_raw (pm_serder m) @ rest) \<and> serder_size (pm_serder m) \<le> n \<and> n \<le> length stream \<and>
    list_all (att_ok True) (pm_attachments m) \<and> \<not> has_uninterpreted_attachments m"
proof -
  from assms(2) have p: "parse_next_inner pr stream True = Some (Inr (m, n))" by (simp add: parse_next_def)
  from parse_next_inner_Inr [OF p] obtain att where s: "serder_from_raw pr stream = Inr (pm_serder m)"
    and n: "n = serder_size (pm_serder m) + att"
    and a: "parse_attachments (Suc (length stream - serder_size (pm_serder m))) pr (table_for (pm_serder m)) True
      (drop (serder_size (pm_serder m)) stream) = Some (Inr (pm_attachments m, att))" by blast
  from parse_attachments_ok [OF a] have ok: "list_all (att_ok True) (pm_attachments m)" .
  have "\<not> is_unknown a" if "a \<in> set (pm_attachments m)" for a
    using ok that by (cases a) (auto simp: list_all_iff)
  then have "\<not> has_uninterpreted_attachments m" by (auto simp: has_uninterpreted_attachments_def list_ex_iff)
  with ok n serder_from_raw_prefix [OF s] parse_next_inner_consumed [OF assms(1) p] show ?thesis by simp
qed

theorem parsing_is_bounded_witness:
  "\<exists>m n. parse_next demo_stream_prims (serder_raw demo_message) = Some (Inr (m, n)) \<and>
     n \<le> 33 \<and> \<not> has_uninterpreted_attachments m"
proof -
  have p: "parse_next demo_stream_prims (serder_raw demo_message) = Some (Inr (\<lparr>pm_serder = demo_message, pm_attachments = []\<rparr>, 33))"
  proof -
    have "length (serder_raw demo_message) = 33"
      using length_to_version_string [OF demo_version_ok]
      by (simp add: demo_message_def length_demo_doc demo_text_def KERI_VER_FULLSIZE_def)
    moreover obtain c cs where "serder_raw demo_message = c # cs" "c = CHR ''{''"
      using demo_message_head by (cases "serder_raw demo_message") auto
    ultimately show ?thesis
      using demo_message_reads [of "[]"]
      by (simp add: parse_next_def parse_next_inner_def parse_next_sad_def serder_size_def)
  qed
  have "counter_laws demo_stream_prims" by (simp add: demo_stream_prims_def demo_counter_laws)
  from parsing_is_bounded [OF this p] p show ?thesis
    using length_to_version_string [OF demo_version_ok]
    by (intro exI conjI) (auto simp: demo_message_def length_demo_doc demo_text_def KERI_VER_FULLSIZE_def)
qed

text \<open>C24: Composed signatures parse back. What \<open>compose_event\<close> or \<open>compose_witness_sigs\<close> writes for a message that reads
  as itself and at least one and at most 4096 signatures is parsed to that message and
  exactly those signatures, as those of the controller or of the witnesses, and consumed to
  its last byte, whatever ASCII text follows that is not a counter.\<close>

theorem composed_event_parses:
  assumes "kind = ControllerIdxSigs \<and> compose_event pr s sigs = Inr out \<or> kind = WitnessIdxSigs \<and> compose_witness_sigs pr s sigs = Inr out"
    and "sigs \<noteq> []" "length sigs \<le> MAX_ATTACHMENT_COUNT"
    and "serder_raw s \<noteq> []" "hd (serder_raw s) = CHR ''{''"
    and "\<And>tail. serder_from_raw pr (serder_raw s @ tail) = Inr s"
    and "list_all (\<lambda>sig. \<exists>q. sig_reads pr sig q) sigs"
    and "\<And>code c q. group_code kind (table_for s) = Some code \<Longrightarrow> counter_new pr code (length sigs) = Inr c \<Longrightarrow>
      counter_qb64 pr c = Inr q \<Longrightarrow> counter_reads pr code (length sigs) q"
    and "is_ascii rest" "rest = [] \<or> hd rest \<noteq> CHR ''-''"
  shows "parse_next pr (out @ rest) =
    Some (Inr (\<lparr>pm_serder = s, pm_attachments =
      [if kind = ControllerIdxSigs then ControllerSigs (map parsed_sig sigs) else WitnessSigs (map parsed_sig sigs)]\<rparr>, length out))"
proof -
  let ?att = "if kind = ControllerIdxSigs then ControllerSigs (map parsed_sig sigs) else WitnessSigs (map parsed_sig sigs)"
  have kind: "kind = ControllerIdxSigs \<and> ?att = ControllerSigs (map parsed_sig sigs) \<or>
      kind = WitnessIdxSigs \<and> ?att = WitnessSigs (map parsed_sig sigs)" and out: "compose_sigs pr kind s sigs = Inr out"
    using assms(1) by (auto simp: compose_event_def compose_witness_sigs_def)
  show ?thesis
    using compose_sigs_parse [OF kind out assms(2,4,5,6,7,3,8,9) parse_attachments_stop [OF assms(10), of 0]] by simp
qed

theorem composed_event_parses_witness:
  "\<exists>out. compose_event demo_stream_prims demo_message [demo_sig] = Inr out \<and>
     parse_next demo_stream_prims (out @ ''{more'') =
       Some (Inr (\<lparr>pm_serder = demo_message, pm_attachments = [ControllerSigs [demo_sig]]\<rparr>, length out))"
proof -
  obtain out where out: "compose_event demo_stream_prims demo_message [demo_sig] = Inr out"
    by (simp add: compose_event_def compose_sigs_def counter_for_def counter_code_for_def demo_table demo_stream_prims_def
        demo_prims_def demo_counter_new_def demo_counter_qb64_def siger_qb64_def demo_indexer_qb64_def)
  have "parse_next demo_stream_prims (out @ ''{more'') =
      Some (Inr (\<lparr>pm_serder = demo_message, pm_attachments =
        [if ControllerIdxSigs = ControllerIdxSigs then ControllerSigs (map parsed_sig [demo_sig])
         else WitnessSigs (map parsed_sig [demo_sig])]\<rparr>, length out))"
  proof (rule composed_event_parses [where kind = ControllerIdxSigs, OF disjI1 [OF conjI [OF refl out]]])
    show "list_all (\<lambda>sig. \<exists>q. sig_reads demo_stream_prims sig q) [demo_sig]"
      using demo_sig_reads by (auto simp: demo_stream_prims_def)
    show "counter_reads demo_stream_prims code (length [demo_sig]) q"
      if "group_code ControllerIdxSigs (table_for demo_message) = Some code"
        "counter_new demo_stream_prims code (length [demo_sig]) = Inr c" "counter_qb64 demo_stream_prims c = Inr q"
      for code c q
      using that demo_counter_reads [of "[demo_doc demo_text]" code "length [demo_sig]" c q]
      by (auto simp: demo_stream_prims_def demo_table byte_def)
  qed (simp_all add: demo_message_reads demo_message_head MAX_ATTACHMENT_COUNT_def byte_def)
  with out show ?thesis by (simp add: parsed_sig_def demo_sig_def)
qed

text \<open>Composed receipts parse back. What \<open>compose_receipt\<close> writes for a message, a witness prefix and a signature
  is parsed to that message with the one couple of prefix and raw signature.\<close>

lemma composed_receipt_parses:
  assumes "compose_receipt pr s prefix' cigar' = Inr out"
    and "serder_raw s \<noteq> []" "hd (serder_raw s) = CHR ''{''"
    and "\<And>tail. serder_from_raw pr (serder_raw s @ tail) = Inr s"
    and "matter_reads pr prefix'"
    and "\<And>q. cigar_qb64 pr cigar' = Inr q \<Longrightarrow> matter_reads pr q \<and> matter_from_qb64 pr q = Inr (cg_matter cigar')"
    and "\<And>code c q. group_code NonTransReceiptCouples (table_for s) = Some code \<Longrightarrow>
      counter_new pr code 1 = Inr c \<Longrightarrow> counter_qb64 pr c = Inr q \<Longrightarrow> counter_reads pr code 1 q"
    and "is_ascii rest" "rest = [] \<or> hd rest \<noteq> CHR ''-''"
  shows "parse_next pr (out @ rest) =
    Some (Inr (\<lparr>pm_serder = s, pm_attachments = [ReceiptCouples [(prefix', cigar_raw cigar')]]\<rparr>, length out))"
  using assms by (rule compose_receipt_parse)

definition demo_cigar :: "cigar" where
  "demo_cigar = \<lparr>cg_matter = \<lparr>mat_code = ''0B'', mat_raw = replicate 64 (CHR ''s'')\<rparr>, cg_verfer = None\<rparr>"

lemma composed_receipt_parses_witness:
  "\<exists>out. compose_receipt demo_stream_prims demo_message key_a demo_cigar = Inr out \<and>
     parse_next demo_stream_prims out =
       Some (Inr (\<lparr>pm_serder = demo_message, pm_attachments = [ReceiptCouples [(key_a, replicate 64 (CHR ''s''))]]\<rparr>, length out))"
proof -
  have qb64: "cigar_qb64 demo_stream_prims demo_cigar = Inr (''0B'' @ replicate 64 (CHR ''s''))"
    by (simp add: cigar_qb64_def demo_cigar_def demo_stream_prims_def demo_matter_qb64_def)
  obtain out where out: "compose_receipt demo_stream_prims demo_message key_a demo_cigar = Inr out"
    using qb64 by (simp add: compose_receipt_def counter_for_def counter_code_for_def demo_table)
      (simp add: demo_stream_prims_def demo_prims_def demo_counter_new_def demo_counter_qb64_def)
  have "parse_next demo_stream_prims (out @ []) =
      Some (Inr (\<lparr>pm_serder = demo_message, pm_attachments = [ReceiptCouples [(key_a, cigar_raw demo_cigar)]]\<rparr>, length out))"
  proof (rule composed_receipt_parses [OF out])
    show "matter_reads demo_stream_prims key_a"
      by (simp add: matter_reads_def demo_stream_prims_def key_a_def sk_a_def is_ascii_def byte_def list_all_iff
          MIN_PRIMITIVE_SIZE_def demo_matter_fs_def demo_sizes_def demo_prims_def)
    show "counter_reads demo_stream_prims code 1 q"
      if "group_code NonTransReceiptCouples (table_for demo_message) = Some code"
        "counter_new demo_stream_prims code 1 = Inr c" "counter_qb64 demo_stream_prims c = Inr q" for code c q
      using that demo_counter_reads [of "[demo_doc demo_text]" code 1 c q]
      by (auto simp: demo_stream_prims_def demo_table byte_def)
    show "matter_reads demo_stream_prims q \<and> matter_from_qb64 demo_stream_prims q = Inr (cg_matter demo_cigar)"
      if "cigar_qb64 demo_stream_prims demo_cigar = Inr q" for q
    proof -
      have q: "q = ''0B'' @ replicate 64 (CHR ''s'')" using that by (simp add: qb64)
      have "matter_reads demo_stream_prims q"
        by (simp add: q matter_reads_def demo_stream_prims_def is_ascii_def byte_def list_all_iff MIN_PRIMITIVE_SIZE_def
            demo_matter_fs_def demo_sizes_def demo_prims_def)
      moreover have "matter_from_qb64 demo_stream_prims q = Inr (cg_matter demo_cigar)"
        using demo_matter_round_trip [of "''0B''" "replicate 64 (CHR ''s'')"]
        by (simp add: q demo_matter_new_def demo_sizes_def demo_cigar_def demo_stream_prims_def)
      ultimately show ?thesis by blast
    qed
  qed (simp_all add: demo_message_reads demo_message_head)
  with out show ?thesis by (simp add: cigar_raw_def demo_cigar_def)
qed

end
