(* ===== verification/Keri_Store.thy ===== *)
theory Keri_Store
  imports Keri_Errors
begin

section \<open>The store\<close>

text \<open>
  \<open>affinidi-keri-db/src/keys.rs\<close> (the database keys) and \<open>store.rs\<close> (the trait
  \<open>KeriStore\<close>). The trait is the record \<open>keri_store\<close> of its methods over a store state
  \<open>'s\<close>; a method that writes returns the new state. What the trait promises is stated
  over the abstract store \<open>store_view\<close> of one map per kind of data: the locale
  \<open>store_laws\<close> says how each method reads or changes it.
\<close>

subsection \<open>Database keys\<close>

definition sn_key :: "string \<Rightarrow> u64 \<Rightarrow> string" where
  "sn_key prefix' sn = prefix' @ ''.'' @ hex_padded 32 (unat sn)"

definition dg_key :: "string \<Rightarrow> string \<Rightarrow> string" where
  "dg_key prefix' digest = prefix' @ ''.'' @ digest"

definition sn_dg_key :: "string \<Rightarrow> u64 \<Rightarrow> string \<Rightarrow> string" where
  "sn_dg_key prefix' sn digest = prefix' @ ''.'' @ hex_padded 32 (unat sn) @ ''.'' @ digest"

definition split_prefix :: "string \<Rightarrow> string option" where
  "split_prefix key = (case split_on (CHR ''.'') key of [] \<Rightarrow> None | p # _ \<Rightarrow> Some p)"

definition split_sn :: "string \<Rightarrow> u64 option" where
  "split_sn key =
     (let parts = split_on (CHR ''.'') key in
      if 2 \<le> length parts then u64_from_hex (parts ! 1) else None)"

lemma length_sn_suffix [simp]: "length (hex_padded 32 (unat (sn :: u64))) = 32"
proof -
  have "unat sn < 16 ^ 32" by (rule less_le_trans [OF unat_u64_less]) simp
  then show ?thesis by (simp add: hex_padded_def length_to_radix_padded)
qed

lemma u64_from_hex_padded [simp]: "u64_from_hex (hex_padded w (unat (sn :: u64))) = Some sn"
  by (simp add: u64_from_hex_def hex_padded_def from_str_radix_to_radix_padded)

lemma sn_key_inject [simp]: "sn_key p m = sn_key q n \<longleftrightarrow> p = q \<and> m = n"
proof
  assume "sn_key p m = sn_key q n"
  then have "p @ ''.'' = q @ ''.'' \<and> hex_padded 32 (unat m) = hex_padded 32 (unat n)"
    unfolding sn_key_def append_assoc [symmetric] by (subst (asm) append_eq_append_conv) simp_all
  then have "p = q" "u64_from_hex (hex_padded 32 (unat m)) = u64_from_hex (hex_padded 32 (unat n))" by simp_all
  then show "p = q \<and> m = n" by simp
qed simp

lemma dot_not_hex: "CHR ''.'' \<notin> set (hex_padded w n)"
proof
  assume "CHR ''.'' \<in> set (hex_padded w n)"
  then have "48 \<le> byte (CHR ''.'')"
    unfolding hex_padded_def using set_to_radix_padded [of 16 "CHR ''.''" w n] by simp
  then show False by (simp add: byte_def)
qed

lemma split_sn_key [simp]:
  "CHR ''.'' \<notin> set p \<Longrightarrow> split_sn (sn_key p sn) = Some sn"
  "CHR ''.'' \<notin> set p \<Longrightarrow> split_prefix (sn_key p sn) = Some p"
  using split_on_append [of "CHR ''.''" p "hex_padded 32 (unat sn)"] split_on_no_sep [OF dot_not_hex [of 32 "unat sn"]]
  by (simp_all add: split_sn_def split_prefix_def sn_key_def)

text \<open>The other keys give their parts back too.\<close>

lemma split_dg_key:
  assumes "CHR ''.'' \<notin> set p"
  shows "split_prefix (dg_key p d) = Some p"
    "split_prefix (sn_dg_key p sn d) = Some p" "split_sn (sn_dg_key p sn d) = Some sn"
proof -
  have "split_on (CHR ''.'') (hex_padded 32 (unat sn) @ CHR ''.'' # d) = hex_padded 32 (unat sn) # split_on (CHR ''.'') d"
    by (rule split_on_append [OF dot_not_hex])
  then show "split_prefix (dg_key p d) = Some p" "split_prefix (sn_dg_key p sn d) = Some p" "split_sn (sn_dg_key p sn d) = Some sn"
    using split_on_append [OF assms] by (simp_all add: split_prefix_def split_sn_def dg_key_def sn_dg_key_def)
qed

interpretation sn_key_codec: codec "\<lambda>(p, sn). sn_key p sn"
  "\<lambda>k. Option.bind (split_prefix k) (\<lambda>p. map_option (\<lambda>sn. (p, sn)) (split_sn k))"
  "\<lambda>(p, sn). CHR ''.'' \<notin> set p"
  by unfold_locales auto


subsection \<open>The trait\<close>

record 's keri_store =
  st_put_event :: "'s \<Rightarrow> string \<Rightarrow> bytes \<Rightarrow> 's db_result"
  st_get_event :: "'s \<Rightarrow> string \<Rightarrow> bytes option db_result"
  st_append_kel :: "'s \<Rightarrow> string \<Rightarrow> u64 \<Rightarrow> string \<Rightarrow> 's db_result"
  st_get_kel_said :: "'s \<Rightarrow> string \<Rightarrow> u64 \<Rightarrow> string option db_result"
  st_get_kel :: "'s \<Rightarrow> string \<Rightarrow> (u64 \<times> string) list db_result"
  st_put_first_seen :: "'s \<Rightarrow> string \<Rightarrow> u64 \<Rightarrow> string \<Rightarrow> 's db_result"
  st_get_first_seen :: "'s \<Rightarrow> string \<Rightarrow> u64 \<Rightarrow> string option db_result"
  st_put_datetime :: "'s \<Rightarrow> string \<Rightarrow> string \<Rightarrow> 's db_result"
  st_get_datetime :: "'s \<Rightarrow> string \<Rightarrow> string option db_result"
  st_put_signatures :: "'s \<Rightarrow> string \<Rightarrow> bytes \<Rightarrow> 's db_result"
  st_get_signatures :: "'s \<Rightarrow> string \<Rightarrow> bytes option db_result"
  st_put_witness_sigs :: "'s \<Rightarrow> string \<Rightarrow> bytes \<Rightarrow> 's db_result"
  st_get_witness_sigs :: "'s \<Rightarrow> string \<Rightarrow> bytes option db_result"
  st_put_receipts :: "'s \<Rightarrow> string \<Rightarrow> bytes \<Rightarrow> 's db_result"
  st_get_receipts :: "'s \<Rightarrow> string \<Rightarrow> bytes option db_result"
  st_put_state :: "'s \<Rightarrow> string \<Rightarrow> bytes \<Rightarrow> 's db_result"
  st_get_state :: "'s \<Rightarrow> string \<Rightarrow> bytes option db_result"
  st_put_escrow_ooo :: "'s \<Rightarrow> string \<Rightarrow> u64 \<Rightarrow> bytes \<Rightarrow> 's db_result"
  st_get_escrow_ooo :: "'s \<Rightarrow> string \<Rightarrow> u64 \<Rightarrow> bytes option db_result"
  st_del_escrow_ooo :: "'s \<Rightarrow> string \<Rightarrow> u64 \<Rightarrow> 's db_result"
  st_put_escrow_ps :: "'s \<Rightarrow> string \<Rightarrow> u64 \<Rightarrow> bytes \<Rightarrow> 's db_result"
  st_get_escrow_ps :: "'s \<Rightarrow> string \<Rightarrow> u64 \<Rightarrow> bytes option db_result"
  st_del_escrow_ps :: "'s \<Rightarrow> string \<Rightarrow> u64 \<Rightarrow> 's db_result"
  st_put_hab :: "'s \<Rightarrow> string \<Rightarrow> bytes \<Rightarrow> 's db_result"
  st_get_hab :: "'s \<Rightarrow> string \<Rightarrow> bytes option db_result"
  st_list_habs :: "'s \<Rightarrow> string list db_result"
  st_del_hab :: "'s \<Rightarrow> string \<Rightarrow> 's db_result"
  st_latest_sn :: "'s \<Rightarrow> string \<Rightarrow> u64 option db_result"
  st_store_event :: "'s \<Rightarrow> string \<Rightarrow> bytes \<Rightarrow> string \<Rightarrow> u64 \<Rightarrow> bytes option \<Rightarrow> 's db_result"
  st_store_event_with_hab ::
    "'s \<Rightarrow> string \<Rightarrow> bytes \<Rightarrow> string \<Rightarrow> u64 \<Rightarrow> bytes option \<Rightarrow> string \<Rightarrow> bytes \<Rightarrow> 's db_result"

text \<open>A store in which storing an event never fails.\<close>

definition never_full :: "'s keri_store \<Rightarrow> bool" where
  "never_full st \<longleftrightarrow> (\<forall>s said raw p sn sigs. \<exists>s'. st_store_event st s said raw p sn sigs = Inr s')"


subsection \<open>What it promises\<close>

record store_view =
  sv_evts :: "string \<rightharpoonup> bytes"
  sv_kels :: "string \<times> u64 \<rightharpoonup> string"
  sv_fels :: "string \<times> u64 \<rightharpoonup> string"
  sv_dtss :: "string \<rightharpoonup> string"
  sv_sigs :: "string \<rightharpoonup> bytes"
  sv_wigs :: "string \<rightharpoonup> bytes"
  sv_rcts :: "string \<rightharpoonup> bytes"
  sv_states :: "string \<rightharpoonup> bytes"
  sv_ooes :: "string \<times> u64 \<rightharpoonup> bytes"
  sv_pses :: "string \<times> u64 \<rightharpoonup> bytes"
  sv_habs :: "string \<rightharpoonup> bytes"

definition with_event :: "string \<Rightarrow> bytes \<Rightarrow> string \<Rightarrow> u64 \<Rightarrow> bytes option \<Rightarrow> store_view \<Rightarrow> store_view" where
  "with_event said ev p sn sigs v =
     v\<lparr>sv_evts := (sv_evts v)(said \<mapsto> ev), sv_kels := (sv_kels v)((p, sn) \<mapsto> said),
       sv_fels := (sv_fels v)((p, sn) \<mapsto> said),
       sv_sigs := (case sigs of None \<Rightarrow> sv_sigs v | Some s \<Rightarrow> (sv_sigs v)(said \<mapsto> s))\<rparr>"

locale store_laws =
  fixes st :: "'s keri_store" and view :: "'s \<Rightarrow> store_view" and wf :: "'s \<Rightarrow> bool"
  assumes put_event: "st_put_event st s k x = Inr s' \<Longrightarrow> view s' = (view s)\<lparr>sv_evts := (sv_evts (view s))(k \<mapsto> x)\<rparr> \<and> (wf s \<longrightarrow> wf s')"
    and append_kel: "st_append_kel st s p n x = Inr s' \<Longrightarrow>
      view s' = (view s)\<lparr>sv_kels := (sv_kels (view s))((p, n) \<mapsto> x)\<rparr> \<and> (wf s \<longrightarrow> CHR ''.'' \<notin> set p \<longrightarrow> wf s')"
    and put_first_seen: "st_put_first_seen st s p n x = Inr s' \<Longrightarrow> view s' = (view s)\<lparr>sv_fels := (sv_fels (view s))((p, n) \<mapsto> x)\<rparr> \<and> (wf s \<longrightarrow> wf s')"
    and put_datetime: "st_put_datetime st s k x = Inr s' \<Longrightarrow> view s' = (view s)\<lparr>sv_dtss := (sv_dtss (view s))(k \<mapsto> x)\<rparr> \<and> (wf s \<longrightarrow> wf s')"
    and put_signatures: "st_put_signatures st s k x = Inr s' \<Longrightarrow> view s' = (view s)\<lparr>sv_sigs := (sv_sigs (view s))(k \<mapsto> x)\<rparr> \<and> (wf s \<longrightarrow> wf s')"
    and put_witness_sigs: "st_put_witness_sigs st s k x = Inr s' \<Longrightarrow> view s' = (view s)\<lparr>sv_wigs := (sv_wigs (view s))(k \<mapsto> x)\<rparr> \<and> (wf s \<longrightarrow> wf s')"
    and put_receipts: "st_put_receipts st s k x = Inr s' \<Longrightarrow> view s' = (view s)\<lparr>sv_rcts := (sv_rcts (view s))(k \<mapsto> x)\<rparr> \<and> (wf s \<longrightarrow> wf s')"
    and put_state: "st_put_state st s k x = Inr s' \<Longrightarrow> view s' = (view s)\<lparr>sv_states := (sv_states (view s))(k \<mapsto> x)\<rparr> \<and> (wf s \<longrightarrow> wf s')"
    and put_escrow_ooo: "st_put_escrow_ooo st s p n x = Inr s' \<Longrightarrow> view s' = (view s)\<lparr>sv_ooes := (sv_ooes (view s))((p, n) \<mapsto> x)\<rparr> \<and> (wf s \<longrightarrow> wf s')"
    and del_escrow_ooo: "st_del_escrow_ooo st s p n = Inr s' \<Longrightarrow> view s' = (view s)\<lparr>sv_ooes := (sv_ooes (view s))((p, n) := None)\<rparr> \<and> (wf s \<longrightarrow> wf s')"
    and put_escrow_ps: "st_put_escrow_ps st s p n x = Inr s' \<Longrightarrow> view s' = (view s)\<lparr>sv_pses := (sv_pses (view s))((p, n) \<mapsto> x)\<rparr> \<and> (wf s \<longrightarrow> wf s')"
    and del_escrow_ps: "st_del_escrow_ps st s p n = Inr s' \<Longrightarrow> view s' = (view s)\<lparr>sv_pses := (sv_pses (view s))((p, n) := None)\<rparr> \<and> (wf s \<longrightarrow> wf s')"
    and put_hab: "st_put_hab st s k x = Inr s' \<Longrightarrow> view s' = (view s)\<lparr>sv_habs := (sv_habs (view s))(k \<mapsto> x)\<rparr> \<and> (wf s \<longrightarrow> wf s')"
    and del_hab: "st_del_hab st s k = Inr s' \<Longrightarrow> view s' = (view s)\<lparr>sv_habs := (sv_habs (view s))(k := None)\<rparr> \<and> (wf s \<longrightarrow> wf s')"
    and store_event: "st_store_event st s said ev p n sigs = Inr s' \<Longrightarrow>
      view s' = with_event said ev p n sigs (view s) \<and> (wf s \<longrightarrow> CHR ''.'' \<notin> set p \<longrightarrow> wf s')"
    and store_event_with_hab: "st_store_event_with_hab st s said ev p n sigs k x = Inr s' \<Longrightarrow>
      view s' = (with_event said ev p n sigs (view s))\<lparr>sv_habs := (sv_habs (view s))(k \<mapsto> x)\<rparr> \<and>
      (wf s \<longrightarrow> CHR ''.'' \<notin> set p \<longrightarrow> wf s')"
    and get_event: "st_get_event st s k = Inr r \<Longrightarrow> r = sv_evts (view s) k"
    and get_kel_said: "st_get_kel_said st s p n = Inr r \<Longrightarrow> r = sv_kels (view s) (p, n)"
    and get_first_seen: "st_get_first_seen st s p n = Inr r \<Longrightarrow> r = sv_fels (view s) (p, n)"
    and get_datetime: "st_get_datetime st s k = Inr r \<Longrightarrow> r = sv_dtss (view s) k"
    and get_signatures: "st_get_signatures st s k = Inr r \<Longrightarrow> r = sv_sigs (view s) k"
    and get_witness_sigs: "st_get_witness_sigs st s k = Inr r \<Longrightarrow> r = sv_wigs (view s) k"
    and get_receipts: "st_get_receipts st s k = Inr r \<Longrightarrow> r = sv_rcts (view s) k"
    and get_state: "st_get_state st s k = Inr r \<Longrightarrow> r = sv_states (view s) k"
    and get_escrow_ooo: "st_get_escrow_ooo st s p n = Inr r \<Longrightarrow> r = sv_ooes (view s) (p, n)"
    and get_escrow_ps: "st_get_escrow_ps st s p n = Inr r \<Longrightarrow> r = sv_pses (view s) (p, n)"
    and get_hab: "st_get_hab st s k = Inr r \<Longrightarrow> r = sv_habs (view s) k"
    and list_habs: "st_list_habs st s = Inr ks \<Longrightarrow> set ks = dom (sv_habs (view s)) \<and> distinct ks"
    and get_kel: "st_get_kel st s p = Inr es \<Longrightarrow> wf s \<Longrightarrow> CHR ''.'' \<notin> set p \<Longrightarrow>
      sorted (map fst es) \<and> distinct (map fst es) \<and> map_of es = (\<lambda>n. sv_kels (view s) (p, n))"
    and latest_sn: "st_latest_sn st s p = Inr lt \<Longrightarrow>
      \<exists>es. st_get_kel st s p = Inr es \<and> lt = (if es = [] then None else Some (fst (last es)))"
begin

text \<open>What a reader sees after an event was stored, and what it still sees of the others.\<close>

lemma read_event:
  assumes "st_store_event st s said ev p n sigs = Inr s'"
  shows "st_get_event st s' k = Inr r \<Longrightarrow> r = (if k = said then Some ev else sv_evts (view s) k)"
    and "st_get_kel_said st s' q m = Inr t \<Longrightarrow> t = (if (q, m) = (p, n) then Some said else sv_kels (view s) (q, m))"
    and "st_get_first_seen st s' q m = Inr t \<Longrightarrow> t = (if (q, m) = (p, n) then Some said else sv_fels (view s) (q, m))"
  using store_event [OF assms] get_event [of s' k] get_kel_said [of s' q m] get_first_seen [of s' q m]
  by (auto simp: with_event_def)

lemma sn_less_of_last:
  assumes "sorted (map fst es)" "x \<in> set es"
  shows "fst x \<le> fst (last (es :: (u64 \<times> string) list))"
proof -
  obtain i where "i < length es" "x = es ! i" using assms(2) by (auto simp: in_set_conv_nth)
  moreover have "es \<noteq> []" using assms(2) by auto
  ultimately show ?thesis
    using sorted_nth_mono [OF assms(1), of i "length es - 1"] by (simp add: last_conv_nth)
qed

text \<open>The latest sequence number is the greatest one the log of the prefix holds.\<close>

lemma latest_is_max:
  assumes "st_latest_sn st s p = Inr r" "wf s" "CHR ''.'' \<notin> set p"
  shows "case r of None \<Rightarrow> \<forall>n. sv_kels (view s) (p, n) = None
    | Some n \<Rightarrow> sv_kels (view s) (p, n) \<noteq> None \<and> (\<forall>m. sv_kels (view s) (p, m) \<noteq> None \<longrightarrow> m \<le> n)"
proof -
  from latest_sn [OF assms(1)] obtain es where es: "st_get_kel st s p = Inr es"
    and r: "r = (if es = [] then None else Some (fst (last es)))" by blast
  from get_kel [OF es assms(2,3)] have so: "sorted (map fst es)"
    and mo: "map_of es = (\<lambda>n. sv_kels (view s) (p, n))" by simp_all
  have dom: "sv_kels (view s) (p, m) \<noteq> None \<longleftrightarrow> m \<in> fst ` set es" for m
    unfolding mo [THEN fun_cong, symmetric] by (simp add: map_of_eq_None_iff)
  show ?thesis
  proof (cases "es = []")
    case True
    then have "sv_kels (view s) (p, m) = None" for m using dom [of m] by simp
    with r True show ?thesis by simp
  next
    case False
    then have "fst (last es) \<in> fst ` set es" by simp
    moreover have "m \<le> fst (last es)" if "m \<in> fst ` set es" for m
      using that sn_less_of_last [OF so] by auto
    ultimately show ?thesis using r False dom by auto
  qed
qed

end

end
