(* ===== verification/Keri_Config.thy ===== *)
theory Keri_Config
  imports Keri_Prelude
begin

section \<open>Configuration\<close>

text \<open>
  \<open>affinidi-keri/src/config.rs\<close>: what an inception and a rotation are asked to do, their
  defaults, and the builder. A \<open>usize\<close> is a natural number. The builder is a record that
  holds the configuration; each setter replaces one field of it.
\<close>

record inception_config =
  ic_code :: string
  ic_count :: nat
  ic_threshold :: nat
  ic_next_count :: nat
  ic_next_threshold :: nat
  ic_transferable :: bool
  ic_backer_threshold :: nat
  ic_backers :: "string list"
  ic_config_traits :: "string list"
  ic_salt :: "bytes option"

definition inception_config_default :: "inception_config" where
  "inception_config_default =
     \<lparr>ic_code = ''A'', ic_count = 1, ic_threshold = 1, ic_next_count = 1, ic_next_threshold = 1,
      ic_transferable = True, ic_backer_threshold = 0, ic_backers = [], ic_config_traits = [], ic_salt = None\<rparr>"

record inception_config_builder =
  icb_config :: inception_config

definition inception_config_new_builder :: "inception_config_builder" where
  "inception_config_new_builder = \<lparr>icb_config = inception_config_default\<rparr>"

definition builder_code :: "string \<Rightarrow> inception_config_builder \<Rightarrow> inception_config_builder" where
  "builder_code code b = b\<lparr>icb_config := (icb_config b)\<lparr>ic_code := code\<rparr>\<rparr>"

definition builder_count :: "nat \<Rightarrow> inception_config_builder \<Rightarrow> inception_config_builder" where
  "builder_count n b = b\<lparr>icb_config := (icb_config b)\<lparr>ic_count := n\<rparr>\<rparr>"

definition builder_threshold :: "nat \<Rightarrow> inception_config_builder \<Rightarrow> inception_config_builder" where
  "builder_threshold n b = b\<lparr>icb_config := (icb_config b)\<lparr>ic_threshold := n\<rparr>\<rparr>"

definition builder_next_count :: "nat \<Rightarrow> inception_config_builder \<Rightarrow> inception_config_builder" where
  "builder_next_count n b = b\<lparr>icb_config := (icb_config b)\<lparr>ic_next_count := n\<rparr>\<rparr>"

definition builder_next_threshold :: "nat \<Rightarrow> inception_config_builder \<Rightarrow> inception_config_builder" where
  "builder_next_threshold n b = b\<lparr>icb_config := (icb_config b)\<lparr>ic_next_threshold := n\<rparr>\<rparr>"

definition builder_transferable :: "bool \<Rightarrow> inception_config_builder \<Rightarrow> inception_config_builder" where
  "builder_transferable t b = b\<lparr>icb_config := (icb_config b)\<lparr>ic_transferable := t\<rparr>\<rparr>"

definition builder_backer_threshold :: "nat \<Rightarrow> inception_config_builder \<Rightarrow> inception_config_builder" where
  "builder_backer_threshold n b = b\<lparr>icb_config := (icb_config b)\<lparr>ic_backer_threshold := n\<rparr>\<rparr>"

definition builder_backers :: "string list \<Rightarrow> inception_config_builder \<Rightarrow> inception_config_builder" where
  "builder_backers bs b = b\<lparr>icb_config := (icb_config b)\<lparr>ic_backers := bs\<rparr>\<rparr>"

definition builder_config_traits :: "string list \<Rightarrow> inception_config_builder \<Rightarrow> inception_config_builder" where
  "builder_config_traits ts b = b\<lparr>icb_config := (icb_config b)\<lparr>ic_config_traits := ts\<rparr>\<rparr>"

definition builder_salt :: "bytes \<Rightarrow> inception_config_builder \<Rightarrow> inception_config_builder" where
  "builder_salt salt b = b\<lparr>icb_config := (icb_config b)\<lparr>ic_salt := Some salt\<rparr>\<rparr>"

definition builder_build :: "inception_config_builder \<Rightarrow> inception_config" where
  "builder_build b = icb_config b"

text \<open>Every configuration with a salt is reached by the setters.\<close>

lemma builder_reaches:
  "ic_salt c = Some salt \<Longrightarrow>
     builder_build (builder_salt salt (builder_config_traits (ic_config_traits c) (builder_backers (ic_backers c)
       (builder_backer_threshold (ic_backer_threshold c) (builder_transferable (ic_transferable c)
       (builder_next_threshold (ic_next_threshold c) (builder_next_count (ic_next_count c)
       (builder_threshold (ic_threshold c) (builder_count (ic_count c) (builder_code (ic_code c) inception_config_new_builder)))))))))) = c"
  by (cases c) (simp add: builder_build_def builder_salt_def builder_config_traits_def builder_backers_def
      builder_backer_threshold_def builder_transferable_def builder_next_threshold_def builder_next_count_def builder_threshold_def
      builder_count_def builder_code_def inception_config_new_builder_def inception_config_default_def)

record rotation_config =
  rc_count :: nat
  rc_threshold :: nat
  rc_next_count :: nat
  rc_next_threshold :: nat
  rc_backers_add :: "string list"
  rc_backers_remove :: "string list"

definition rotation_config_default :: "rotation_config" where
  "rotation_config_default =
     \<lparr>rc_count = 1, rc_threshold = 1, rc_next_count = 1, rc_next_threshold = 1,
      rc_backers_add = [], rc_backers_remove = []\<rparr>"

end
