(* ===== verification/Keri_Hab.thy ===== *)
theory Keri_Hab
  imports Keri_Composer Keri_Store Keri_Config Keri_Kel
begin

section \<open>Hab: one identifier\<close>

text \<open>
  \<open>affinidi-keri/src/hab.rs\<close>. The record \<open>hab\<close> is the struct. The three events a hab
  makes share their tail (fix the version string, compute the SAID, build the message,
  sign, count, compose), which the source writes out three times: it is \<open>sign_event\<close>. The
  optional store is a trait implementation with its state; the result carries the state it
  leaves. A rotation takes the pre-rotated keys out of the hab before anything can fail, so
  \<open>rotate_inner\<close> returns the hab it leaves next to the result. Indexing an empty list of
  signers, which panics, is \<open>None\<close>.
\<close>

record hab =
  hb_name :: string
  hb_prefix :: string
  hb_signers :: "signer list"
  hb_next_signers :: "signer list"
  hb_salter :: salter
  hb_transferable :: bool
  hb_code :: string
  hb_last_said :: string
  hb_sn :: u64
  hb_key_gen :: nat
  hb_signer_gen :: nat
  hb_next_gen :: nat
  hb_backer_threshold :: nat
  hb_backers :: "string list"

record hab_state =
  hs_name :: string
  hs_prefix :: string
  hs_code :: string
  hs_transferable :: bool
  hs_signer_gen :: nat
  hs_signer_count :: nat
  hs_next_gen :: nat
  hs_next_count :: nat
  hs_key_gen :: nat
  hs_last_said :: string
  hs_sn :: u64
  hs_backer_threshold :: nat
  hs_backers :: "string list"

record signed_event =
  sd_said :: string
  sd_raw :: bytes
  sd_signatures :: bytes
  sd_composed :: bytes


subsection \<open>The state as a JSON value\<close>

text \<open>\<open>#[derive(Serialize, Deserialize)]\<close> of \<open>HabState\<close>; a \<open>usize\<close> is written as a number.\<close>

definition hab_state_fields :: "string list" where
  "hab_state_fields =
     [''name'', ''prefix'', ''code'', ''transferable'', ''signer_gen'', ''signer_count'', ''next_gen'',
      ''next_count'', ''key_gen'', ''last_said'', ''sn'', ''backer_threshold'', ''backers'']"

definition usize_json :: "nat \<Rightarrow> json" where
  "usize_json n = JNumber (PosInt (of_nat n))"

fun as_bool :: "json \<Rightarrow> bool option" where
  "as_bool (JBool b) = Some b"
| "as_bool _ = None"

fun as_number :: "json \<Rightarrow> u64 option" where
  "as_number (JNumber n) = as_u64 n"
| "as_number _ = None"

definition usize_field :: "json list \<Rightarrow> nat \<Rightarrow> nat option" where
  "usize_field fs i = map_option unat (as_number (fs ! i))"

definition hab_state_to_value :: "hab_state \<Rightarrow> json" where
  "hab_state_to_value s =
     JObject
       [(''name'', JString (hs_name s)), (''prefix'', JString (hs_prefix s)), (''code'', JString (hs_code s)),
        (''transferable'', JBool (hs_transferable s)), (''signer_gen'', usize_json (hs_signer_gen s)),
        (''signer_count'', usize_json (hs_signer_count s)), (''next_gen'', usize_json (hs_next_gen s)),
        (''next_count'', usize_json (hs_next_count s)), (''key_gen'', usize_json (hs_key_gen s)),
        (''last_said'', JString (hs_last_said s)), (''sn'', JNumber (PosInt (hs_sn s))),
        (''backer_threshold'', usize_json (hs_backer_threshold s)), (''backers'', jstrings (hs_backers s))]"

definition hab_state_from_value :: "json \<Rightarrow> hab_state option" where
  "hab_state_from_value v =
     Option.bind (struct_fields hab_state_fields v) (\<lambda>fs.
     Option.bind (str_field fs 0) (\<lambda>name'.
     Option.bind (str_field fs 1) (\<lambda>prefix'.
     Option.bind (str_field fs 2) (\<lambda>code'.
     Option.bind (as_bool (fs ! 3)) (\<lambda>transferable'.
     Option.bind (usize_field fs 4) (\<lambda>signer_gen'.
     Option.bind (usize_field fs 5) (\<lambda>signer_count'.
     Option.bind (usize_field fs 6) (\<lambda>next_gen'.
     Option.bind (usize_field fs 7) (\<lambda>next_count'.
     Option.bind (usize_field fs 8) (\<lambda>key_gen'.
     Option.bind (str_field fs 9) (\<lambda>last_said'.
     Option.bind (as_number (fs ! 10)) (\<lambda>sn'.
     Option.bind (usize_field fs 11) (\<lambda>backer_threshold'.
     Option.bind (strs_field fs 12) (\<lambda>backers'.
     Some \<lparr>hs_name = name', hs_prefix = prefix', hs_code = code', hs_transferable = transferable',
           hs_signer_gen = signer_gen', hs_signer_count = signer_count', hs_next_gen = next_gen',
           hs_next_count = next_count', hs_key_gen = key_gen', hs_last_said = last_said', hs_sn = sn',
           hs_backer_threshold = backer_threshold', hs_backers = backers'\<rparr>))))))))))))))"

text \<open>The numbers of a state fit a \<open>usize\<close>.\<close>

definition hab_state_ok :: "hab_state \<Rightarrow> bool" where
  "hab_state_ok s \<longleftrightarrow>
     list_all (\<lambda>n. n < 2 ^ 64)
       [hs_signer_gen s, hs_signer_count s, hs_next_gen s, hs_next_count s, hs_key_gen s, hs_backer_threshold s]"

lemma usize_round_trip [simp]: "n < 18446744073709551616 \<Longrightarrow> as_number (usize_json n) = Some (of_nat n)"
  by (simp add: usize_json_def)

lemma unat_of_nat_u64 [simp]: "n < 18446744073709551616 \<Longrightarrow> unat (of_nat n :: u64) = n"
  by (simp add: unat_of_nat take_bit_nat_eq_self)

interpretation hab_state_codec: codec hab_state_to_value hab_state_from_value hab_state_ok
proof
  fix s assume "hab_state_ok s"
  then show "hab_state_from_value (hab_state_to_value s) = Some s"
    by (simp add: hab_state_ok_def hab_state_from_value_def hab_state_to_value_def struct_fields_object
        hab_state_fields_def str_field_def strs_field_def usize_field_def)
qed


subsection \<open>Making a signed event\<close>

text \<open>\<open>sad["k"]\<close> read and compared as \<open>serde_json\<close> does: \<open>Null\<close> for a missing member.\<close>

definition member_or_null :: "json \<Rightarrow> string \<Rightarrow> json" where
  "member_or_null v k = (case jget v k of Some x \<Rightarrow> x | None \<Rightarrow> JNull)"

definition same_member :: "json option \<Rightarrow> json option \<Rightarrow> bool" where
  "same_member a b = (case (a, b) of (Some x, Some y) \<Rightarrow> jeq x y | (None, None) \<Rightarrow> True | _ \<Rightarrow> False)"

definition version_text :: "nat \<Rightarrow> string" where
  "version_text n = ''KERI10JSON'' @ hex_padded 6 n @ ''_''"

definition fix_version_string :: "prims \<Rightarrow> json \<Rightarrow> json keri_result" where
  "fix_version_string pr sad =
     (let placeholder = JString (replicate 44 (CHR ''#''));
          self_addressing = same_member (jget sad ''d'') (jget sad ''i'');
          orig_d = member_or_null sad ''d'';
          orig_i = member_or_null sad ''i'';
          sad1 = jinsert ''d'' placeholder sad;
          sad2 = (if self_addressing then jinsert ''i'' placeholder sad1 else sad1)
      in bindR (map_err (\<lambda>e. KeriCore (Json e)) (json_to_vec pr sad2)) (\<lambda>temp_raw.
         Inr (jinsert ''i'' orig_i (jinsert ''d'' orig_d
                (jinsert ''v'' (JString (version_text (length temp_raw))) sad2)))))"

text \<open>The loop that signs with every signer, its index in the signature.\<close>

fun sign_loop :: "prims \<Rightarrow> bytes \<Rightarrow> nat \<Rightarrow> signer list \<Rightarrow> bytes keri_result" where
  "sign_loop pr message i [] = Inr []"
| "sign_loop pr message i (signer' # signers') =
     bindR (map_err KeriCrypto (signer_sign_indexed pr signer' message i True)) (\<lambda>siger'.
     bindR (map_err KeriCrypto (siger_qb64 pr siger')) (\<lambda>qb64.
     bindR (sign_loop pr message (i + 1) signers') (\<lambda>rest. Inr (qb64 @ rest))))"

definition group_counter :: "prims \<Rightarrow> serder \<Rightarrow> group_kind \<Rightarrow> nat \<Rightarrow> string keri_result" where
  "group_counter pr serder' kind n =
     bindR (core (counter_code_for serder' kind)) (\<lambda>code.
     bindR (map_err KeriCesr (counter_new pr code n)) (\<lambda>c.
     map_err KeriCesr (counter_qb64 pr c)))"

definition sign_event :: "prims \<Rightarrow> signer list \<Rightarrow> json \<Rightarrow> signed_event keri_result" where
  "sign_event pr signers' sad =
     bindR (fix_version_string pr sad) (\<lambda>sad1.
     bindR (core (compute_said pr sad1 ''d'' ''E'' JsonKind)) (\<lambda>(computed_said, sad2).
     bindR (core (serder_new pr JsonKind sad2)) (\<lambda>serder'.
     bindR (sign_loop pr (serder_raw serder') 0 signers') (\<lambda>sig_bytes.
     bindR (group_counter pr serder' ControllerIdxSigs (length signers')) (\<lambda>counter_text.
     Inr \<lparr>sd_said = computed_said, sd_raw = serder_raw serder', sd_signatures = sig_bytes,
          sd_composed = serder_raw serder' @ counter_text @ sig_bytes\<rparr>)))))"


subsection \<open>Keys\<close>

text \<open>The signers at one generation of the derivation path.\<close>

definition derive_signers :: "prims \<Rightarrow> salter \<Rightarrow> string \<Rightarrow> bool \<Rightarrow> nat \<Rightarrow> nat \<Rightarrow> signer list keri_result" where
  "derive_signers pr salter' code transferable generation count' =
     mapR (\<lambda>i. map_err KeriCrypto (salter_signer pr salter' code (dec generation @ ''.'' @ dec i) ''low'' transferable))
       [0..<count']"

definition key_texts :: "prims \<Rightarrow> signer list \<Rightarrow> string list keri_result" where
  "key_texts pr signers' = mapR (\<lambda>s. map_err KeriCrypto (verfer_qb64 pr (sn_verfer s))) signers'"

text \<open>The commitment to a next key: the digest of its qb64 text.\<close>

definition next_digest :: "prims \<Rightarrow> signer \<Rightarrow> string crypto_result" where
  "next_digest pr s =
     bindR (verfer_qb64 pr (sn_verfer s)) (\<lambda>q.
     bindR (diger_from_data pr ''E'' q) (\<lambda>d. diger_qb64 pr d))"

definition next_key_digests :: "prims \<Rightarrow> signer list \<Rightarrow> string list keri_result" where
  "next_key_digests pr signers' = mapR (\<lambda>s. map_err KeriCrypto (next_digest pr s)) signers'"


subsection \<open>Inception\<close>

definition icp_sad :: "inception_config \<Rightarrow> string list \<Rightarrow> string list \<Rightarrow> json" where
  "icp_sad config keys digests =
     JObject
       [(''v'', JString ''KERI10JSON000000_''), (''t'', JString ''icp''), (''d'', JString []), (''i'', JString []),
        (''s'', JString ''0''), (''kt'', JString (dec (ic_threshold config))), (''k'', jstrings keys),
        (''nt'', JString (dec (ic_next_threshold config))), (''n'', jstrings digests),
        (''bt'', JString (dec (ic_backer_threshold config))), (''b'', jstrings (ic_backers config)),
        (''c'', jstrings (ic_config_traits config)), (''a'', JArray [])]"

definition icp_hab_data :: "string \<Rightarrow> inception_config \<Rightarrow> string \<Rightarrow> json" where
  "icp_hab_data name' config said =
     JObject
       [(''name'', JString name'), (''prefix'', JString said), (''code'', JString (ic_code config)),
        (''transferable'', JBool (ic_transferable config)), (''signer_gen'', usize_json 0),
        (''signer_count'', usize_json (ic_count config)), (''next_gen'', usize_json 1),
        (''next_count'', usize_json (ic_next_count config)), (''key_gen'', usize_json 2),
        (''last_said'', JString said), (''sn'', usize_json 0),
        (''backer_threshold'', usize_json (ic_backer_threshold config)), (''backers'', jstrings (ic_backers config))]"

text \<open>\<open>rand16\<close> is what the random generator gives when the configuration has no salt.\<close>

definition incept_inner ::
    "prims \<Rightarrow> bytes \<Rightarrow> string \<Rightarrow> inception_config \<Rightarrow> 's keri_store option \<Rightarrow> 's \<Rightarrow>
     (hab \<times> signed_event \<times> 's) keri_result" where
  "incept_inner pr rand16 name' config store s =
     bindR (map_err KeriCrypto (case ic_salt config of Some salt \<Rightarrow> salter_new pr ''0A'' salt
                                                   | None \<Rightarrow> salter_new_random pr rand16)) (\<lambda>salter'.
     bindR (derive_signers pr salter' (ic_code config) (ic_transferable config) 0 (ic_count config)) (\<lambda>signers'.
     bindR (derive_signers pr salter' (ic_code config) (ic_transferable config) 1 (ic_next_count config)) (\<lambda>next_signers.
     bindR (key_texts pr signers') (\<lambda>keys.
     bindR (next_key_digests pr next_signers) (\<lambda>digests.
     bindR (sign_event pr signers' (icp_sad config keys digests)) (\<lambda>event.
     bindR (map_err KeriConfig (json_to_vec pr (icp_hab_data name' config (sd_said event)))) (\<lambda>hab_bytes.
     bindR (case store of
              None \<Rightarrow> Inr s
            | Some st \<Rightarrow> db (st_store_event_with_hab st s (sd_said event) (sd_raw event) (sd_said event) 0
                          (Some (sd_signatures event)) name' hab_bytes)) (\<lambda>s'.
     Inr (\<lparr>hb_name = name', hb_prefix = sd_said event, hb_signers = signers', hb_next_signers = next_signers,
           hb_salter = salter', hb_transferable = ic_transferable config, hb_code = ic_code config,
           hb_last_said = sd_said event, hb_sn = 0, hb_key_gen = 2, hb_signer_gen = 0, hb_next_gen = 1,
           hb_backer_threshold = ic_backer_threshold config, hb_backers = ic_backers config\<rparr>,
          event, s')))))))))"

definition hab_incept ::
    "prims \<Rightarrow> bytes \<Rightarrow> string \<Rightarrow> inception_config \<Rightarrow> 's keri_store \<Rightarrow> 's \<Rightarrow> (hab \<times> bytes \<times> 's) keri_result" where
  "hab_incept pr rand16 name' config st s =
     bindR (incept_inner pr rand16 name' config (Some st) s) (\<lambda>(h, event, s'). Inr (h, sd_composed event, s'))"

definition hab_incept_event ::
    "prims \<Rightarrow> bytes \<Rightarrow> string \<Rightarrow> inception_config \<Rightarrow> (hab \<times> signed_event) keri_result" where
  "hab_incept_event pr rand16 name' config =
     bindR (incept_inner pr rand16 name' config None ()) (\<lambda>(h, event, _). Inr (h, event))"


subsection \<open>Rotation\<close>

definition rot_sad :: "hab \<Rightarrow> rotation_config \<Rightarrow> u64 \<Rightarrow> string list \<Rightarrow> string list \<Rightarrow> json" where
  "rot_sad h config new_sn keys digests =
     JObject
       [(''v'', JString ''KERI10JSON000000_''), (''t'', JString ''rot''), (''d'', JString []),
        (''i'', JString (hb_prefix h)), (''s'', JString (u64_hex new_sn)), (''p'', JString (hb_last_said h)),
        (''kt'', JString (dec (rc_threshold config))), (''k'', jstrings keys),
        (''nt'', JString (dec (rc_next_threshold config))), (''n'', jstrings digests),
        (''bt'', JString (dec (hb_backer_threshold h))), (''br'', jstrings (rc_backers_remove config)),
        (''ba'', jstrings (rc_backers_add config)), (''c'', JArray []), (''a'', JArray [])]"

definition persist ::
    "'s keri_store option \<Rightarrow> 's \<Rightarrow> signed_event \<Rightarrow> string \<Rightarrow> u64 \<Rightarrow> 's keri_result" where
  "persist store s event prefix' sn =
     (case store of
        None \<Rightarrow> Inr s
      | Some st \<Rightarrow> db (st_store_event st s (sd_said event) (sd_raw event) prefix' sn (Some (sd_signatures event))))"

text \<open>What can fail after the pre-rotated keys were taken: the new next keys, the event, the store.\<close>

definition rotation_steps ::
    "prims \<Rightarrow> rotation_config \<Rightarrow> 's keri_store option \<Rightarrow> 's \<Rightarrow> hab \<Rightarrow> (signer list \<times> signed_event \<times> 's) keri_result" where
  "rotation_steps pr config store s h =
     bindR (derive_signers pr (hb_salter h) (hb_code h) (hb_transferable h) (hb_key_gen h + 1) (rc_next_count config))
       (\<lambda>new_next_signers.
     bindR (key_texts pr (hb_next_signers h)) (\<lambda>keys.
     bindR (next_key_digests pr new_next_signers) (\<lambda>digests.
     bindR (sign_event pr (hb_next_signers h) (rot_sad h config (hb_sn h + 1) keys digests)) (\<lambda>event.
     bindR (persist store s event (hb_prefix h) (hb_sn h + 1)) (\<lambda>s'.
     Inr (new_next_signers, event, s'))))))"

definition rotate_inner ::
    "prims \<Rightarrow> rotation_config \<Rightarrow> 's keri_store option \<Rightarrow> 's \<Rightarrow> hab \<Rightarrow> (signed_event \<times> 's) keri_result \<times> hab" where
  "rotate_inner pr config store s h =
     (if \<not> hb_transferable h then (Inl (KeriConfig ''cannot rotate a non-transferable identifier''), h)
      else
        (case rotation_steps pr config store s h of
           Inl e \<Rightarrow> (Inl e, h\<lparr>hb_next_signers := []\<rparr>)
         | Inr (new_next_signers, event, s') \<Rightarrow>
             (Inr (event, s'),
              h\<lparr>hb_signers := hb_next_signers h, hb_next_signers := new_next_signers,
                hb_last_said := sd_said event, hb_sn := hb_sn h + 1, hb_key_gen := hb_key_gen h + 1 + 1,
                hb_signer_gen := hb_next_gen h, hb_next_gen := hb_key_gen h + 1,
                hb_backers := new_backers (hb_backers h) (rc_backers_remove config) (rc_backers_add config)\<rparr>)))"

definition hab_rotate ::
    "prims \<Rightarrow> rotation_config \<Rightarrow> 's keri_store \<Rightarrow> 's \<Rightarrow> hab \<Rightarrow> (bytes \<times> 's) keri_result \<times> hab" where
  "hab_rotate pr config st s h =
     (case rotate_inner pr config (Some st) s h of
        (r, h') \<Rightarrow> (bindR r (\<lambda>(event, s'). Inr (sd_composed event, s')), h'))"

definition hab_rotate_event :: "prims \<Rightarrow> rotation_config \<Rightarrow> hab \<Rightarrow> signed_event keri_result \<times> hab" where
  "hab_rotate_event pr config h =
     (case rotate_inner pr config None () h of (r, h') \<Rightarrow> (bindR r (\<lambda>(event, _). Inr event), h'))"


subsection \<open>Interaction\<close>

definition ixn_sad :: "hab \<Rightarrow> u64 \<Rightarrow> json list \<Rightarrow> json" where
  "ixn_sad h new_sn anchors =
     JObject
       [(''v'', JString ''KERI10JSON000000_''), (''t'', JString ''ixn''), (''d'', JString []),
        (''i'', JString (hb_prefix h)), (''s'', JString (u64_hex new_sn)), (''p'', JString (hb_last_said h)),
        (''a'', JArray anchors)]"

definition interact_inner ::
    "prims \<Rightarrow> json list \<Rightarrow> 's keri_store option \<Rightarrow> 's \<Rightarrow> hab \<Rightarrow> (signed_event \<times> 's \<times> hab) keri_result" where
  "interact_inner pr anchors store s h =
     bindR (sign_event pr (hb_signers h) (ixn_sad h (hb_sn h + 1) anchors)) (\<lambda>event.
     bindR (persist store s event (hb_prefix h) (hb_sn h + 1)) (\<lambda>s'.
     Inr (event, s', h\<lparr>hb_last_said := sd_said event, hb_sn := hb_sn h + 1\<rparr>)))"

definition hab_interact ::
    "prims \<Rightarrow> json list \<Rightarrow> 's keri_store \<Rightarrow> 's \<Rightarrow> hab \<Rightarrow> (bytes \<times> 's \<times> hab) keri_result" where
  "hab_interact pr anchors st s h =
     bindR (interact_inner pr anchors (Some st) s h) (\<lambda>(event, s', h'). Inr (sd_composed event, s', h'))"

definition hab_interact_event :: "prims \<Rightarrow> json list \<Rightarrow> hab \<Rightarrow> (signed_event \<times> hab) keri_result" where
  "hab_interact_event pr anchors h =
     bindR (interact_inner pr anchors None () h) (\<lambda>(event, _, h'). Inr (event, h'))"


subsection \<open>State and resumption\<close>

definition hab_to_state :: "hab \<Rightarrow> hab_state" where
  "hab_to_state h =
     \<lparr>hs_name = hb_name h, hs_prefix = hb_prefix h, hs_code = hb_code h, hs_transferable = hb_transferable h,
      hs_signer_gen = hb_signer_gen h, hs_signer_count = length (hb_signers h), hs_next_gen = hb_next_gen h,
      hs_next_count = length (hb_next_signers h), hs_key_gen = hb_key_gen h, hs_last_said = hb_last_said h,
      hs_sn = hb_sn h, hs_backer_threshold = hb_backer_threshold h, hs_backers = hb_backers h\<rparr>"

definition hab_resume :: "prims \<Rightarrow> hab_state \<Rightarrow> bytes \<Rightarrow> hab keri_result" where
  "hab_resume pr state salt =
     bindR (map_err KeriCrypto (salter_new pr ''0A'' salt)) (\<lambda>salter'.
     bindR (derive_signers pr salter' (hs_code state) (hs_transferable state) (hs_signer_gen state) (hs_signer_count state))
       (\<lambda>signers'.
     bindR (derive_signers pr salter' (hs_code state) (hs_transferable state) (hs_next_gen state) (hs_next_count state))
       (\<lambda>next_signers.
     Inr \<lparr>hb_name = hs_name state, hb_prefix = hs_prefix state, hb_signers = signers', hb_next_signers = next_signers,
          hb_salter = salter', hb_transferable = hs_transferable state, hb_code = hs_code state,
          hb_last_said = hs_last_said state, hb_sn = hs_sn state, hb_key_gen = hs_key_gen state,
          hb_signer_gen = hs_signer_gen state, hb_next_gen = hs_next_gen state,
          hb_backer_threshold = hs_backer_threshold state, hb_backers = hs_backers state\<rparr>)))"


subsection \<open>Receipts\<close>

definition hab_receipt :: "prims \<Rightarrow> hab \<Rightarrow> serder \<Rightarrow> bytes keri_result option" where
  "hab_receipt pr h other =
     (if \<not> hb_transferable h then
        (case hb_signers h of
           [] \<Rightarrow> None
         | first # _ \<Rightarrow> Some (
             bindR (map_err KeriCrypto (signer_sign pr first (serder_raw other))) (\<lambda>cigar'.
             bindR (map_err KeriCrypto (verfer_qb64 pr (sn_verfer first))) (\<lambda>prefix_text.
             bindR (map_err KeriCrypto (cigar_qb64 pr cigar')) (\<lambda>cigar_text.
             bindR (group_counter pr other NonTransReceiptCouples 1) (\<lambda>counter_text.
             Inr (counter_text @ prefix_text @ cigar_text)))))))
      else Some (
        bindR (sign_loop pr (serder_raw other) 0 (hb_signers h)) (\<lambda>sig_bytes.
        bindR (group_counter pr other ControllerIdxSigs (length (hb_signers h))) (\<lambda>counter_text.
        Inr (counter_text @ sig_bytes)))))"

definition rct_sad :: "string \<Rightarrow> u64 \<Rightarrow> json" where
  "rct_sad other_prefix other_sn =
     JObject
       [(''v'', JString ''KERI10JSON000000_''), (''t'', JString ''rct''), (''d'', JString []),
        (''i'', JString other_prefix), (''s'', JString (u64_hex other_sn))]"

definition receipt_message ::
    "prims \<Rightarrow> 's keri_store \<Rightarrow> 's \<Rightarrow> hab \<Rightarrow> serder \<Rightarrow> (bytes \<times> 's) keri_result option" where
  "receipt_message pr st s h other =
     bindF (Some (core (serder_prefix other))) (\<lambda>other_prefix.
     bindF (Some (core (serder_sn other))) (\<lambda>other_sn.
     bindF (Some (core (serder_said other))) (\<lambda>other_said.
     bindF (Some (fix_version_string pr (rct_sad other_prefix other_sn))) (\<lambda>sad1.
     bindF (Some (core (compute_said pr sad1 ''d'' ''E'' JsonKind))) (\<lambda>(receipt_said, sad2).
     bindF (Some (core (serder_new pr JsonKind sad2))) (\<lambda>serder'.
     bindF (hab_receipt pr h other) (\<lambda>att.
     bindF (Some (db (st_put_receipts st s other_said att))) (\<lambda>s'.
     Some (Inr (serder_raw serder' @ att, s'))))))))))"

fun collect_witness_receipts :: "prims \<Rightarrow> serder \<Rightarrow> hab list \<Rightarrow> (string \<times> bytes) list keri_result option" where
  "collect_witness_receipts pr event [] = Some (Inr [])"
| "collect_witness_receipts pr event (w # ws) =
     (if hb_transferable w then Some (Inl (KeriConfig ''witness must be non-transferable''))
      else
        (case hb_signers w of
           [] \<Rightarrow> None
         | first # _ \<Rightarrow>
             bindF (Some (map_err KeriCrypto (signer_sign pr first (serder_raw event)))) (\<lambda>cigar'.
             bindF (Some (map_err KeriCrypto (verfer_qb64 pr (sn_verfer first)))) (\<lambda>prefix_text.
             bindF (collect_witness_receipts pr event ws) (\<lambda>couples.
             Some (Inr ((prefix_text, cigar_raw cigar') # couples)))))))"

fun couple_texts :: "prims \<Rightarrow> (string \<times> bytes) list \<Rightarrow> bytes keri_result" where
  "couple_texts pr [] = Inr []"
| "couple_texts pr ((prefix_text, sig_raw) # couples) =
     bindR (map_err KeriCrypto (cigar_new pr ''0B'' sig_raw)) (\<lambda>cigar'.
     bindR (map_err KeriCrypto (cigar_qb64 pr cigar')) (\<lambda>cigar_text.
     bindR (couple_texts pr couples) (\<lambda>rest. Inr (prefix_text @ cigar_text @ rest))))"

definition compose_witness_receipt_attachment :: "prims \<Rightarrow> serder \<Rightarrow> hab list \<Rightarrow> bytes keri_result option" where
  "compose_witness_receipt_attachment pr event ws =
     bindF (collect_witness_receipts pr event ws) (\<lambda>couples.
     bindF (Some (group_counter pr event NonTransReceiptCouples (length couples))) (\<lambda>counter_text.
     bindF (Some (couple_texts pr couples)) (\<lambda>texts.
     Some (Inr (counter_text @ texts)))))"

end
