(* ===== verification/Keri_Hab_Events.thy ===== *)
theory Keri_Hab_Events
  imports Keri_Hab
begin

section \<open>The events a hab makes\<close>

text \<open>
  What \<open>sign_event\<close> leaves behind: a message whose version string declares its length,
  whose SAID verifies, and which \<open>Serder::new\<close> no longer changes, with one signature per
  signer that verifies under the signer's key.
\<close>

subsection \<open>The version string is fixed\<close>

lemma alist_ext:
  assumes keys: "map fst xs = map fst ys" and d: "distinct (map fst xs)" and m: "map_of xs = map_of ys"
  shows "xs = ys"
proof (rule nth_equalityI)
  show "length xs = length ys" using keys by (metis length_map)
  fix i assume i: "i < length xs"
  then have iy: "i < length ys" using keys by (metis length_map)
  have f: "fst (xs ! i) = fst (ys ! i)" using keys i iy by (metis nth_map)
  have "map_of xs (fst (xs ! i)) = Some (snd (xs ! i))"
    using d i by (intro map_of_is_SomeI) auto
  moreover have "map_of ys (fst (ys ! i)) = Some (snd (ys ! i))"
    using d keys iy by (intro map_of_is_SomeI) auto
  ultimately show "xs ! i = ys ! i" using f m by (simp add: prod_eq_iff)
qed

lemma update_ext:
  assumes "distinct (map fst al)" "set (map fst bl) = set (map fst al)" "map fst bl = map fst al" "map_of bl = (map_of al)(k \<mapsto> x)"
    "k \<in> set (map fst al)"
  shows "bl = AList.update k x al"
  using assms by (intro alist_ext) (simp_all add: keys_update update_conv')

lemma same_member_self_addressing:
  "jget sad ''d'' = Some dv \<Longrightarrow> jget sad ''i'' = Some iv \<Longrightarrow>
     same_member (jget sad ''d'') (jget sad ''i'') = is_self_addressing sad ''d''"
  by (simp add: same_member_def is_self_addressing_def)

lemma fix_version_string_Inr:
  assumes ok: "json_ok (JObject obj)" and v: "map_of obj ''v'' \<noteq> None"
    and d: "map_of obj ''d'' = Some dv" and i: "map_of obj ''i'' = Some iv"
  shows "fix_version_string pr (JObject obj) = Inr sad1 \<longleftrightarrow>
    (\<exists>raw. json_to_vec pr (put_said ''d'' (is_self_addressing (JObject obj) ''d'') (replicate 44 (CHR ''#'')) (JObject obj)) = Inr raw \<and>
       sad1 = jinsert ''v'' (JString (version_text (length raw))) (JObject obj))"
proof -
  let ?b = "is_self_addressing (JObject obj) ''d''"
  let ?p = "put_said ''d'' ?b (replicate 44 (CHR ''#'')) (JObject obj)"
  have b: "same_member (map_of obj ''d'') (map_of obj ''i'') = ?b"
    using same_member_self_addressing [of "JObject obj" dv iv] d i by simp
  have keys: "''v'' \<in> fst ` set obj" "''d'' \<in> fst ` set obj" "''i'' \<in> fst ` set obj"
    using v d i by (auto simp: map_of_eq_None_iff dest: map_of_SomeD intro: rev_image_eqI)
  have restore: "jinsert ''i'' iv (jinsert ''d'' dv (jinsert ''v'' x ?p)) = jinsert ''v'' x (JObject obj)" for x
    using keys ok d i
    by (cases ?b; simp; intro alist_ext) (auto simp: keys_update update_conv' fun_eq_iff distinct_update)
  have "fix_version_string pr (JObject obj) =
      bindR (map_err (\<lambda>e. KeriCore (Json e)) (json_to_vec pr ?p)) (\<lambda>raw.
        Inr (jinsert ''i'' iv (jinsert ''d'' dv (jinsert ''v'' (JString (version_text (length raw))) ?p))))"
    using b by (simp add: fix_version_string_def member_or_null_def d i Let_def put_said_def)
  then show ?thesis unfolding restore by (auto simp: res_simps)
qed

lemma char_of_digits: "char_of (48 :: nat) = CHR ''0''" "char_of (49 :: nat) = CHR ''1''"
  by code_simp+

lemma version_text_eq: "version_text n = to_version_string (version_default_v1 JsonKind n)"
  by (simp add: char_of_digits version_text_def to_version_string_def version_default_v1_def version_new_def hex_def
      to_radix.simps digit_char_def)

lemma default_version_ok: "n < 16 ^ 6 \<Longrightarrow> version_ok (version_default_v1 JsonKind n)"
  by (simp add: version_default_v1_def version_new_def version_ok_def byte_def)

lemma length_version_text: "n < 16 ^ 6 \<Longrightarrow> length (version_text n) = 17"
  using length_to_version_string [OF default_version_ok [of n]] by (simp add: version_text_eq KERI_VER_FULLSIZE_def)

lemma length_version_text_ge: "17 \<le> length (version_text n)"
  using length_to_radix_padded_ge [of 6 16 n] by (simp add: version_text_def hex_padded_def)

lemma base_version_text:
  "(base_version JsonKind (version_text n))\<lparr>v_size := m\<rparr> = version_default_v1 JsonKind m"
proof (cases "version_parse_str (version_text n)")
  case (Inr v)
  then have "v_protocol v = ''KERI'' \<and> v_major v = 1 \<and> v_minor v = 0 \<and> v_kind v = JsonKind"
    by (auto simp: version_parse_str_def version_text_def res_simps str_slice_def hex_digit_def byte_def kind_from_tag_def
        split: if_splits)
  with Inr show ?thesis by (cases v) (simp add: base_version_def version_default_v1_def version_new_def)
qed (simp add: base_version_def version_default_v1_def version_new_def)

lemma plain_code:
  "plain []" "plain (c # s) \<longleftrightarrow> 32 \<le> byte c \<and> byte c < 127 \<and> byte c \<noteq> 34 \<and> byte c \<noteq> 92 \<and> plain s"
  by (simp_all add: plain_def)

lemma plain_append [simp]: "plain (s @ t) \<longleftrightarrow> plain s \<and> plain t"
  by (simp add: plain_def)

lemma plain_replicate_hash [simp]: "plain (replicate n (CHR ''#''))"
  by (simp add: plain_def list_all_iff byte_def)

lemma byte_digit_char_plain: "d < 16 \<Longrightarrow> 32 \<le> byte (digit_char d) \<and> byte (digit_char d) < 127 \<and> byte (digit_char d) \<noteq> 34 \<and> byte (digit_char d) \<noteq> 92"
  by (auto simp: digit_char_def)

lemma plain_to_radix: "1 < b \<Longrightarrow> b \<le> 16 \<Longrightarrow> plain (to_radix b n)"
  using set_to_radix [of b _ n] byte_digit_char_plain by (fastforce simp: plain_def list_all_iff)

lemma plain_hex_padded [simp]: "plain (hex_padded w n)"
proof -
  have "plain (to_radix 16 n)" by (simp add: plain_to_radix)
  moreover have "plain (replicate k (CHR ''0''))" for k by (simp add: plain_def list_all_iff byte_def)
  ultimately show ?thesis by (simp add: hex_padded_def to_radix_padded_def Let_def)
qed

lemma plain_numbers [simp]: "plain (dec n)" "plain (u64_hex w)"
  by (simp_all add: dec_def u64_hex_def hex_def plain_to_radix)

lemma plain_version_text [simp]: "plain (version_text n)"
proof -
  have "plain ''KERI10JSON''" "plain ''_''" by (simp_all add: plain_def byte_def)
  then show ?thesis unfolding version_text_def plain_append by simp
qed


subsection \<open>The message is a fixed point\<close>

text \<open>The width of a JSON message as its version string, digest and prefix are filled in.\<close>

lemma put_said_width:
  assumes w: "width_laws pr" and s: "plain s" "plain t" "length s = length t"
    and i: "map_of obj ''i'' = Some iv"
    and raw: "json_to_vec pr (put_said ''d'' b s (JObject obj)) = Inr bs"
  shows "\<exists>bs'. json_to_vec pr (put_said ''d'' b t (JObject obj)) = Inr bs' \<and> length bs' = length bs"
proof (cases b)
  case True
  have swap: "AList.update ''i'' x (AList.update ''d'' y obj) = AList.update ''d'' y (AList.update ''i'' x obj)" for x y
    using i by (intro update_swap) (force dest: map_of_SomeD)+
  from raw True have "json_to_vec pr (jinsert ''i'' (JString s) (JObject (AList.update ''d'' (JString s) obj))) = Inr bs" by simp
  from width_lawsE [OF w s(1,2) this] s(3) obtain bs1 where
    "json_to_vec pr (jinsert ''d'' (JString s) (JObject (AList.update ''i'' (JString t) obj))) = Inr bs1" "length bs1 = length bs"
    by (auto simp: swap)
  from width_lawsE [OF w s(1,2) this(1)] this(2) s(3) obtain bs2 where
    "json_to_vec pr (jinsert ''d'' (JString t) (JObject (AList.update ''i'' (JString t) obj))) = Inr bs2" "length bs2 = length bs"
    by auto
  with True show ?thesis by (simp add: swap)
next
  case False
  with raw have "json_to_vec pr (jinsert ''d'' (JString s) (JObject obj)) = Inr bs" by simp
  from width_lawsE [OF w s(1,2) this] s(3) False show ?thesis by auto
qed

lemma put_version_width:
  assumes w: "width_laws pr" and v: "map_of obj ''v'' \<noteq> None" and s: "plain s" "plain t"
    and raw: "json_to_vec pr (put_said ''d'' b u (jinsert ''v'' (JString s) (JObject obj))) = Inr bs"
  shows "\<exists>bs'. json_to_vec pr (put_said ''d'' b u (jinsert ''v'' (JString t) (JObject obj))) = Inr bs' \<and>
    length bs' + length s = length bs + length t"
proof -
  let ?o = "if b then AList.update ''i'' (JString u) (AList.update ''d'' (JString u) obj) else AList.update ''d'' (JString u) obj"
  have keys: "''v'' \<in> fst ` set obj" using v by (auto simp: map_of_eq_None_iff)
  have swap: "put_said ''d'' b u (jinsert ''v'' x (JObject obj)) = jinsert ''v'' x (JObject ?o)" for x
    using keys update_swap [of "''v''" "''d''" obj x]
      update_swap [of "''v''" "''i''" "AList.update ''d'' (JString u) obj" x "JString u"]
    by (simp add: put_said_def keys_update)
  from width_lawsE [OF w s raw [unfolded swap]] show ?thesis unfolding swap by blast
qed


text \<open>Every signer signs, under its index, and the text of its signature is appended.\<close>

lemma sign_loop_Inr:
  "sign_loop pr m i ss = Inr out \<Longrightarrow>
     \<exists>sigs texts. out = concat texts \<and> length sigs = length ss \<and>
       list_all2 (\<lambda>sig t. siger_qb64 pr sig = Inr t) sigs texts \<and>
       (\<forall>j < length ss. signer_sign_indexed pr (ss ! j) m (i + j) True = Inr (sigs ! j))"
proof (induction ss arbitrary: i out)
  case (Cons s ss)
  then obtain sig t rest where sig: "signer_sign_indexed pr s m i True = Inr sig" and t: "siger_qb64 pr sig = Inr t"
    and r: "sign_loop pr m (i + 1) ss = Inr rest" and out: "out = t @ rest"
    by (auto simp: res_simps)
  from Cons.IH [OF r] obtain sigs texts where IH: "rest = concat texts" "length sigs = length ss"
    "list_all2 (\<lambda>sig t. siger_qb64 pr sig = Inr t) sigs texts"
    "\<forall>j < length ss. signer_sign_indexed pr (ss ! j) m (i + 1 + j) True = Inr (sigs ! j)" by blast
  have "signer_sign_indexed pr ((s # ss) ! j) m (i + j) True = Inr ((sig # sigs) ! j)" if "j < length (s # ss)" for j
    using that sig IH(4) by (cases j) auto
  with IH t out show ?case
    by (intro exI [of _ "sig # sigs"] exI [of _ "t # texts"]) simp
qed simp

text \<open>Such signatures are a quorum of any threshold that all the keys together meet.\<close>

lemma signer_sign_indexed_verifies:
  assumes laws: "matter_laws pr" "signature_laws pr" "indexer_laws pr" and s: "signer_ok pr s"
    and sig: "signer_sign_indexed pr s m i True = Inr sg"
  shows "siger_index sg = i \<and> verfer_verify pr (sn_verfer s) m (siger_raw sg) = Inr True"
  using sig laws(3) sign_raw_verifies [OF laws(1,2) s]
  by (fastforce simp: signer_sign_indexed_def siger_new_with_verfer_def res_simps siger_index_def siger_raw_def indexer_laws_def)

lemma all_sign_verified:
  assumes laws: "matter_laws pr" "signature_laws pr" "indexer_laws pr" and ok: "list_all (signer_ok pr) ss"
    and len: "length sigs = length ss"
    and sigs: "\<forall>j < length ss. signer_sign_indexed pr (ss ! j) m j True = Inr (sigs ! j)"
    and thr: "is_satisfied thr [0..<length ss] (length ss)"
  shows "verify_sigs_static pr m sigs (map sn_verfer ss) thr = Inr ()"
proof -
  have each: "siger_index (sigs ! j) = j \<and> verfer_verify pr (sn_verfer (ss ! j)) m (siger_raw (sigs ! j)) = Inr True"
    if "j < length ss" for j
    using signer_sign_indexed_verifies [OF laws, of "ss ! j" m j "sigs ! j"] that sigs ok by (simp add: list_all_length)
  have "signers pr m (map sn_verfer ss) sigs = {0..<length ss}"
    using each len by (fastforce simp: signers_def in_set_conv_nth)
  then have "quorum pr m (map sn_verfer ss) sigs thr" using thr by (simp add: quorum_def)
  moreover have "sigs_checkable pr m (map sn_verfer ss) sigs"
    unfolding sigs_checkable_def
  proof (intro ballI impI)
    fix sig assume "sig \<in> set sigs"
    then obtain j where "j < length ss" "sig = sigs ! j" using len by (auto simp: in_set_conv_nth)
    with each [of j] show "is_ok (verfer_verify pr (map sn_verfer ss ! siger_index sig) m (siger_raw sig))" by simp
  qed
  ultimately show ?thesis by (simp add: verify_sigs_static_iff)
qed

text \<open>The hab composes what the composer composes.\<close>

lemma group_counter_Inr:
  "group_counter pr s kind n = Inr q \<longleftrightarrow> counter_for pr s kind n = Inr q"
  by (auto simp: group_counter_def counter_for_def res_simps)

lemma composed_by_composer:
  assumes "group_counter pr s ControllerIdxSigs (length sigs) = Inr c" "sigs \<noteq> []"
    and "list_all2 (\<lambda>sig t. siger_qb64 pr sig = Inr t) sigs texts"
  shows "compose_event pr s sigs = Inr (serder_raw s @ c @ concat texts)"
  using assms by (simp add: group_counter_Inr compose_event_def compose_sigs_def) (auto simp: mapR_eq_Inr_conv res_simps)


subsection \<open>A signed event\<close>

lemma digest_text:
  assumes laws: "matter_laws pr" and q: "digest_qb64 pr code data = Inr q" and code: "code \<in> set diger_codes"
  shows "is_ok (diger_from_qb64 pr q)" and "matter_fs pr code = Some n \<Longrightarrow> 0 < n \<Longrightarrow> length q = n"
proof -
  from q obtain raw m where m: "matter_new pr code raw = Inr m" "matter_qb64 pr m = Inr q"
    by (auto simp: digest_qb64_def diger_qb64_def res_simps)
  from matter_laws_qb64 [OF laws m(1)] m(2) have q: "matter_from_qb64 pr q = Inr m"
    and len: "\<And>n. matter_fs pr code = Some n \<Longrightarrow> 0 < n \<Longrightarrow> length q = n" by auto
  from q code matter_lawsD [OF laws m(1)] show "is_ok (diger_from_qb64 pr q)"
    by (simp add: diger_from_qb64_def is_ok_iff res_simps)
  show "matter_fs pr code = Some n \<Longrightarrow> 0 < n \<Longrightarrow> length q = n" by (rule len)
qed

text \<open>The fields a template has, and the assumptions about the third-party code.\<close>

definition template :: "json \<Rightarrow> string \<Rightarrow> bool" where
  "template sad prefix' \<longleftrightarrow>
     json_ok sad \<and> (\<exists>rest. sad = JObject ((''v'', JString ''KERI10JSON000000_'') # rest)) \<and>
     jget sad ''v'' = Some (JString ''KERI10JSON000000_'') \<and>
     jget sad ''d'' = Some (JString []) \<and> jget sad ''i'' = Some (JString prefix')"

definition hab_laws :: "prims \<Rightarrow> bool" where
  "hab_laws pr \<longleftrightarrow>
     matter_laws pr \<and> signature_laws pr \<and> indexer_laws pr \<and> width_laws pr \<and> matter_fs pr ''E'' = Some 44"

text \<open>The event fits the format, and its digest is a text that no other prefix happens to be.\<close>

definition event_fits :: "signed_event \<Rightarrow> string \<Rightarrow> bool" where
  "event_fits ev prefix' \<longleftrightarrow> plain (sd_said ev) \<and> length (sd_raw ev) < 16 ^ 6 \<and> prefix' \<noteq> sd_said ev"

lemma template_object:
  assumes "template sad p"
  obtains obj where "sad = JObject obj" "json_ok (JObject obj)" "map_of obj ''v'' = Some (JString ''KERI10JSON000000_'')"
    "map_of obj ''d'' = Some (JString [])" "map_of obj ''i'' = Some (JString p)"
proof -
  from assms obtain obj where "sad = JObject obj"
    unfolding template_def using jget_eq_Some_object by blast
  with assms that show thesis by (simp add: template_def del: map_of_eq_Some_iff)
qed

lemma plain_template_version: "plain ''KERI10JSON000000_''"
  by (simp add: plain_def byte_def)

text \<open>The template with a version string and a digest filled in, and what each step makes of it.\<close>

definition filled :: "json \<Rightarrow> bool \<Rightarrow> string \<Rightarrow> nat \<Rightarrow> json" where
  "filled sad b said n = put_said ''d'' b said (jinsert ''v'' (JString (version_text n)) sad)"

text \<open>A message built from a template: version string, digest, serder.\<close>

definition built :: "prims \<Rightarrow> json \<Rightarrow> string \<Rightarrow> serder \<Rightarrow> bool" where
  "built pr sad said s \<longleftrightarrow>
     (\<exists>sad1 sad2. fix_version_string pr sad = Inr sad1 \<and> compute_said pr sad1 ''d'' ''E'' JsonKind = Inr (said, sad2) \<and>
        serder_new pr JsonKind sad2 = Inr s)"

lemma sign_event_built:
  assumes "sign_event pr ss sad = Inr ev"
  obtains s c where "built pr sad (sd_said ev) s" "serder_raw s = sd_raw ev"
    "sign_loop pr (serder_raw s) 0 ss = Inr (sd_signatures ev)"
    "group_counter pr s ControllerIdxSigs (length ss) = Inr c" "sd_composed ev = serder_raw s @ c @ sd_signatures ev"
  using assms by (auto simp: sign_event_def built_def res_simps)

lemma built_steps:
  assumes laws: "hab_laws pr" and t: "template sad p" and b': "built pr sad said s" and plain: "plain said"
  obtains raw0 ser rw raw1 where
    "json_to_vec pr (put_said ''d'' (p = []) (replicate 44 (CHR ''#'')) sad) = Inr raw0"
    "compute_said pr (jinsert ''v'' (JString (version_text (length raw0))) sad) ''d'' ''E'' JsonKind
       = Inr (said, filled sad (p = []) said (length raw0))"
    "digest_qb64 pr ''E'' ser = Inr said" "length ser + 17 = length raw0 + length (version_text (length raw0))"
    "json_to_vec pr (filled sad (p = []) said (length raw0)) = Inr rw" "length rw = length ser"
    "json_to_vec pr (filled sad (p = []) said (length rw)) = Inr raw1"
    "json_to_vec pr (filled sad (p = []) said (length raw1)) = Inr (serder_raw s)"
    "length (serder_raw s) + length (version_text (length raw0)) = length rw + length (version_text (length raw1))"
    "serder_sad s = filled sad (p = []) said (length raw1)" "serder_kind s = JsonKind"
    "serder_version s = Some (version_default_v1 JsonKind (length raw1))"
    "is_ok (diger_from_qb64 pr said)"
proof -
  from template_object [OF t] obtain obj where obj: "sad = JObject obj" "json_ok (JObject obj)"
    "map_of obj ''v'' = Some (JString ''KERI10JSON000000_'')" "map_of obj ''d'' = Some (JString [])"
    "map_of obj ''i'' = Some (JString p)" by blast
  let ?b = "p = []"
  have b: "is_self_addressing (JObject obj) ''d'' \<longleftrightarrow> ?b"
    using obj by (auto simp: is_self_addressing_def simp del: map_of_eq_Some_iff)
  have bv: "is_self_addressing (jinsert ''v'' x (JObject obj)) ''d'' \<longleftrightarrow> ?b" for x
    using obj by (auto simp: is_self_addressing_def update_conv' simp del: map_of_eq_Some_iff)
  from laws have laws': "matter_laws pr" "width_laws pr" "matter_fs pr ''E'' = Some 44" by (simp_all add: hab_laws_def)
  from b' obtain sad1 sad2 where f: "fix_version_string pr sad = Inr sad1"
    and cs: "compute_said pr sad1 ''d'' ''E'' JsonKind = Inr (said, sad2)" and n: "serder_new pr JsonKind sad2 = Inr s"
    by (auto simp: built_def)
  let ?V = "\<lambda>x. jinsert ''v'' (JString x) (JObject obj)"
  let ?vt = version_text
  from f obj obtain raw0 where
    r0: "json_to_vec pr (put_said ''d'' ?b (replicate 44 (CHR ''#'')) (JObject obj)) = Inr raw0"
    and sad1: "sad1 = ?V (?vt (length raw0))"
    using fix_version_string_Inr [OF obj(2) _ obj(4,5), of pr sad1] b by auto
  let ?n = "length raw0"
  have "?V ''KERI10JSON000000_'' = JObject obj" using obj by (intro jinsert_idem) simp_all
  with r0 have r0': "json_to_vec pr (put_said ''d'' ?b (replicate 44 (CHR ''#'')) (?V ''KERI10JSON000000_'')) = Inr raw0"
    by simp
  from cs obtain ser where ser: "json_to_vec pr (put_said ''d'' ?b (replicate 44 (CHR ''#'')) (?V (?vt ?n))) = Inr ser"
    and dq: "digest_qb64 pr ''E'' ser = Inr said" and sad2: "sad2 = put_said ''d'' ?b said (?V (?vt ?n))"
    unfolding compute_said_Inr sad1 bv using laws'(3) by auto
  have said44: "length said = 44" "is_ok (diger_from_qb64 pr said)"
    using digest_text [OF laws'(1) dq] laws'(3) by (simp_all add: diger_codes_def)
  from put_version_width [OF laws'(2) _ plain_template_version plain_version_text r0', of ?n] ser obj(3)
  have len_ser: "length ser + 17 = ?n + length (?vt ?n)" by auto
  obtain rw where rw: "json_to_vec pr sad2 = Inr rw" and len_rw: "length rw = length ser"
    using put_said_width [OF laws'(2) _ plain, of "replicate 44 (CHR ''#'')" "AList.update ''v'' (JString (?vt ?n)) obj" "JString p" ?b ser]
      said44 ser obj(5)
    by (auto simp: sad2 update_conv' simp del: put_said_object)
  have pv: "put_version (version_default_v1 JsonKind m) sad2 = put_said ''d'' ?b said (?V (?vt m))" for m
    unfolding put_version_def sad2 version_text_eq [symmetric] using obj
    by (cases ?b; simp; intro alist_ext) (auto simp: keys_update update_conv' fun_eq_iff distinct_update)
  have v2: "get_str sad2 ''v'' = Some (?vt ?n)"
    by (simp add: sad2 get_str_eq_Some update_conv')
  from n obtain raw1 where
    r1: "json_to_vec pr (put_said ''d'' ?b said (?V (?vt (length rw)))) = Inr raw1" and
    r2: "json_to_vec pr (put_said ''d'' ?b said (?V (?vt (length raw1)))) = Inr (serder_raw s)" and
    s: "serder_sad s = put_said ''d'' ?b said (?V (?vt (length raw1)))" "serder_kind s = JsonKind"
      "serder_version s = Some (version_default_v1 JsonKind (length raw1))"
    by (auto simp: serder_new_eq v2 rw base_version_text pv res_simps Let_def)
  have w2: "length (serder_raw s) + length (?vt ?n) = length rw + length (?vt (length raw1))"
    using put_version_width [OF laws'(2) _ plain_version_text plain_version_text rw [unfolded sad2], of "length raw1"] r2 obj(3)
    by auto
  show thesis
    by (rule that [of raw0 ser rw raw1])
      (use r0 cs dq len_ser rw len_rw r1 r2 w2 s said44 in \<open>simp_all add: obj(1) sad1 sad2 filled_def del: put_said_object\<close>)
qed

lemma built_length:
  assumes laws: "hab_laws pr" and t: "template sad p" and b': "built pr sad said s" and plain: "plain said"
    and raw0: "json_to_vec pr (put_said ''d'' (p = []) (replicate 44 (CHR ''#'')) sad) = Inr raw0" "length raw0 < 16 ^ 6"
  shows "length (serder_raw s) = length raw0 \<and> (\<exists>ser. length ser = length raw0 \<and> digest_qb64 pr ''E'' ser = Inr said)"
  by (rule built_steps [OF laws t b' plain])
    (use raw0 length_version_text [of "length raw0"] in \<open>fastforce simp del: put_said_object\<close>)

lemma sign_event_length:
  assumes laws: "hab_laws pr" and t: "template sad p" and ev: "sign_event pr ss sad = Inr ev" and plain: "plain (sd_said ev)"
    and raw0: "json_to_vec pr (put_said ''d'' (p = []) (replicate 44 (CHR ''#'')) sad) = Inr raw0" "length raw0 < 16 ^ 6"
  shows "length (sd_raw ev) = length raw0 \<and> (\<exists>ser. length ser = length raw0 \<and> digest_qb64 pr ''E'' ser = Inr (sd_said ev))"
proof -
  obtain s c where b: "built pr sad (sd_said ev) s" and raw: "serder_raw s = sd_raw ev" by (rule sign_event_built [OF ev])
  from built_length [OF laws t b plain raw0] show ?thesis by (simp only: raw)
qed

lemma built_message:
  assumes laws: "hab_laws pr" and t: "template sad p" and b': "built pr sad said s"
    and fits: "plain said" "length (serder_raw s) < 16 ^ 6"
  shows "serder_kind s = JsonKind"
    "serder_sad s = put_said ''d'' (p = []) said (jinsert ''v'' (JString (version_text (length (serder_raw s)))) sad)"
    "serder_version s = Some (version_default_v1 JsonKind (length (serder_raw s)))"
    "p \<noteq> said \<Longrightarrow> serder_verify_said pr s ''E'' = Inr ()" "is_ok (diger_from_qb64 pr said)"
    "json_to_vec pr (serder_sad s) = Inr (serder_raw s)"
proof -
  let ?F = "filled sad (p = []) said"
  obtain raw0 ser rw raw1 :: bytes where
    cs: "compute_said pr (jinsert ''v'' (JString (version_text (length raw0))) sad) ''d'' ''E'' JsonKind = Inr (said, ?F (length raw0))"
    and len: "length ser + 17 = length raw0 + length (version_text (length raw0))" "length rw = length ser"
      "length (serder_raw s) + length (version_text (length raw0)) = length rw + length (version_text (length raw1))"
    and out: "json_to_vec pr (?F (length raw0)) = Inr rw" "json_to_vec pr (?F (length rw)) = Inr raw1"
      "json_to_vec pr (?F (length raw1)) = Inr (serder_raw s)"
    and s: "serder_sad s = ?F (length raw1)" "serder_kind s = JsonKind" "serder_version s = Some (version_default_v1 JsonKind (length raw1))"
    and dig: "is_ok (diger_from_qb64 pr said)"
    by (rule built_steps [OF laws t b' fits(1)]) (use that in blast)
  let ?n = "length raw0"
  have "?n < 16 ^ 6"
    using len fits(2) length_version_text_ge [of "length raw1"] by simp
  then have same: "length raw1 = ?n" "serder_raw s = rw" "length (serder_raw s) = ?n"
    using len out length_version_text [of ?n] by auto
  from template_object [OF t] obtain obj where obj: "sad = JObject obj" "map_of obj ''d'' = Some (JString [])" "map_of obj ''i'' = Some (JString p)" by blast
  have "verify_said pr (?F ?n) ''d'' ''E'' JsonKind = Inr ()" if "p \<noteq> said"
    using that obj
    by (intro compute_said_verify [OF cs]) (auto simp: is_self_addressing_def update_conv' simp del: map_of_eq_Some_iff)
  then show "serder_verify_said pr s ''E'' = Inr ()" if "p \<noteq> said" using that same s(1,2) by (simp add: serder_verify_said_def)
  show "serder_kind s = JsonKind"
    "serder_sad s = put_said ''d'' (p = []) said (jinsert ''v'' (JString (version_text (length (serder_raw s)))) sad)"
    "serder_version s = Some (version_default_v1 JsonKind (length (serder_raw s)))" "is_ok (diger_from_qb64 pr said)"
    "json_to_vec pr (serder_sad s) = Inr (serder_raw s)"
    using s same out(1) dig by (simp_all add: filled_def)
qed

lemma sign_event_message:
  assumes laws: "hab_laws pr" and t: "template sad p" and ev: "sign_event pr ss sad = Inr ev" and fits: "event_fits ev p"
  obtains s c where "serder_kind s = JsonKind" "serder_raw s = sd_raw ev"
    "serder_sad s = put_said ''d'' (p = []) (sd_said ev) (jinsert ''v'' (JString (version_text (length (sd_raw ev)))) sad)"
    "serder_version s = Some (version_default_v1 JsonKind (length (sd_raw ev)))"
    "serder_verify_said pr s ''E'' = Inr ()" "is_ok (diger_from_qb64 pr (sd_said ev))"
    "json_to_vec pr (serder_sad s) = Inr (sd_raw ev)"
    "sign_loop pr (serder_raw s) 0 ss = Inr (sd_signatures ev)"
    "group_counter pr s ControllerIdxSigs (length ss) = Inr c" "sd_composed ev = serder_raw s @ c @ sd_signatures ev"
proof -
  obtain s c where b: "built pr sad (sd_said ev) s" and raw: "serder_raw s = sd_raw ev"
    and rest: "sign_loop pr (serder_raw s) 0 ss = Inr (sd_signatures ev)"
      "group_counter pr s ControllerIdxSigs (length ss) = Inr c" "sd_composed ev = serder_raw s @ c @ sd_signatures ev"
    by (rule sign_event_built [OF ev])
  from fits have fits: "plain (sd_said ev)" "length (serder_raw s) < 16 ^ 6" and p: "p \<noteq> sd_said ev"
    by (simp_all add: event_fits_def raw)
  from built_message [OF laws t b fits] p rest raw show thesis by (intro that [of s c]) simp_all
qed

end
