(* ===== verification/Keri_Hab_Step.thy ===== *)
theory Keri_Hab_Step
  imports Keri_Hab_Events
begin

section \<open>A hab and its verifier in step\<close>

text \<open>
  \<open>hab_follows\<close> relates a hab to a verifier of its log: same prefix, sequence number and
  last digest, the hab's signers hold the keys in force, its next signers the keys that are
  committed to. An inception makes a verifier the hab follows; a rotation and an interaction
  are accepted by the verifier and keep the relation.
\<close>

definition hab_follows :: "prims \<Rightarrow> hab \<Rightarrow> kever \<Rightarrow> bool" where
  "hab_follows pr h kv \<longleftrightarrow>
     (let ks = kv_state kv in
      kv_incepted kv \<and> \<not> ks_delegated ks \<and> hb_prefix h \<noteq> [] \<and>
      ks_prefix ks = hb_prefix h \<and> ks_sn ks = hb_sn h \<and> ks_last_event_digest ks = hb_last_said h \<and>
      list_all2 (\<lambda>k s. verfer_qb64 pr (sn_verfer s) = Inr k) (ks_keys ks) (hb_signers h) \<and>
      list_all2 (\<lambda>d s. next_digest pr s = Inr d) (ks_next_keys ks) (hb_next_signers h) \<and>
      ks_backers ks = hb_backers h \<and> ks_backer_threshold ks = hb_backer_threshold h \<and>
      list_all (signer_ok pr) (hb_signers h) \<and> list_all (signer_ok pr) (hb_next_signers h) \<and>
      hb_signers h \<noteq> [] \<and> is_satisfied (ks_threshold ks) [0..<length (hb_signers h)] (length (hb_signers h)))"

lemma derive_signers_ok:
  assumes "derive_signers pr st code tr g n = Inr ss"
  shows "length ss = n \<and> list_all (signer_ok pr) ss"
proof -
  have "list_all (signer_ok pr) ss"
    using assms by (auto simp: derive_signers_def elim!: mapR_list_all intro: salter_signer_ok)
  with assms show ?thesis by (auto simp: derive_signers_def dest: mapR_length)
qed

lemma key_texts_Inr:
  "key_texts pr ss = Inr keys \<longleftrightarrow> list_all2 (\<lambda>k s. verfer_qb64 pr (sn_verfer s) = Inr k) keys ss"
  by (auto simp: key_texts_def mapR_eq_Inr_conv list_all2_conv_all_nth)

lemma next_key_digests_Inr:
  "next_key_digests pr ss = Inr ds \<longleftrightarrow> list_all2 (\<lambda>d s. next_digest pr s = Inr d) ds ss"
  by (auto simp: next_key_digests_def mapR_eq_Inr_conv list_all2_conv_all_nth)

lemma keys_read_back:
  assumes laws: "matter_laws pr" and ok: "list_all (signer_ok pr) ss"
    and k: "list_all2 (\<lambda>k s. verfer_qb64 pr (sn_verfer s) = Inr k) keys ss"
  shows "list_all2 (\<lambda>k vf. verfer_from_qb64 pr k = Inr vf) keys (map sn_verfer ss)"
  using k ok unfolding list_all2_conv_all_nth list_all_length
  by (metis Inr_inject length_map nth_map signer_verfer_qb64 [OF laws])

lemma next_keys_committed:
  assumes laws: "matter_laws pr" and ok: "list_all (signer_ok pr) ss"
    and k: "list_all2 (\<lambda>k s. verfer_qb64 pr (sn_verfer s) = Inr k) keys ss"
    and d: "list_all2 (\<lambda>d s. next_digest pr s = Inr d) ds ss"
  shows "list_all2 (committed pr) keys ds"
  unfolding list_all2_conv_all_nth
proof (intro conjI allI impI)
  show "length keys = length ds" using k d by (simp add: list_all2_lengthD)
  fix i assume "i < length keys"
  then have i: "i < length ss" using k by (simp add: list_all2_lengthD)
  then have q: "verfer_qb64 pr (sn_verfer (ss ! i)) = Inr (keys ! i)" and n: "next_digest pr (ss ! i) = Inr (ds ! i)"
    using k d by (simp_all add: list_all2_conv_all_nth)
  moreover have "is_ok (verfer_from_qb64 pr (keys ! i))"
    using keys_read_back [OF laws ok k] i k by (auto simp: list_all2_conv_all_nth is_ok_iff)
  ultimately show "committed pr (keys ! i) (ds ! i)"
    by (intro committed_digest [OF laws, of _ "''E''"]) (simp_all add: next_digest_def digest_qb64_def)
qed

text \<open>
  A message as it travels: its bytes print its value, its version string comes first and
  declares its size, and its signatures are indexed ones of the CESR crate, of a current-only code and so
  without an index into the prior keys.
\<close>

definition wire_text :: "prims \<Rightarrow> serder \<Rightarrow> bool" where
  "wire_text pr m \<longleftrightarrow>
     serder_kind m = JsonKind \<and> length (serder_raw m) < 16 ^ 6 \<and>
     serder_version m = Some (version_default_v1 JsonKind (length (serder_raw m))) \<and>
     json_to_vec pr (serder_sad m) = Inr (serder_raw m) \<and>
     (\<exists>rest. serder_sad m = JObject ((''v'', JString (version_text (length (serder_raw m)))) # rest))"

definition on_wire :: "prims \<Rightarrow> serder \<Rightarrow> siger list \<Rightarrow> bool" where
  "on_wire pr m sigs \<longleftrightarrow>
     wire_text pr m \<and> sigs \<noteq> [] \<and> list_all (\<lambda>sig. \<exists>alg i r. indexer_new pr (siger_current_code alg) i None r = Inr (sg_indexer sig)) sigs"

text \<open>
  A JSON message of the prefix \<open>p\<close> and its signatures, as a verifier takes them, which compose
  to what the hab sent.
\<close>

definition sent_as :: "prims \<Rightarrow> string \<Rightarrow> serder \<Rightarrow> siger list \<Rightarrow> signed_event \<Rightarrow> bool" where
  "sent_as pr p m sigs ev \<longleftrightarrow>
     serder_kind m = JsonKind \<and> serder_raw m = sd_raw ev \<and> serder_prefix m = Inr p \<and> serder_said m = Inr (sd_said ev) \<and>
     compose_event pr m sigs = Inr (sd_composed ev) \<and> on_wire pr m sigs"

text \<open>Signed by every signer, so whatever threshold all of them together reach is met.\<close>

definition all_signed :: "prims \<Rightarrow> bytes \<Rightarrow> siger list \<Rightarrow> signer list \<Rightarrow> bool" where
  "all_signed pr raw sigs ss \<longleftrightarrow>
     (\<forall>thr. is_satisfied thr [0..<length ss] (length ss) \<longrightarrow> verify_sigs_static pr raw sigs (map sn_verfer ss) thr = Inr ())"

lemma filled_head:
  assumes "template sad p"
  shows "\<exists>rest. put_said ''d'' b said (jinsert ''v'' x sad) = JObject ((''v'', x) # rest)"
  using assms by (auto simp: template_def)

lemma filled_text:
  "plain said \<Longrightarrow> text_json n sad \<Longrightarrow> text_json n (put_said ''d'' b said (jinsert ''v'' (JString (version_text k)) sad))"
proof -
  have "plain ''v''" "plain ''d''" "plain ''i''" by (simp_all add: plain_def byte_def)
  moreover assume "plain said" "text_json n sad"
  ultimately show ?thesis by (simp add: put_said_def Let_def text_json_jinsert)
qed

lemma text_jstrings [simp]: "text_json n (jstrings ss) \<longleftrightarrow> 0 < n \<and> list_all plain ss"
  by (simp add: jstrings_def list_all_iff)

lemma key_texts_plain:
  assumes t: "text_laws pr" and ok: "list_all (signer_ok pr) ss" and k: "key_texts pr ss = Inr keys"
  shows "list_all plain keys"
proof -
  have "plain q" if "signer_ok pr s" "verfer_qb64 pr (sn_verfer s) = Inr q" for s q
    using signer_ok_matter [OF that(1)] that(2) t unfolding text_laws_def verfer_qb64_def by (metis map_err_eq_Inr)
  with ok k show ?thesis unfolding key_texts_Inr list_all2_conv_all_nth list_all_length by metis
qed

lemma next_key_digests_plain:
  assumes t: "text_laws pr" and d: "next_key_digests pr ss = Inr ds"
  shows "list_all plain ds"
proof -
  have "plain q" if "next_digest pr s = Inr q" for s q
    using that t by (auto simp: next_digest_def diger_qb64_def diger_from_data_def text_laws_def res_simps)
  with d show ?thesis unfolding next_key_digests_Inr list_all2_conv_all_nth list_all_length by metis
qed

text \<open>What the three events have in common.\<close>

lemma signed_by_all:
  assumes laws: "hab_laws pr" and t: "template sad p" and ev: "sign_event pr ss sad = Inr ev" and fits: "event_fits ev p"
    and ok: "list_all (signer_ok pr) ss" "ss \<noteq> []"
  obtains s sigs where "serder_kind s = JsonKind" "serder_raw s = sd_raw ev"
    "serder_sad s = put_said ''d'' (p = []) (sd_said ev) (jinsert ''v'' (JString (version_text (length (sd_raw ev)))) sad)"
    "serder_verify_said pr s ''E'' = Inr ()" "is_ok (diger_from_qb64 pr (sd_said ev))"
    "compose_event pr s sigs = Inr (sd_composed ev)" "on_wire pr s sigs" "text_json 127 sad \<Longrightarrow> text_json 127 (serder_sad s)"
    "\<And>thr. is_satisfied thr [0..<length ss] (length ss) \<Longrightarrow>
       verify_sigs_static pr (serder_raw s) sigs (map sn_verfer ss) thr = Inr ()"
proof -
  obtain s c where s: "serder_kind s = JsonKind" "serder_raw s = sd_raw ev"
    "serder_sad s = put_said ''d'' (p = []) (sd_said ev) (jinsert ''v'' (JString (version_text (length (sd_raw ev)))) sad)"
    "serder_version s = Some (version_default_v1 JsonKind (length (sd_raw ev)))"
    "serder_verify_said pr s ''E'' = Inr ()" "is_ok (diger_from_qb64 pr (sd_said ev))"
    "json_to_vec pr (serder_sad s) = Inr (sd_raw ev)"
    and sl: "sign_loop pr (serder_raw s) 0 ss = Inr (sd_signatures ev)"
    and c: "group_counter pr s ControllerIdxSigs (length ss) = Inr c"
    and comp: "sd_composed ev = serder_raw s @ c @ sd_signatures ev"
    by (rule sign_event_message [OF laws t ev fits])
  from sign_loop_Inr [OF sl] obtain sigs texts where sigs: "sd_signatures ev = concat texts" "length sigs = length ss"
    "list_all2 (\<lambda>sig t. siger_qb64 pr sig = Inr t) sigs texts"
    "\<forall>j < length ss. signer_sign_indexed pr (ss ! j) (serder_raw s) j True = Inr (sigs ! j)"
    by auto
  from sigs ok(2) c comp have "compose_event pr s sigs = Inr (sd_composed ev)"
    using composed_by_composer [of pr s sigs c texts] by fastforce
  moreover have "verify_sigs_static pr (serder_raw s) sigs (map sn_verfer ss) thr = Inr ()"
    if "is_satisfied thr [0..<length ss] (length ss)" for thr
    using laws that by (intro all_sign_verified ok(1) sigs(2,4)) (simp_all add: hab_laws_def)
  moreover have "\<exists>alg i r. indexer_new pr (siger_current_code alg) i None r = Inr (sg_indexer (sigs ! j))" if "j < length ss" for j
    using sigs(4) [rule_format, OF that]
    by (auto simp: signer_sign_indexed_def siger_new_with_verfer_def res_simps eq_commute [of _ "sigs ! j"]) blast
  then have "on_wire pr s sigs"
    using s filled_head [OF t] fits ok(2) sigs(2)
    by (auto simp: on_wire_def wire_text_def event_fits_def list_all_length)
  moreover have "text_json 127 (serder_sad s)" if "text_json 127 sad"
    unfolding s(3) using that fits by (intro filled_text) (simp_all add: event_fits_def)
  ultimately show thesis by (intro that [of s sigs] s)
qed


subsection \<open>Inception\<close>

definition inception_ok :: "inception_config \<Rightarrow> bool" where
  "inception_ok c \<longleftrightarrow>
     0 < ic_threshold c \<and> ic_threshold c \<le> ic_count c \<and> ic_count c < 2 ^ 64 \<and>
     0 < ic_next_threshold c \<and> ic_next_threshold c < 2 ^ 64 \<and>
     ic_backer_threshold c \<le> length (ic_backers c) \<and> ic_backer_threshold c < 2 ^ 64"

lemma template_icp: "template (icp_sad c keys ds) []"
  by (simp add: template_def icp_sad_def jstrings_def list_all_iff)

lemma incept_inner_Inr:
  assumes "incept_inner pr rand16 name' c store s = Inr (h, ev, s')"
  obtains keys where
    "derive_signers pr (hb_salter h) (ic_code c) (ic_transferable c) 0 (ic_count c) = Inr (hb_signers h)"
    "derive_signers pr (hb_salter h) (ic_code c) (ic_transferable c) 1 (ic_next_count c) = Inr (hb_next_signers h)"
    "key_texts pr (hb_signers h) = Inr keys"
    "\<exists>ds. next_key_digests pr (hb_next_signers h) = Inr ds \<and> sign_event pr (hb_signers h) (icp_sad c keys ds) = Inr ev"
    "h = \<lparr>hb_name = name', hb_prefix = sd_said ev, hb_signers = hb_signers h, hb_next_signers = hb_next_signers h,
          hb_salter = hb_salter h, hb_transferable = ic_transferable c, hb_code = ic_code c, hb_last_said = sd_said ev,
          hb_sn = 0, hb_key_gen = 2, hb_signer_gen = 0, hb_next_gen = 1,
          hb_backer_threshold = ic_backer_threshold c, hb_backers = ic_backers c\<rparr>"
  using assms by (auto simp: incept_inner_def res_simps)

definition inception_state :: "inception_event \<Rightarrow> nat \<Rightarrow> key_state" where
  "inception_state e bt =
     \<lparr>ks_prefix = icp_prefix e, ks_sn = 0, ks_said = icp_said e, ks_threshold = icp_keys_threshold e,
      ks_keys = icp_keys e, ks_next_keys = icp_next_keys e, ks_next_threshold = icp_next_threshold e,
      ks_backer_threshold = bt, ks_backers = icp_backers e, ks_config = icp_config e,
      ks_last_event_digest = icp_said e, ks_delegated = False, ks_delegator = None\<rparr>"

lemma zero_hex: "u64_from_hex ''0'' = Some 0"
  using u64_codec.dec_enc [of 0] by (simp add: u64_hex_def hex_def to_radix.simps digit_char_def char_of_digits)

lemma hab_inception:
  assumes laws: "hab_laws pr" and c: "inception_ok c" and inc: "incept_inner pr rand16 name' c store s = Inr (h, ev, s')"
    and fits: "event_fits ev []"
  shows "\<exists>sd sigs keys kv. sent_as pr (hb_prefix h) sd sigs ev \<and>
    (text_laws pr \<and> list_all plain (ic_backers c @ ic_config_traits c) \<longrightarrow> text_json 127 (serder_sad sd)) \<and>
    jget (serder_sad sd) ''k'' = Some (jstrings keys) \<and>
    list_all2 (\<lambda>k vf. verfer_from_qb64 pr k = Inr vf) keys (map sn_verfer (hb_signers h)) \<and>
    kever_new pr sd sigs (map sn_verfer (hb_signers h)) = Inr kv \<and> hab_follows pr h kv"
proof -
  let ?ss = "hb_signers h"
  from inc obtain keys ds where ds: "derive_signers pr (hb_salter h) (ic_code c) (ic_transferable c) 0 (ic_count c) = Inr ?ss"
    "derive_signers pr (hb_salter h) (ic_code c) (ic_transferable c) 1 (ic_next_count c) = Inr (hb_next_signers h)"
    and k: "key_texts pr ?ss = Inr keys" and d: "next_key_digests pr (hb_next_signers h) = Inr ds"
    and ev: "sign_event pr ?ss (icp_sad c keys ds) = Inr ev"
    and h: "hb_prefix h = sd_said ev" "hb_last_said h = sd_said ev" "hb_sn h = 0"
      "hb_backer_threshold h = ic_backer_threshold c" "hb_backers h = ic_backers c"
    by (rule incept_inner_Inr) (metis hab.simps)
  from derive_signers_ok [OF ds(1)] derive_signers_ok [OF ds(2)]
  have ok: "list_all (signer_ok pr) ?ss" "list_all (signer_ok pr) (hb_next_signers h)" and len: "length ?ss = ic_count c" by simp_all
  then have ne: "?ss \<noteq> []" using c by (auto simp: inception_ok_def)
  let ?v = "version_text (length (sd_raw ev))"
  obtain sd sigs where sd: "serder_kind sd = JsonKind" "serder_raw sd = sd_raw ev"
    "serder_sad sd = put_said ''d'' True (sd_said ev) (jinsert ''v'' (JString ?v) (icp_sad c keys ds))"
    "serder_verify_said pr sd ''E'' = Inr ()" "is_ok (diger_from_qb64 pr (sd_said ev))"
    "compose_event pr sd sigs = Inr (sd_composed ev)" "on_wire pr sd sigs"
    and tj: "text_json 127 (icp_sad c keys ds) \<Longrightarrow> text_json 127 (serder_sad sd)"
    and sigs: "\<And>thr. is_satisfied thr [0..<length ?ss] (length ?ss) \<Longrightarrow>
       verify_sigs_static pr (serder_raw sd) sigs (map sn_verfer ?ss) thr = Inr ()"
    using signed_by_all [OF laws template_icp ev fits ok(1) ne] by auto
  let ?e = "\<lparr>icp_version = ?v, icp_ilk = ''icp'', icp_said = sd_said ev, icp_prefix = sd_said ev, icp_sn = ''0'',
     icp_keys_threshold = Simple (ic_threshold c), icp_keys = keys, icp_next_threshold = Simple (ic_next_threshold c),
     icp_next_keys = ds, icp_backer_threshold = dec (ic_backer_threshold c), icp_backers = ic_backers c,
     icp_config = ic_config_traits c, icp_anchors = []\<rparr>"
  have "serder_sad sd = icp_to_value ?e"
    by (simp add: sd(3) icp_sad_def icp_to_value_def)
  moreover have "icp_ok ?e" using c by (simp add: icp_ok_def inception_ok_def)
  ultimately have e: "icp_from_value (serder_sad sd) = Some ?e" by (simp add: icp_codec.dec_enc)
  have "serder_ilk sd = Inr ''icp''" using sd(3) by (simp add: serder_ilk_def icp_sad_def get_str_def)
  moreover have "check_keys pr keys (map sn_verfer ?ss) = Inr ()"
    using k by (simp add: check_keys_iff key_texts_Inr list_all2_map2)
  moreover have "verify_sigs_static pr (serder_raw sd) sigs (map sn_verfer ?ss) (Simple (ic_threshold c)) = Inr ()"
    using c len by (intro sigs) (simp add: inception_ok_def)
  moreover have "validate_prefix_derivation pr ?e = Inr ()" using sd(5) by (simp add: validate_prefix_derivation_Inr)
  moreover have "from_inception ?e = Inr (inception_state ?e (ic_backer_threshold c))"
    using c zero_hex dec_codec.dec_enc [of "ic_backer_threshold c"]
    by (simp add: from_inception_def inception_state_def inception_ok_def res_simps parse_sn_Inr [THEN iffD2] parse_backer_threshold_Inr [THEN iffD2])
  ultimately have "kever_new pr sd sigs (map sn_verfer ?ss) = Inr \<lparr>kv_state = inception_state ?e (ic_backer_threshold c), kv_incepted = True\<rparr>"
    using e sd(4) by (simp add: kever_new_def)
  moreover have "hab_follows pr h \<lparr>kv_state = inception_state ?e (ic_backer_threshold c), kv_incepted = True\<rparr>"
    using c len ok ne h fits k d
    by (auto simp: hab_follows_def inception_state_def inception_ok_def event_fits_def key_texts_Inr next_key_digests_Inr)
  moreover have "sent_as pr (hb_prefix h) sd sigs ev"
    using sd(1,2,6,7) h(1) by (simp add: sent_as_def serder_prefix_def serder_said_def get_str_def sd(3) icp_sad_def)
  moreover have "text_json 127 (serder_sad sd)" if "text_laws pr" "list_all plain (ic_backers c @ ic_config_traits c)"
    using that key_texts_plain [OF that(1) ok(1) k] next_key_digests_plain [OF that(1) d]
    by (intro tj) (simp add: icp_sad_def plain_code byte_def)
  moreover have "jget (serder_sad sd) ''k'' = Some (jstrings keys)" by (simp add: sd(3) icp_sad_def)
  moreover have "list_all2 (\<lambda>k vf. verfer_from_qb64 pr k = Inr vf) keys (map sn_verfer ?ss)"
    using laws k by (intro keys_read_back [OF _ ok(1)]) (simp_all add: key_texts_Inr hab_laws_def)
  ultimately show ?thesis by blast
qed


subsection \<open>Rotation\<close>

text \<open>The new thresholds can be met, and the backers left reach the hab's threshold.\<close>

definition rotation_ok :: "rotation_config \<Rightarrow> hab \<Rightarrow> bool" where
  "rotation_ok c h \<longleftrightarrow>
     0 < rc_threshold c \<and> rc_threshold c \<le> length (hb_next_signers h) \<and> rc_threshold c < 2 ^ 64 \<and>
     0 < rc_next_threshold c \<and> rc_next_threshold c < 2 ^ 64 \<and> hb_backer_threshold h < 2 ^ 64 \<and>
     hb_backer_threshold h \<le> length (new_backers (hb_backers h) (rc_backers_remove c) (rc_backers_add c))"

lemma template_rot: "template (rot_sad h c sn keys ds) (hb_prefix h)"
  by (simp add: template_def rot_sad_def jstrings_def list_all_iff)

lemma rotate_inner_Inr:
  assumes "rotate_inner pr c store s h = (Inr (ev, s'), h')"
  obtains nss keys ds where "derive_signers pr (hb_salter h) (hb_code h) (hb_transferable h) (hb_key_gen h + 1) (rc_next_count c) = Inr nss"
    "key_texts pr (hb_next_signers h) = Inr keys" "next_key_digests pr nss = Inr ds"
    "sign_event pr (hb_next_signers h) (rot_sad h c (hb_sn h + 1) keys ds) = Inr ev"
    "h' = h\<lparr>hb_signers := hb_next_signers h, hb_next_signers := nss,
            hb_last_said := sd_said ev, hb_sn := hb_sn h + 1, hb_key_gen := hb_key_gen h + 1 + 1,
            hb_signer_gen := hb_next_gen h, hb_next_gen := hb_key_gen h + 1,
            hb_backers := new_backers (hb_backers h) (rc_backers_remove c) (rc_backers_add c)\<rparr>"
  using assms by (auto simp: rotate_inner_def rotation_steps_def res_simps split: if_splits sum.splits)

lemma next_sn_hex: "u64_from_hex (u64_hex w) = Some w"
  by (rule u64_codec.dec_enc) simp

lemma hab_rotation:
  assumes laws: "hab_laws pr" and fol: "hab_follows pr h kv" and c: "rotation_ok c h"
    and r: "rotate_inner pr c store s h = (Inr (ev, s'), h')" and fits: "event_fits ev (hb_prefix h)"
  shows "\<exists>sd sigs kv'. sent_as pr (hb_prefix h) sd sigs ev \<and>
    (text_laws pr \<and> list_all plain ([hb_prefix h, hb_last_said h] @ rc_backers_remove c @ rc_backers_add c) \<longrightarrow>
       text_json 127 (serder_sad sd)) \<and>
    kever_update pr kv sd sigs = Inr kv' \<and> hab_follows pr h' kv' \<and> all_signed pr (serder_raw sd) sigs (hb_signers h')"
proof -
  let ?ss = "hb_next_signers h" and ?ks = "kv_state kv"
  from r obtain nss keys ds where nss: "derive_signers pr (hb_salter h) (hb_code h) (hb_transferable h) (hb_key_gen h + 1) (rc_next_count c) = Inr nss"
    and k: "key_texts pr ?ss = Inr keys" and d: "next_key_digests pr nss = Inr ds"
    and ev: "sign_event pr ?ss (rot_sad h c (hb_sn h + 1) keys ds) = Inr ev"
    and h': "h' = h\<lparr>hb_signers := ?ss, hb_next_signers := nss,
      hb_last_said := sd_said ev, hb_sn := hb_sn h + 1, hb_key_gen := hb_key_gen h + 1 + 1,
      hb_signer_gen := hb_next_gen h, hb_next_gen := hb_key_gen h + 1,
      hb_backers := new_backers (hb_backers h) (rc_backers_remove c) (rc_backers_add c)\<rparr>"
    by (rule rotate_inner_Inr)
  have ml: "matter_laws pr" using laws by (simp add: hab_laws_def)
  have oks: "list_all (signer_ok pr) ?ss" "list_all (signer_ok pr) nss" "?ss \<noteq> []" "hb_prefix h \<noteq> []"
    using fol derive_signers_ok [OF nss] c by (auto simp: hab_follows_def Let_def rotation_ok_def)
  let ?v = "version_text (length (sd_raw ev))"
  obtain sd sigs where sd: "serder_kind sd = JsonKind" "serder_raw sd = sd_raw ev"
    "serder_sad sd = put_said ''d'' (hb_prefix h = []) (sd_said ev) (jinsert ''v'' (JString ?v) (rot_sad h c (hb_sn h + 1) keys ds))"
    "serder_verify_said pr sd ''E'' = Inr ()" "is_ok (diger_from_qb64 pr (sd_said ev))"
    "compose_event pr sd sigs = Inr (sd_composed ev)" "on_wire pr sd sigs"
    and tj: "text_json 127 (rot_sad h c (hb_sn h + 1) keys ds) \<Longrightarrow> text_json 127 (serder_sad sd)"
    and sigs: "\<And>thr. is_satisfied thr [0..<length ?ss] (length ?ss) \<Longrightarrow>
       verify_sigs_static pr (serder_raw sd) sigs (map sn_verfer ?ss) thr = Inr ()"
    using signed_by_all [OF laws template_rot ev fits oks(1,3)] by auto
  let ?e = "\<lparr>rot_version = ?v, rot_ilk = ''rot'', rot_said = sd_said ev, rot_prefix = hb_prefix h, rot_sn = u64_hex (hb_sn h + 1),
     rot_prior_said = hb_last_said h, rot_keys_threshold = Simple (rc_threshold c), rot_keys = keys,
     rot_next_threshold = Simple (rc_next_threshold c), rot_next_keys = ds, rot_backer_threshold = dec (hb_backer_threshold h),
     rot_backers_remove = rc_backers_remove c, rot_backers_add = rc_backers_add c, rot_config = [], rot_anchors = []\<rparr>"
  have "serder_sad sd = rot_to_value ?e"
    using oks(4) by (simp add: sd(3) rot_sad_def rot_to_value_def jstrings_def)
  moreover have "rot_ok ?e" using c by (simp add: rot_ok_def rotation_ok_def)
  ultimately have e: "rot_from_value (serder_sad sd) = Some ?e" by (simp add: rot_codec.dec_enc)
  let ?ks' = "\<lparr>ks_prefix = ks_prefix ?ks, ks_sn = hb_sn h + 1, ks_said = sd_said ev,
     ks_threshold = Simple (rc_threshold c), ks_keys = keys, ks_next_keys = ds, ks_next_threshold = Simple (rc_next_threshold c),
     ks_backer_threshold = hb_backer_threshold h, ks_backers = hb_backers h', ks_config = [],
     ks_last_event_digest = sd_said ev, ks_delegated = ks_delegated ?ks, ks_delegator = ks_delegator ?ks\<rparr>"
  have "list_all2 (committed pr) keys (ks_next_keys ?ks)"
    using next_keys_committed [OF ml oks(1)] k fol by (simp add: key_texts_Inr hab_follows_def Let_def)
  then have "apply_rotation pr ?ks ?e = Inr ?ks'"
    using fol c dec_codec.dec_enc [of "hb_backer_threshold h"]
    by (simp add: apply_rotation_Inr next_sn_hex hab_follows_def Let_def rotation_ok_def h')
  moreover have "verify_sigs_static pr (serder_raw sd) sigs (map sn_verfer ?ss) (Simple (rc_threshold c)) = Inr ()"
    using c by (intro sigs) (simp add: rotation_ok_def)
  moreover have "list_all2 (\<lambda>k vf. verfer_from_qb64 pr k = Inr vf) keys (map sn_verfer ?ss)"
    using k by (intro keys_read_back [OF ml oks(1)]) (simp add: key_texts_Inr)
  ultimately have "plain_rotation pr kv sd sigs ?e ?ks'"
    using e fol unfolding plain_rotation_def by (auto simp: hab_follows_def Let_def)
  moreover have "serder_ilk sd = Inr ''rot''" "serder_sn sd = Inr (hb_sn h + 1)"
    using oks(4) next_sn_hex by (simp_all add: sd(3) serder_ilk_def serder_sn_def rot_sad_def get_str_def)
  ultimately have "verify_update pr kv sd sigs = Inr ?ks'"
    using sd(4) fol unfolding verify_update_Inr by (auto simp: hab_follows_def Let_def)
  then have "kever_update pr kv sd sigs = Inr (apply_verified_update kv ?ks')" by (simp add: kever_update_eq)
  moreover have "hab_follows pr h' (apply_verified_update kv ?ks')"
    using fol c oks k d by (auto simp: hab_follows_def Let_def apply_verified_update_def h' rotation_ok_def key_texts_Inr next_key_digests_Inr)
  moreover have "all_signed pr (serder_raw sd) sigs (hb_signers h')" using sigs by (simp add: all_signed_def h')
  moreover have "sent_as pr (hb_prefix h) sd sigs ev"
    using sd(1,2,6,7) oks(4) by (simp add: sent_as_def serder_prefix_def serder_said_def get_str_def sd(3) rot_sad_def)
  moreover have "text_json 127 (serder_sad sd)"
    if "text_laws pr \<and> list_all plain ([hb_prefix h, hb_last_said h] @ rc_backers_remove c @ rc_backers_add c)"
    using that key_texts_plain [OF _ oks(1) k] next_key_digests_plain [OF _ d]
    by (intro tj) (auto simp: rot_sad_def plain_code byte_def)
  ultimately show ?thesis by blast
qed


subsection \<open>Interaction\<close>

lemma template_ixn: "list_all json_ok anchors \<Longrightarrow> template (ixn_sad h sn anchors) (hb_prefix h)"
  by (simp add: template_def ixn_sad_def)

lemma hab_interaction:
  assumes laws: "hab_laws pr" and fol: "hab_follows pr h kv" and anchors: "list_all json_ok anchors"
    and i: "interact_inner pr anchors store s h = Inr (ev, s', h')" and fits: "event_fits ev (hb_prefix h)"
  shows "\<exists>sd sigs kv'. sent_as pr (hb_prefix h) sd sigs ev \<and>
    (list_all plain [hb_prefix h, hb_last_said h] \<and> list_all (text_json 125) anchors \<longrightarrow> text_json 127 (serder_sad sd)) \<and>
    kever_update pr kv sd sigs = Inr kv' \<and> hab_follows pr h' kv' \<and> all_signed pr (serder_raw sd) sigs (hb_signers h')"
proof -
  let ?ss = "hb_signers h" and ?ks = "kv_state kv"
  from i have ev: "sign_event pr ?ss (ixn_sad h (hb_sn h + 1) anchors) = Inr ev"
    and h': "h' = h\<lparr>hb_last_said := sd_said ev, hb_sn := hb_sn h + 1\<rparr>"
    by (auto simp: interact_inner_def res_simps)
  have ml: "matter_laws pr" using laws by (simp add: hab_laws_def)
  have oks: "list_all (signer_ok pr) ?ss" "?ss \<noteq> []" "hb_prefix h \<noteq> []"
    using fol by (auto simp: hab_follows_def Let_def)
  let ?v = "version_text (length (sd_raw ev))"
  obtain sd sigs where sd: "serder_kind sd = JsonKind" "serder_raw sd = sd_raw ev"
    "serder_sad sd = put_said ''d'' (hb_prefix h = []) (sd_said ev) (jinsert ''v'' (JString ?v) (ixn_sad h (hb_sn h + 1) anchors))"
    "serder_verify_said pr sd ''E'' = Inr ()" "is_ok (diger_from_qb64 pr (sd_said ev))"
    "compose_event pr sd sigs = Inr (sd_composed ev)" "on_wire pr sd sigs"
    and tj: "text_json 127 (ixn_sad h (hb_sn h + 1) anchors) \<Longrightarrow> text_json 127 (serder_sad sd)"
    and sigs: "\<And>thr. is_satisfied thr [0..<length ?ss] (length ?ss) \<Longrightarrow>
       verify_sigs_static pr (serder_raw sd) sigs (map sn_verfer ?ss) thr = Inr ()"
    using signed_by_all [OF laws template_ixn [OF anchors] ev fits oks(1,2)] by auto
  let ?e = "\<lparr>ixn_version = ?v, ixn_ilk = ''ixn'', ixn_said = sd_said ev, ixn_prefix = hb_prefix h, ixn_sn = u64_hex (hb_sn h + 1),
     ixn_prior_said = hb_last_said h, ixn_anchors = anchors\<rparr>"
  have "serder_sad sd = ixn_to_value ?e"
    using oks(3) by (simp add: sd(3) ixn_sad_def ixn_to_value_def)
  then have e: "ixn_from_value (serder_sad sd) = Some ?e" by (simp add: ixn_codec.dec_enc)
  let ?ks' = "?ks\<lparr>ks_sn := hb_sn h + 1, ks_last_event_digest := sd_said ev\<rparr>"
  have "apply_interaction ?ks ?e = Inr ?ks'"
    using fol by (simp add: apply_interaction_Inr next_sn_hex hab_follows_def Let_def)
  moreover have "verify_sigs_static pr (serder_raw sd) sigs (map sn_verfer ?ss) (ks_threshold ?ks) = Inr ()"
    using fol by (intro sigs) (simp add: hab_follows_def Let_def)
  moreover have "list_all2 (\<lambda>k vf. verfer_from_qb64 pr k = Inr vf) (ks_keys ?ks) (map sn_verfer ?ss)"
    using fol by (intro keys_read_back [OF ml oks(1)]) (simp add: hab_follows_def Let_def)
  ultimately have "interaction pr kv sd sigs ?e ?ks'" using e unfolding interaction_def by blast
  moreover have "serder_ilk sd = Inr ''ixn''" "serder_sn sd = Inr (hb_sn h + 1)"
    using oks(3) next_sn_hex by (simp_all add: sd(3) serder_ilk_def serder_sn_def ixn_sad_def get_str_def)
  ultimately have "verify_update pr kv sd sigs = Inr ?ks'"
    using sd(4) fol unfolding verify_update_Inr by (auto simp: hab_follows_def Let_def)
  then have "kever_update pr kv sd sigs = Inr (apply_verified_update kv ?ks')" by (simp add: kever_update_eq)
  moreover have "hab_follows pr h' (apply_verified_update kv ?ks')"
    using fol by (auto simp: hab_follows_def Let_def apply_verified_update_def h')
  moreover have "all_signed pr (serder_raw sd) sigs (hb_signers h')" using sigs by (simp add: all_signed_def h')
  moreover have "sent_as pr (hb_prefix h) sd sigs ev"
    using sd(1,2,6,7) oks(3) by (simp add: sent_as_def serder_prefix_def serder_said_def get_str_def sd(3) ixn_sad_def)
  moreover have "text_json 127 (serder_sad sd)" if "list_all plain [hb_prefix h, hb_last_said h] \<and> list_all (text_json 125) anchors"
    using that by (intro tj) (auto simp: ixn_sad_def plain_code byte_def)
  ultimately show ?thesis by blast
qed

end
