(* ===== verification/Keri_Wire.thy ===== *)
theory Keri_Wire
  imports Keri_Hab_Step
begin

section \<open>The bytes a hab sends\<close>

text \<open>
  From the bytes of a composed event to the parsed message. \<open>wire_laws\<close> collects what the
  program relies on in the text formats of the CESR crate and of \<open>serde_json\<close>; under them
  the parser makes of the bytes that a hab composed the message the hab signed, with its
  signatures, whatever groups of attachments follow.
\<close>

text \<open>
  \<open>serde_json\<close> reads a value of plain texts, nested at most 127 deep, back from what it wrote
  for it, and writes the members of an object in their order.
\<close>

definition json_text_laws :: "prims \<Rightarrow> bool" where
  "json_text_laws pr \<longleftrightarrow>
     (\<forall>v bs. text_json 127 v \<longrightarrow> json_to_vec pr v = Inr bs \<longrightarrow> json_from_slice pr bs = Inr v) \<and>
     (\<forall>t rest bs. plain t \<longrightarrow> json_to_vec pr (JObject ((''v'', JString t) # rest)) = Inr bs \<longrightarrow>
        (\<exists>tail. bs = json_head @ t @ tail))"

text \<open>
  The texts of the CESR crate: a signature, a public key, an indexed signature of a current-only code
  (A, C and E, the ones that a hab signs with; they carry one index) and a group
  counter are read back from the front of a stream, and a counter of a two-character code
  has two characters for its count. Nothing is assumed of the codes with two indices, whose small
  texts have no room for the second.
\<close>

definition cesr_text_laws :: "prims \<Rightarrow> bool" where
  "cesr_text_laws pr \<longleftrightarrow>
     (\<forall>c r m q. c \<in> set ([''0B'', ''0C'', ''0I''] @ verfer_codes) \<longrightarrow> matter_new pr c r = Inr m \<longrightarrow> matter_qb64 pr m = Inr q \<longrightarrow>
        matter_reads pr q) \<and>
     (\<forall>alg i r x q. indexer_new pr (siger_current_code alg) i None r = Inr x \<longrightarrow> indexer_qb64 pr x = Inr q \<longrightarrow>
        sig_reads pr \<lparr>sg_indexer = x, sg_verfer = None\<rparr> q) \<and>
     (\<forall>kind code n c q. group_code kind V1 = Some code \<longrightarrow> counter_new pr code n = Inr c \<longrightarrow> counter_qb64 pr c = Inr q \<longrightarrow>
        n < 64 ^ 2 \<and> counter_reads pr code n q)"

definition wire_laws :: "prims \<Rightarrow> bool" where
  "wire_laws pr \<longleftrightarrow> text_laws pr \<and> json_text_laws pr \<and> cesr_text_laws pr"

lemma wire_counter:
  "wire_laws pr \<Longrightarrow> group_code kind V1 = Some code \<Longrightarrow> counter_new pr code n = Inr c \<Longrightarrow> counter_qb64 pr c = Inr q \<Longrightarrow>
     n \<le> MAX_ATTACHMENT_COUNT \<and> counter_reads pr code n q"
proof -
  assume "wire_laws pr" "group_code kind V1 = Some code" "counter_new pr code n = Inr c" "counter_qb64 pr c = Inr q"
  then have "n < 64 ^ 2" "counter_reads pr code n q" unfolding wire_laws_def cesr_text_laws_def by blast+
  then show ?thesis by (simp add: MAX_ATTACHMENT_COUNT_def)
qed

lemma wire_matter:
  "wire_laws pr \<Longrightarrow> matter_new pr c r = Inr m \<Longrightarrow> matter_qb64 pr m = Inr q \<Longrightarrow> c \<in> set ([''0B'', ''0C'', ''0I''] @ verfer_codes) \<Longrightarrow>
     matter_reads pr q"
  unfolding wire_laws_def cesr_text_laws_def by blast

lemma wire_table: "wire_text pr m \<Longrightarrow> table_for m = V1"
  by (simp add: wire_text_def table_for_def version_default_v1_def version_new_def table_from_major_def)

lemma wire_reads:
  assumes w: "wire_laws pr" and m: "wire_text pr m" and t: "text_json 127 (serder_sad m)"
  shows "serder_from_raw pr (serder_raw m @ rest) = Inr m"
    and "serder_raw m \<noteq> [] \<and> hd (serder_raw m) = CHR ''{''"
proof -
  let ?n = "length (serder_raw m)" and ?ver = "version_default_v1 JsonKind (length (serder_raw m))"
  from m obtain mem where n: "?n < 16 ^ 6" "serder_version m = Some ?ver" "json_to_vec pr (serder_sad m) = Inr (serder_raw m)"
    and sad: "serder_sad m = JObject ((''v'', JString (version_text ?n)) # mem)"
    by (auto simp: wire_text_def)
  have j: "json_text_laws pr" using w by (simp add: wire_laws_def)
  then obtain tail where raw: "serder_raw m = json_head @ version_text ?n @ tail"
    using n(3) plain_version_text unfolding sad json_text_laws_def by metis
  then show "serder_raw m \<noteq> [] \<and> hd (serder_raw m) = CHR ''{''"
    by (metis json_head_def Nil_is_append_conv hd_append2 list.distinct(1) list.sel(1))
  have "json_from_slice pr (serder_raw m) = Inr (serder_sad m)"
    using j t n(3) by (simp add: json_text_laws_def)
  moreover have "v_protocol ?ver \<in> set protocols" "v_size ?ver = ?n"
    by (simp_all add: version_default_v1_def version_new_def protocols_def)
  moreover note default_version_ok [OF n(1)] raw [unfolded version_text_eq]
  ultimately have "serder_from_raw pr (serder_raw m @ rest) =
      Inr \<lparr>serder_raw = serder_raw m, serder_version = Some ?ver, serder_kind = JsonKind, serder_sad = serder_sad m\<rparr>"
    by (intro serder_from_raw_message)
  then show "serder_from_raw pr (serder_raw m @ rest) = Inr m"
    using n(2) m by (cases m) (simp add: wire_text_def)
qed

text \<open>A message that \<open>Serder::new\<close> built is read back from the front of any buffer.\<close>

lemma plain_version_string:
  assumes "v_protocol ver \<in> set protocols"
  shows "plain (to_version_string ver)"
proof -
  have "plain ''KERI''" "plain ''ACDC''" "plain ''SAID''" by (simp_all add: plain_def byte_def)
  then have "plain (v_protocol ver)" using assms by (auto simp: protocols_def)
  moreover have "plain (kind_tag (v_kind ver))" by (cases "v_kind ver") (simp_all add: plain_def byte_def)
  moreover have "plain (hex n)" for n by (simp add: hex_def plain_to_radix)
  moreover have "plain ''_''" by (simp add: plain_def byte_def)
  ultimately show ?thesis unfolding to_version_string_def plain_append by (intro conjI plain_hex_padded)
qed

lemma new_message_reads:
  assumes j: "json_text_laws pr" and new: "serder_new pr JsonKind sad = Inr s" and sad: "sad = JObject ((''v'', JString vs) # mem)"
    and raw: "serialize_value pr sad JsonKind = Inr raw" "length raw < 16 ^ 6"
    and stable: "size_stable pr JsonKind (base_version JsonKind vs) sad"
    and proto: "v_protocol (base_version JsonKind vs) \<in> set protocols" and t: "text_json 127 sad"
  shows "serder_from_raw pr (serder_raw s @ rest) = Inr s"
proof -
  have v: "get_str sad ''v'' = Some vs" by (simp add: sad get_str_def)
  from serder_new_version [OF new v raw stable] obtain ver where ver: "serder_version s = Some ver" "version_ok ver"
    "v_size ver = length (serder_raw s)" by blast
  with new v raw(1) have p: "v_protocol ver \<in> set protocols" and s: "serder_sad s = put_version ver sad"
    using proto by (auto simp: serder_new_eq res_simps Let_def)
  have sad': "serder_sad s = JObject ((''v'', JString (to_version_string ver)) # mem)" by (simp add: s sad put_version_def)
  have k: "serder_kind s = JsonKind" and ser: "json_to_vec pr (serder_sad s) = Inr (serder_raw s)"
    using serder_new_Inr(1,2) [OF new] by (simp_all add: map_err_def split: sum.splits)
  have plain: "plain (to_version_string ver)" by (rule plain_version_string [OF p])
  then have "text_json 127 (serder_sad s)" using t by (simp add: sad sad')
  with j ser have "json_from_slice pr (serder_raw s) = Inr (serder_sad s)" by (simp add: json_text_laws_def)
  moreover obtain tail where "serder_raw s = json_head @ to_version_string ver @ tail"
    using j ser plain unfolding json_text_laws_def sad' by metis
  ultimately have "serder_from_raw pr (serder_raw s @ rest) =
      Inr \<lparr>serder_raw = serder_raw s, serder_version = Some ver, serder_kind = JsonKind, serder_sad = serder_sad s\<rparr>"
    by (intro serder_from_raw_message [OF p ver(2)] ver(3)) simp_all
  then show ?thesis using k ver(1) by (cases s) simp
qed

text \<open>What a hab composed is parsed to its message and signatures, before the groups that follow.\<close>

lemma composed_parses:
  assumes w: "wire_laws pr" and m: "sent_as pr p m sigs ev" and t: "text_json 127 (serder_sad m)"
    and rest: "is_ascii rest" "parse_attachments (Suc fuel) pr V1 True rest = Some (Inr (atts, n))" "fuel \<le> length rest"
  shows "parse_next pr (sd_composed ev @ rest) =
    Some (Inr (\<lparr>pm_serder = m, pm_attachments = ControllerSigs (map parsed_sig sigs) # atts\<rparr>, length (sd_composed ev) + n))"
proof -
  from m have c: "compose_sigs pr ControllerIdxSigs m sigs = Inr (sd_composed ev)" and o': "on_wire pr m sigs"
    by (simp_all add: sent_as_def compose_event_def)
  have ne: "sigs \<noteq> []" and wt: "wire_text pr m" using o' by (simp_all add: on_wire_def)
  note table = wire_table [OF wt]
  from c ne obtain q texts where q: "counter_for pr m ControllerIdxSigs (length sigs) = Inr q"
    and texts: "list_all2 (\<lambda>sig t. indexer_qb64 pr (sg_indexer sig) = Inr t) sigs texts"
    by (auto simp: compose_sigs_def res_simps mapR_eq_Inr_conv siger_qb64_def)
  have len: "length sigs \<le> MAX_ATTACHMENT_COUNT"
    using q wire_counter [OF w] unfolding counter_for_Inr table by blast
  have "sig_reads pr sig t" if "indexer_new pr (siger_current_code alg) i None r = Inr (sg_indexer sig)" "indexer_qb64 pr (sg_indexer sig) = Inr t"
    for sig alg i r t
    using w that by (auto simp: wire_laws_def cesr_text_laws_def sig_reads_def)
  then have reads: "list_all (\<lambda>sig. \<exists>q. sig_reads pr sig q) sigs"
    using texts o' unfolding on_wire_def list_all2_conv_all_nth list_all_length by metis
  have ctr: "counter_reads pr code (length sigs) q"
    if "group_code ControllerIdxSigs (table_for m) = Some code" "counter_new pr code (length sigs) = Inr c" "counter_qb64 pr c = Inr q"
    for code c q
    using that wire_counter [OF w] unfolding table by blast
  show ?thesis
    by (rule compose_sigs_parse [OF disjI1 [OF conjI [OF refl refl]] c ne _ _ wire_reads(1) [OF w wt t] reads len ctr rest(1) _ rest(3)])
      (use wire_reads(2) [OF w wt t] rest(2) in \<open>simp_all add: table del: parse_attachments.simps\<close>)
qed

end
