(* ===== verification/Keri_Witness.thy ===== *)
theory Keri_Witness
  imports Keri_Wire
begin

section \<open>Witnesses\<close>

text \<open>
  The receipts of witness habs (\<open>Hab::receipt\<close>, \<open>collect_witness_receipts\<close> and
  \<open>compose_witness_receipt_attachment\<close> of \<open>hab.rs\<close>): each signature verifies under the key
  that is the witness's prefix, so exactly the backers among the witnesses vouch for the
  event, and the attachment is parsed back to the couples it was composed of.
\<close>

text \<open>A hab that can witness: it is non-transferable, and its first signer is well made.\<close>

definition witness_hab :: "prims \<Rightarrow> hab \<Rightarrow> bool" where
  "witness_hab pr w \<longleftrightarrow> \<not> hb_transferable w \<and> hb_signers w \<noteq> [] \<and> signer_ok pr (hd (hb_signers w))"

text \<open>An inception with keys that are not transferable makes a witness.\<close>

lemma incepted_witness:
  assumes "incept_inner pr rand16 name' c store s = Inr (h, ev, s')" "\<not> ic_transferable c" "0 < ic_count c"
  shows "witness_hab pr h"
proof -
  from assms(1) have "derive_signers pr (hb_salter h) (ic_code c) (ic_transferable c) 0 (ic_count c) = Inr (hb_signers h)"
    and h: "hb_transferable h = ic_transferable c" by (rule incept_inner_Inr, metis hab.simps)+
  from derive_signers_ok [OF this(1)] assms(2,3) h show ?thesis
    by (cases "hb_signers h") (auto simp: witness_hab_def)
qed

definition witness_prefixes :: "prims \<Rightarrow> hab list \<Rightarrow> string set" where
  "witness_prefixes pr ws = {k. \<exists>w \<in> set ws. verfer_qb64 pr (sn_verfer (hd (hb_signers w))) = Inr k}"

text \<open>A couple that a witness made of a message.\<close>

definition receipt_of :: "prims \<Rightarrow> bytes \<Rightarrow> hab \<Rightarrow> string \<times> bytes \<Rightarrow> bool" where
  "receipt_of pr raw w c \<longleftrightarrow>
     (let s = hd (hb_signers w) in
      verfer_qb64 pr (sn_verfer s) = Inr (fst c) \<and> verfer_from_qb64 pr (fst c) = Inr (sn_verfer s) \<and>
      verfer_verify pr (sn_verfer s) raw (snd c) = Inr True)"

lemma collect_receipts:
  assumes laws: "matter_laws pr" "signature_laws pr"
  shows "list_all (witness_hab pr) ws \<Longrightarrow> collect_witness_receipts pr m ws = Some (Inr couples) \<Longrightarrow>
    list_all2 (receipt_of pr (serder_raw m)) ws couples"
proof (induction ws arbitrary: couples)
  case (Cons w ws)
  then obtain s ss where w: "hb_signers w = s # ss" "\<not> hb_transferable w" "signer_ok pr s"
    by (auto simp: witness_hab_def neq_Nil_conv)
  with Cons.prems(2) obtain cg k cs where cg: "signer_sign pr s (serder_raw m) = Inr cg" and k: "verfer_qb64 pr (sn_verfer s) = Inr k"
    and cs: "collect_witness_receipts pr m ws = Some (Inr cs)" and couples: "couples = (k, cigar_raw cg) # cs"
    by (auto simp: res_simps)
  from signer_verfer_qb64 [OF laws(1) w(3)] k have "verfer_from_qb64 pr k = Inr (sn_verfer s)" by auto
  with Cons.IH [OF _ cs] Cons.prems(1) sign_raw_verifies [OF laws w(3)] signer_sign_raw [OF laws(1) cg] k w(1) couples
  show ?case by (simp add: receipt_of_def Let_def)
qed simp

lemma collected_vouch:
  assumes c: "list_all2 (receipt_of pr raw) ws couples"
  shows "couples_checkable pr raw backers couples" "vouching pr raw backers couples = set backers \<inter> witness_prefixes pr ws"
proof -
  have fw: "\<exists>vf. verfer_from_qb64 pr k = Inr vf \<and> verfer_verify pr vf raw sig = Inr True"
    if "(k, sig) \<in> set couples" for k sig
    using c that by (induction rule: list_all2_induct) (auto simp: receipt_of_def Let_def)
  then show "couples_checkable pr raw backers couples" by (fastforce simp: couples_checkable_def)
  have "(\<exists>sig. (k, sig) \<in> set couples) \<longleftrightarrow> k \<in> witness_prefixes pr ws" for k
    using c by (induction rule: list_all2_induct) (auto simp: witness_prefixes_def receipt_of_def Let_def)
  with fw show "vouching pr raw backers couples = set backers \<inter> witness_prefixes pr ws"
    unfolding vouching_def by blast
qed

text \<open>The verifier demands as many backers among the witnesses as the threshold says.\<close>

lemma receipts_accepted_iff:
  assumes laws: "matter_laws pr" "signature_laws pr" and ws: "list_all (witness_hab pr) ws"
    and c: "collect_witness_receipts pr m ws = Some (Inr couples)"
  shows "verify_witness_receipts_static pr (serder_raw m) couples backers n = Inr () \<longleftrightarrow>
    n \<le> card (set backers \<inter> witness_prefixes pr ws)"
  using verify_witness_receipts_static_complete [OF collected_vouch(1) [OF collect_receipts [OF laws ws c]]]
    verify_witness_receipts_static_sound [of pr "serder_raw m" couples backers n]
    collected_vouch(2) [OF collect_receipts [OF laws ws c], of backers] by metis


subsection \<open>The attachment\<close>

lemma couple_texts_Inr:
  "couple_texts pr couples = Inr t \<Longrightarrow>
     \<exists>cts. list_all2 (\<lambda>c ct. \<exists>m. matter_new pr ''0B'' (snd c) = Inr m \<and> matter_qb64 pr m = Inr ct) couples cts \<and>
       t = concat (map2 (\<lambda>c ct. fst c @ ct) couples cts)"
proof (induction couples arbitrary: t)
  case (Cons c couples)
  then obtain m ct rest where m: "matter_new pr ''0B'' (snd c) = Inr m" "matter_qb64 pr m = Inr ct"
    and rest: "couple_texts pr couples = Inr rest" "t = fst c @ ct @ rest"
    by (cases c) (auto simp: res_simps cigar_new_def cigar_qb64_def)
  from Cons.IH [OF rest(1)] obtain cts where
    "list_all2 (\<lambda>c ct. \<exists>m. matter_new pr ''0B'' (snd c) = Inr m \<and> matter_qb64 pr m = Inr ct) couples cts"
    "rest = concat (map2 (\<lambda>c ct. fst c @ ct) couples cts)" by blast
  with m rest(2) show ?case by (intro exI [of _ "ct # cts"]) auto
qed simp

lemma couple_reads_of:
  assumes w: "wire_laws pr" and laws: "matter_laws pr" "signature_laws pr" and ws: "list_all (witness_hab pr) ws"
    and c: "collect_witness_receipts pr m ws = Some (Inr couples)"
    and cts: "list_all2 (\<lambda>c ct. \<exists>m. matter_new pr ''0B'' (snd c) = Inr m \<and> matter_qb64 pr m = Inr ct) couples cts"
  shows "list_all2 (couple_reads pr) couples cts"
proof -
  have key: "matter_reads pr k" if "witness_hab pr w" "receipt_of pr raw w (k, sig)" for w raw k sig
  proof -
    from that have "signer_ok pr (hd (hb_signers w))" "matter_qb64 pr (vf_matter (sn_verfer (hd (hb_signers w)))) = Inr k"
      by (auto simp: witness_hab_def receipt_of_def Let_def verfer_qb64_def)
    then show ?thesis using wire_matter [OF w] by (elim signer_ok_matter) auto
  qed
  have sig: "matter_reads pr ct \<and> (\<exists>m. matter_from_qb64 pr ct = Inr m \<and> mat_raw m = sig)"
    if "matter_new pr ''0B'' sig = Inr m" "matter_qb64 pr m = Inr ct" for sig ct m
    using wire_matter [OF w that] matter_laws_qb64 [OF laws(1) that(1)] matter_lawsD [OF laws(1) that(1)] that(2) by fastforce
  show ?thesis
    using collect_receipts [OF laws ws c] ws cts key sig
    unfolding list_all2_conv_all_nth list_all_length couple_reads_def by (metis prod.collapse)
qed

lemma attachment_parses:
  assumes w: "wire_laws pr" and laws: "matter_laws pr" "signature_laws pr" and ws: "list_all (witness_hab pr) ws"
    and table: "table_for m = V1" and att: "compose_witness_receipt_attachment pr m ws = Some (Inr att)"
  obtains couples where "collect_witness_receipts pr m ws = Some (Inr couples)" "is_ascii att" "1 \<le> length att"
    "parse_attachments (Suc (Suc 0)) pr V1 True att = Some (Inr ([ReceiptCouples couples], length att))"
proof -
  from att obtain couples q t where c: "collect_witness_receipts pr m ws = Some (Inr couples)"
    and q: "counter_for pr m NonTransReceiptCouples (length couples) = Inr q"
    and t: "couple_texts pr couples = Inr t" and o': "att = q @ t"
    by (auto simp: compose_witness_receipt_attachment_def res_simps group_counter_Inr)
  from q obtain code ctr where code: "group_code NonTransReceiptCouples V1 = Some code"
    and "counter_new pr code (length couples) = Inr ctr" "counter_qb64 pr ctr = Inr q"
    unfolding counter_for_Inr table by blast
  from wire_counter [OF w this] have n: "length couples \<le> MAX_ATTACHMENT_COUNT" and cr: "counter_reads pr code (length couples) q" by simp_all
  from t obtain cts where cts: "list_all2 (\<lambda>c ct. \<exists>m. matter_new pr ''0B'' (snd c) = Inr m \<and> matter_qb64 pr m = Inr ct) couples cts"
    and t': "t = concat (map2 (\<lambda>c ct. fst c @ ct) couples cts)"
    using couple_texts_Inr by blast
  from couple_reads_of [OF w laws ws c cts] have cr': "list_all2 (couple_reads pr) couples cts" .
  have g: "parse_group pr True inner code (length couples) (Some NonTransReceiptCouples) (t @ []) =
      Some (Inr ([ReceiptCouples couples], length t))" for inner
    using parse_receipt_couples_texts(1) [OF cr' n, of "[]"] by (simp add: parse_group_def t')
  have a: "is_ascii t" using parse_receipt_couples_texts(2) [OF cr' n, of "[]"] by (simp add: t')
  have "is_ascii att" "1 \<le> length att" using cr a by (cases q; simp add: o' counter_reads_def)+
  moreover have "parse_attachments (Suc (Suc 0)) pr V1 True att = Some (Inr ([ReceiptCouples couples], length att))"
    using parse_attachments_group [OF cr code g a _ parse_attachments_stop [of "[]" 0]] by (simp add: o' del: parse_attachments.simps)
  ultimately show thesis using c by (intro that)
qed

text \<open>A receipt of one witness with an Ed25519 key is the attachment for that witness alone.\<close>

lemma receipt_is_attachment:
  assumes laws: "matter_laws pr" and w: "witness_hab pr w" "sn_code (hd (hb_signers w)) = ''A''"
  shows "hab_receipt pr w m = Some (Inr att) \<longleftrightarrow> compose_witness_receipt_attachment pr m [w] = Some (Inr att)"
proof -
  from w obtain s ss where s: "hb_signers w = s # ss" "\<not> hb_transferable w" "sn_code s = ''A''"
    by (auto simp: witness_hab_def neq_Nil_conv)
  have "cigar_new pr ''0B'' (cigar_raw cg) = Inr (cg\<lparr>cg_verfer := None\<rparr>)" if "signer_sign pr s raw = Inr cg" for raw cg
    using that s(3) matter_lawsD [OF laws]
    by (auto simp: signer_sign_def algorithm_from_code_def cigar_new_with_verfer_def cigar_new_def cigar_raw_def res_simps)
  then show ?thesis
    using s by (fastforce simp: hab_receipt_def compose_witness_receipt_attachment_def cigar_qb64_def res_simps)
qed

end
