(* ===== verification/Keri_Hab_Log.thy ===== *)
theory Keri_Hab_Log
  imports Keri_Hab_Step
begin

section \<open>The log of a hab\<close>

text \<open>
  \<open>hab_log pr h first evs\<close>: the hab \<open>h\<close> was incepted with the signed event \<open>first\<close> and
  then made the events \<open>evs\<close>. A verifier that is given the log accepts all of it and ends
  in step with the hab. \<open>hab_run pr salt h\<close>: \<open>h\<close> was incepted from \<open>salt\<close> and then used in
  any way, failed operations included; from its state and the salt it is rebuilt exactly.
  The operations with a store make the same events as those without.
\<close>

lemma hab_rotate_as_event:
  assumes "hab_rotate pr c st s h = (Inr (msg, s'), h')"
  shows "\<exists>ev. hab_rotate_event pr c h = (Inr ev, h') \<and> sd_composed ev = msg"
  using assms
  by (fastforce simp: hab_rotate_def hab_rotate_event_def rotate_inner_def rotation_steps_def persist_def res_simps
      split: if_splits sum.splits prod.splits)

lemma hab_interact_as_event:
  assumes "hab_interact pr anchors st s h = Inr (msg, s', h')"
  shows "\<exists>ev. hab_interact_event pr anchors h = Inr (ev, h') \<and> sd_composed ev = msg"
  using assms by (auto simp: hab_interact_def hab_interact_event_def interact_inner_def persist_def res_simps)

lemma hab_incept_as_event:
  assumes "hab_incept pr rand16 name' c st s = Inr (h, msg, s')"
  shows "\<exists>ev. hab_incept_event pr rand16 name' c = Inr (h, ev) \<and> sd_composed ev = msg"
  using assms by (auto simp: hab_incept_def hab_incept_event_def incept_inner_def res_simps)


lemma hab_incept_stored:
  assumes "hab_incept_event pr rand16 name' c = Inr (h, ev)"
    and "\<And>said raw p sn sigs k x. \<exists>s'. st_store_event_with_hab st s said raw p sn sigs k x = Inr s'"
  shows "\<exists>s'. hab_incept pr rand16 name' c st s = Inr (h, sd_composed ev, s')"
  using assms(1)
    assms(2) [of "sd_said ev" "sd_raw ev" "sd_said ev" 0 "Some (sd_signatures ev)" name' "projr (json_to_vec pr (icp_hab_data name' c (sd_said ev)))"]
  by (auto simp: hab_incept_event_def hab_incept_def incept_inner_def res_simps)

lemma hab_interact_stored:
  assumes "hab_interact_event pr anchors h = Inr (ev, h')"
    and "\<And>said raw p sn sigs. \<exists>s'. st_store_event st s said raw p sn sigs = Inr s'"
  shows "\<exists>s'. hab_interact pr anchors st s h = Inr (sd_composed ev, s', h')"
  using assms(1) assms(2) [of "sd_said ev" "sd_raw ev" "hb_prefix h" "hb_sn h + 1" "Some (sd_signatures ev)"]
  by (auto simp: hab_interact_event_def hab_interact_def interact_inner_def persist_def res_simps)


subsection \<open>A hab without keys\<close>

lemma no_update_unsigned: "verify_update pr kv m [] \<noteq> Inr ks'"
  by (simp add: verify_update_Inr plain_rotation_def interaction_def verify_sigs_static_def not_satisfied_by_none)

text \<open>A failed rotation has taken the pre-rotated keys; the next one has no keys to sign with.\<close>

lemma rotate_inner_Inl:
  assumes "rotate_inner pr c store s h = (Inl e, h')" "hb_transferable h"
  shows "h' = h\<lparr>hb_next_signers := []\<rparr>"
  using assms by (auto simp: rotate_inner_def split: if_splits sum.splits)

lemma rotate_without_keys:
  assumes "rotate_inner pr c store s h = (Inr (ev, s'), h')" "hb_next_signers h = []"
  shows "sd_signatures ev = [] \<and> hb_signers h' = []"
  using assms by (auto elim!: rotate_inner_Inr simp: sign_event_def res_simps)


subsection \<open>The whole log is accepted\<close>

inductive hab_log :: "prims \<Rightarrow> hab \<Rightarrow> signed_event \<Rightarrow> signed_event list \<Rightarrow> bool" for pr where
  incepted: "inception_ok c \<Longrightarrow> hab_incept_event pr rand16 name' c = Inr (h, ev) \<Longrightarrow> event_fits ev [] \<Longrightarrow> hab_log pr h ev []"
| rotated: "hab_log pr h first evs \<Longrightarrow> rotation_ok c h \<Longrightarrow> hab_rotate_event pr c h = (Inr ev, h') \<Longrightarrow>
    event_fits ev (hb_prefix h) \<Longrightarrow> hab_log pr h' first (evs @ [ev])"
| interacted: "hab_log pr h first evs \<Longrightarrow> list_all json_ok anchors \<Longrightarrow> hab_interact_event pr anchors h = Inr (ev, h') \<Longrightarrow>
    event_fits ev (hb_prefix h) \<Longrightarrow> hab_log pr h' first (evs @ [ev])"

lemma kel_run_snoc:
  "kel_run pr kv es = Some kv' \<Longrightarrow> kel_step pr kv' e = Inr kv'' \<Longrightarrow> kel_run pr kv (es @ [e]) = Some kv''"
  unfolding kel_run_def by (induction es arbitrary: kv) (auto simp: bind_eq_Some_conv)

text \<open>What a log of a hab is to its verifiers, event by event.\<close>

lemma log_rotated:
  assumes laws: "hab_laws pr" and fol: "hab_follows pr h kv" and c: "rotation_ok c h"
    and r: "hab_rotate_event pr c h = (Inr ev, h')" and fits: "event_fits ev (hb_prefix h)"
  shows "hb_prefix h' = hb_prefix h \<and> hb_backer_threshold h' = hb_backer_threshold h \<and>
    (\<exists>m sigs kv'. sent_as pr (hb_prefix h) m sigs ev \<and> kever_update pr kv m sigs = Inr kv' \<and> hab_follows pr h' kv')"
proof -
  from r obtain s' where r: "rotate_inner pr c None () h = (Inr (ev, s'), h')"
    by (auto simp: hab_rotate_event_def res_simps split: prod.splits)
  from hab_rotation [OF laws fol c r fits] show ?thesis
    using r by (auto elim!: rotate_inner_Inr)
qed

lemma log_interacted:
  assumes laws: "hab_laws pr" and fol: "hab_follows pr h kv" and c: "list_all json_ok anchors"
    and i: "hab_interact_event pr anchors h = Inr (ev, h')" and fits: "event_fits ev (hb_prefix h)"
  shows "hb_prefix h' = hb_prefix h \<and> hb_backer_threshold h' = hb_backer_threshold h \<and>
    (\<exists>m sigs kv'. sent_as pr (hb_prefix h) m sigs ev \<and> kever_update pr kv m sigs = Inr kv' \<and> hab_follows pr h' kv')"
proof -
  from i obtain s' where i: "interact_inner pr anchors None () h = Inr (ev, s', h')"
    by (auto simp: hab_interact_event_def res_simps)
  from hab_interaction [OF laws fol c i fits] show ?thesis
    using i by (auto simp: interact_inner_def res_simps)
qed

lemma hab_log_verifies:
  assumes laws: "hab_laws pr" and "hab_log pr h first evs"
  shows "\<exists>m sigs vs kv0 es kv. sent_as pr (hb_prefix h) m sigs first \<and> kever_new pr m sigs vs = Inr kv0 \<and>
    list_all2 (\<lambda>e ev. sent_as pr (hb_prefix h) (event_serder e) (event_sigs e) ev) es evs \<and>
    kel_run pr kv0 es = Some kv \<and> hab_follows pr h kv"
  using assms(2)
proof induction
  case (incepted c rand16 name' h ev)
  then obtain s' where "incept_inner pr rand16 name' c None () = Inr (h, ev, s')" by (auto simp: hab_incept_event_def res_simps)
  from hab_inception [OF laws incepted(1) this incepted(3)] obtain m sigs kv where
    "sent_as pr (hb_prefix h) m sigs ev" "kever_new pr m sigs (map sn_verfer (hb_signers h)) = Inr kv" "hab_follows pr h kv"
    by blast
  moreover have "kel_run pr kv [] = Some kv" by (simp add: kel_run_def)
  ultimately show ?case by (intro exI conjI) (assumption | simp)+
next
  case (rotated h first evs c ev h')
  from rotated(5) obtain m sigs vs kv0 es kv where IH: "sent_as pr (hb_prefix h) m sigs first" "kever_new pr m sigs vs = Inr kv0"
    "list_all2 (\<lambda>e ev. sent_as pr (hb_prefix h) (event_serder e) (event_sigs e) ev) es evs"
    "kel_run pr kv0 es = Some kv" "hab_follows pr h kv" by blast
  from log_rotated [OF laws IH(5) rotated(2,3,4)] obtain n sg kv' where
    "sent_as pr (hb_prefix h) n sg ev" "kever_update pr kv n sg = Inr kv'" "hab_follows pr h' kv'" "hb_prefix h' = hb_prefix h" by blast
  with IH show ?case
    by (intro exI [of _ m] exI [of _ sigs] exI [of _ vs] exI [of _ kv0] exI [of _ "es @ [Plain n sg]"] exI [of _ kv'])
      (simp add: kel_run_snoc list_all2_appendI)
next
  case (interacted h first evs anchors ev h')
  from interacted(5) obtain m sigs vs kv0 es kv where IH: "sent_as pr (hb_prefix h) m sigs first" "kever_new pr m sigs vs = Inr kv0"
    "list_all2 (\<lambda>e ev. sent_as pr (hb_prefix h) (event_serder e) (event_sigs e) ev) es evs"
    "kel_run pr kv0 es = Some kv" "hab_follows pr h kv" by blast
  from log_interacted [OF laws IH(5) interacted(2,3,4)] obtain n sg kv' where
    "sent_as pr (hb_prefix h) n sg ev" "kever_update pr kv n sg = Inr kv'" "hab_follows pr h' kv'" "hb_prefix h' = hb_prefix h" by blast
  with IH show ?case
    by (intro exI [of _ m] exI [of _ sigs] exI [of _ vs] exI [of _ kv0] exI [of _ "es @ [Plain n sg]"] exI [of _ kv'])
      (simp add: kel_run_snoc list_all2_appendI)
qed


subsection \<open>Resumption\<close>

inductive hab_run :: "prims \<Rightarrow> bytes \<Rightarrow> hab \<Rightarrow> bool" for pr salt where
  incepted: "ic_salt c = Some salt \<Longrightarrow> hab_incept_event pr rand16 name' c = Inr (h, ev) \<Longrightarrow> hab_run pr salt h"
| rotated: "hab_run pr salt h \<Longrightarrow> hab_rotate_event pr c h = (r, h') \<Longrightarrow> hab_run pr salt h'"
| interacted: "hab_run pr salt h \<Longrightarrow> hab_interact_event pr anchors h = Inr (ev, h') \<Longrightarrow> hab_run pr salt h'"

definition derived_from :: "prims \<Rightarrow> bytes \<Rightarrow> hab \<Rightarrow> bool" where
  "derived_from pr salt h \<longleftrightarrow>
     salter_new pr ''0A'' salt = Inr (hb_salter h) \<and>
     derive_signers pr (hb_salter h) (hb_code h) (hb_transferable h) (hb_signer_gen h) (length (hb_signers h)) = Inr (hb_signers h) \<and>
     derive_signers pr (hb_salter h) (hb_code h) (hb_transferable h) (hb_next_gen h) (length (hb_next_signers h)) = Inr (hb_next_signers h)"

lemma derive_again: "derive_signers pr st code tr g n = Inr ss \<Longrightarrow> derive_signers pr st code tr g (length ss) = Inr ss"
  using derive_signers_ok by fastforce

lemma derive_no_signers [simp]: "derive_signers pr st code tr g 0 = Inr []"
  by (simp add: derive_signers_def)

lemma hab_run_derived: "hab_run pr salt h \<Longrightarrow> derived_from pr salt h"
proof (induction rule: hab_run.induct)
  case (incepted c rand16 name' h ev)
  then show ?case
    by (auto simp: hab_incept_event_def incept_inner_def res_simps derived_from_def dest: derive_again)
next
  case (rotated h c r h')
  then show ?case
    by (auto simp: hab_rotate_event_def rotate_inner_def rotation_steps_def res_simps derived_from_def
        dest: derive_again split: if_splits sum.splits prod.splits)
next
  case (interacted h anchors ev h')
  then show ?case by (auto simp: hab_interact_event_def interact_inner_def res_simps derived_from_def)
qed

lemma resume_derived: "derived_from pr salt h \<Longrightarrow> hab_resume pr (hab_to_state h) salt = Inr h"
  by (simp add: derived_from_def hab_resume_def hab_to_state_def)

lemma state_resumes:
  assumes "derived_from pr salt h" "hab_state_ok (hab_to_state h)"
  shows "map_option (\<lambda>st. hab_resume pr st salt) (hab_state_from_value (hab_state_to_value (hab_to_state h))) = Some (Inr h)"
  using assms by (simp add: hab_state_codec.dec_enc resume_derived)

end
