(* ===== verification/Keri_Direct.thy ===== *)
theory Keri_Direct
  imports Keri_Parser Keri_Kel Keri_Store
begin

section \<open>Direct mode\<close>

text \<open>
  \<open>affinidi-keri/src/direct.rs\<close>. The store is the pair of a trait implementation
  \<open>st\<close> and its state, \<open>kevers\<close> the map of verifiers by prefix; a function that is given
  both to change returns the new ones with its result. Every branch makes its writes last,
  so an error leaves both as they were and needs no state.

  The second half proves, in the context of the locale \<open>store_laws\<close>, what the protocol
  keeps of the store and the verifiers: \<open>in_step\<close> joins them, \<open>direct_run\<close> is any number
  of accepted messages.
\<close>

record process_result =
  pr_prefix :: string
  pr_sn :: u64
  pr_said :: string
  pr_ilk :: string

type_synonym kevers = "string \<rightharpoonup> kever"

definition extract_controller_sigs :: "attachment list \<Rightarrow> siger list" where
  "extract_controller_sigs attachments =
     concat (map (\<lambda>a. case a of ControllerSigs s \<Rightarrow> s | _ \<Rightarrow> []) attachments)"

definition verfers_from_serder :: "prims \<Rightarrow> serder \<Rightarrow> verfer list keri_result" where
  "verfers_from_serder pr s =
     (let keys = (case Option.bind (jget (serder_sad s) ''k'') as_array of
                    Some arr \<Rightarrow> List.map_filter as_str arr | None \<Rightarrow> [])
      in mapR (\<lambda>k. map_err KeriCrypto (verfer_from_qb64 pr k)) keys)"

text \<open>The loop that separates the attachments: receipt couples and the text of the signatures.\<close>

fun sigs_text :: "prims \<Rightarrow> siger list \<Rightarrow> bytes keri_result" where
  "sigs_text pr [] = Inr []"
| "sigs_text pr (sig # sigs) =
     bindR (map_err KeriCrypto (siger_qb64 pr sig)) (\<lambda>qb64.
     bindR (sigs_text pr sigs) (\<lambda>rest. Inr (qb64 @ rest)))"

fun separate :: "prims \<Rightarrow> attachment list \<Rightarrow> ((string \<times> bytes) list \<times> bytes) keri_result" where
  "separate pr [] = Inr ([], [])"
| "separate pr (ControllerSigs sigs # atts) =
     bindR (sigs_text pr sigs) (\<lambda>t.
     bindR (separate pr atts) (\<lambda>(couples, raw_sigs). Inr (couples, t @ raw_sigs)))"
| "separate pr (ReceiptCouples c # atts) =
     bindR (separate pr atts) (\<lambda>(couples, raw_sigs). Inr (c @ couples, raw_sigs))"
| "separate pr (Unknown code count data # atts) =
     Inl (KeriCore (ParseError ''message carries an uninterpreted attachment group; refusing to process it''))"
| "separate pr (att # atts) = separate pr atts"

definition opt_bytes :: "bytes \<Rightarrow> bytes option" where
  "opt_bytes bs = (if bs = [] then None else Some bs)"

definition process_parsed ::
    "prims \<Rightarrow> 's keri_store \<Rightarrow> parsed_message \<Rightarrow> 's \<Rightarrow> kevers \<Rightarrow> (process_result \<times> 's \<times> kevers) keri_result" where
  "process_parsed pr st parsed s kevers =
     bindR (core (serder_prefix (pm_serder parsed))) (\<lambda>prefix'.
     bindR (core (serder_sn (pm_serder parsed))) (\<lambda>sn.
     bindR (core (serder_said (pm_serder parsed))) (\<lambda>said.
     bindR (core (serder_ilk (pm_serder parsed))) (\<lambda>ilk.
     let controller_sigs = extract_controller_sigs (pm_attachments parsed);
         raw = serder_raw (pm_serder parsed);
         result = \<lparr>pr_prefix = prefix', pr_sn = sn, pr_said = said, pr_ilk = ilk\<rparr> in
     bindR (separate pr (pm_attachments parsed)) (\<lambda>(receipt_couples, raw_sig_bytes).
     if ilk = ''icp'' \<or> ilk = ''dip'' then
       if kevers prefix' \<noteq> None then Inl (AlreadyExists ''inception already exists for prefix'')
       else
         bindR (verfers_from_serder pr (pm_serder parsed)) (\<lambda>verfers.
         let sad = fst (serder_take_sad (pm_serder parsed)) in
         bindR (core (kever_new_from_parts pr raw sad controller_sigs verfers)) (\<lambda>kever.
         bindR (if 0 < ks_backer_threshold (kv_state kever)
                then core (verify_witness_receipts pr kever raw receipt_couples) else Inr ()) (\<lambda>_.
         bindR (db (st_store_event st s said raw prefix' sn (opt_bytes raw_sig_bytes))) (\<lambda>s'.
         Inr (result, s', kevers(prefix' \<mapsto> kever))))))
     else if ilk = ''rot'' \<or> ilk = ''ixn'' \<or> ilk = ''drt'' then
       (case kevers prefix' of
          Some kever \<Rightarrow>
            let sad = fst (serder_take_sad (pm_serder parsed)) in
            bindR (core (verify_update_owned pr kever raw sad controller_sigs)) (\<lambda>new_state.
            bindR (if 0 < ks_backer_threshold new_state
                   then core (verify_witness_receipts_static pr raw receipt_couples
                          (ks_backers new_state) (ks_backer_threshold new_state)) else Inr ()) (\<lambda>_.
            bindR (db (st_store_event st s said raw prefix' sn (opt_bytes raw_sig_bytes))) (\<lambda>s'.
            Inr (result, s', kevers(prefix' \<mapsto> apply_verified_update kever new_state)))))
        | None \<Rightarrow> Inr (result, s, kevers))
     else if ilk = ''rct'' then
       (if receipt_couples \<noteq> [] then
          bindR (db (st_put_receipts st s said (concat (map (\<lambda>(pfx, sig). pfx @ sig) receipt_couples)))) (\<lambda>s'.
          Inr (result, s', kevers))
        else Inr (result, s, kevers))
     else
       bindR (db (st_put_event st s said raw)) (\<lambda>s'. Inr (result, s', kevers)))))))"

text \<open>\<open>None\<close> is the parser out of fuel, which \<open>parse_next_inner_total\<close> excludes.\<close>

definition process_message ::
    "prims \<Rightarrow> 's keri_store \<Rightarrow> bytes \<Rightarrow> 's \<Rightarrow> kevers \<Rightarrow> ((process_result \<times> 's \<times> kevers) keri_result) option" where
  "process_message pr st data s kevers =
     map_option (\<lambda>r. bindR (core r) (\<lambda>(parsed, _). process_parsed pr st parsed s kevers)) (parse_next pr data)"

record key_state_entry =
  kse_prefix :: string
  kse_sn :: u64
  kse_said :: string

definition key_state_entry_from :: "kever \<Rightarrow> key_state_entry" where
  "key_state_entry_from kv =
     \<lparr>kse_prefix = kever_prefix kv, kse_sn = kever_sn kv, kse_said = ks_last_event_digest (kv_state kv)\<rparr>"


subsection \<open>What an accepted message does\<close>

text \<open>
  The two ways a message changes a log: an inception of a new prefix, and an event that
  continues a known one. \<open>witnessed\<close> is the demand on receipts of the state it installs.
\<close>

definition witnessed :: "prims \<Rightarrow> bytes \<Rightarrow> (string \<times> bytes) list \<Rightarrow> key_state \<Rightarrow> bool" where
  "witnessed pr raw couples ks \<longleftrightarrow>
     ks_backer_threshold ks \<le> card (vouching pr raw (ks_backers ks) couples)"

lemma icp_from_object_parts:
  assumes "icp_from_value (JObject obj) = Some e"
  shows "map_of obj ''i'' = Some (JString (icp_prefix e))" "map_of obj ''s'' = Some (JString (icp_sn e))"
proof -
  from assms obtain fs where "struct_fields icp_fields (JObject obj) = Some fs"
    "fs ! 3 = JString (icp_prefix e)" "fs ! 4 = JString (icp_sn e)"
    by (auto simp: icp_from_value_def bind_eq_Some_conv str_field_def)
  then show "map_of obj ''i'' = Some (JString (icp_prefix e))" "map_of obj ''s'' = Some (JString (icp_sn e))"
    using struct_fields_nth [of icp_fields obj fs 3] struct_fields_nth [of icp_fields obj fs 4]
    by (simp_all add: icp_fields_def)
qed

lemma from_inception_facts:
  "from_inception icp = Inr ks \<Longrightarrow> ks_prefix ks = icp_prefix icp \<and> ks_last_event_digest ks = icp_said icp \<and>
     u64_from_hex (icp_sn icp) = Some (ks_sn ks) \<and> \<not> ks_delegated ks"
  by (auto simp: from_inception_def res_simps)

lemma inception_fields:
  assumes "icp_from_value sad = Some icp" "from_inception icp = Inr ks"
    and "verify_said pr sad ''d'' ''E'' JsonKind = Inr () \<or> (\<exists>obj. sad = JObject obj)"
  shows "get_str sad ''i'' = Some (ks_prefix ks)" "get_str sad ''d'' = Some (ks_last_event_digest ks)"
    "Option.bind (get_str sad ''s'') u64_from_hex = Some (ks_sn ks)" "\<not> ks_delegated ks"
proof -
  from assms(3) obtain obj where obj: "sad = JObject obj" using verify_said_object by blast
  from from_inception_facts [OF assms(2)] icp_from_object [of obj icp] icp_from_object_parts [of obj icp] assms(1)
  show "get_str sad ''i'' = Some (ks_prefix ks)" "get_str sad ''d'' = Some (ks_last_event_digest ks)"
    "Option.bind (get_str sad ''s'') u64_from_hex = Some (ks_sn ks)" "\<not> ks_delegated ks"
    by (simp_all add: obj get_str_def)
qed

lemma kever_new_from_parts_facts:
  assumes "kever_new_from_parts pr raw sad sigs vs = Inr kv"
  shows "get_str sad ''t'' = Some ''icp''" "get_str sad ''i'' = Some (ks_prefix (kv_state kv))"
    "get_str sad ''d'' = Some (ks_last_event_digest (kv_state kv))"
    "Option.bind (get_str sad ''s'') u64_from_hex = Some (ks_sn (kv_state kv))"
    "\<not> ks_delegated (kv_state kv)"
proof -
  from assms obtain icp where t: "get_str sad ''t'' = Some ''icp''"
    and said: "verify_said pr sad ''d'' ''E'' JsonKind = Inr ()"
    and icp: "icp_from_value sad = Some icp" and st: "from_inception icp = Inr (kv_state kv)"
    by (auto simp: kever_new_from_parts_def res_simps)
  show "get_str sad ''t'' = Some ''icp''" by (rule t)
  show "get_str sad ''i'' = Some (ks_prefix (kv_state kv))"
    "get_str sad ''d'' = Some (ks_last_event_digest (kv_state kv))"
    "Option.bind (get_str sad ''s'') u64_from_hex = Some (ks_sn (kv_state kv))" "\<not> ks_delegated (kv_state kv)"
    by (rule inception_fields [OF icp st disjI1 [OF said]])+
qed

text \<open>What a verifier of an inception says is what the message says.\<close>

lemma kever_new_fields:
  assumes "kever_new pr s sigs vs = Inr kv"
  shows "serder_ilk s = Inr ''icp'' \<and> serder_prefix s = Inr (ks_prefix (kv_state kv)) \<and> serder_sn s = Inr (ks_sn (kv_state kv)) \<and>
    serder_said s = Inr (ks_last_event_digest (kv_state kv))"
proof -
  from assms obtain icp where t: "serder_ilk s = Inr ''icp''" and said: "serder_verify_said pr s ''E'' = Inr ()"
    and icp: "icp_from_value (serder_sad s) = Some icp" and st: "from_inception icp = Inr (kv_state kv)"
    unfolding kever_new_Inr by auto
  from said have "\<exists>obj. serder_sad s = JObject obj" unfolding serder_verify_said_def by (rule verify_said_object)
  note inception_fields [OF icp st disjI2 [OF this]]
  with t show ?thesis by (simp add: serder_prefix_def serder_sn_def serder_said_def)
qed

lemma verify_update_owned_facts:
  assumes "verify_update_owned pr kv raw sad sigs = Inr ks'"
  shows "extends sad (kv_state kv) ks'" "signed_by pr raw sigs ks'"
    "get_str sad ''t'' = Some ''rot'' \<or> get_str sad ''t'' = Some ''ixn''"
    "Option.bind (get_str sad ''s'') u64_from_hex = Some (ks_sn ks')"
    "same_authority (kv_state kv) ks' \<or> installs pr (kv_state kv) ks'"
proof -
  note u = verify_update_owned_serder [OF assms]
  from verify_update_facts [OF u]
  show e: "extends sad (kv_state kv) ks'" and "signed_by pr raw sigs ks'"
    and "same_authority (kv_state kv) ks' \<or> installs pr (kv_state kv) ks'" by auto
  from u show "get_str sad ''t'' = Some ''rot'' \<or> get_str sad ''t'' = Some ''ixn''"
    by (auto simp: verify_update_Inr serder_ilk_def)
  from u e show "Option.bind (get_str sad ''s'') u64_from_hex = Some (ks_sn ks')"
    by (auto simp: verify_update_Inr serder_sn_def extends_def)
qed

definition receipts_hold :: "prims \<Rightarrow> bytes \<Rightarrow> (string \<times> bytes) list \<Rightarrow> key_state \<Rightarrow> bool" where
  "receipts_hold pr raw couples ks \<longleftrightarrow>
     ks_backer_threshold ks = 0 \<or>
     verify_witness_receipts_static pr raw couples (ks_backers ks) (ks_backer_threshold ks) = Inr ()"

lemma receipts_hold_iff:
  "(if 0 < ks_backer_threshold ks
    then core (verify_witness_receipts_static pr raw couples (ks_backers ks) (ks_backer_threshold ks)) else Inr ()) = Inr ()
   \<longleftrightarrow> receipts_hold pr raw couples ks"
  by (auto simp: receipts_hold_def)

lemma receipts_hold_witnessed: "receipts_hold pr raw couples ks \<Longrightarrow> witnessed pr raw couples ks"
  using verify_witness_receipts_static_sound [of pr raw couples "ks_backers ks" "ks_backer_threshold ks"]
  by (auto simp: receipts_hold_def witnessed_def)

text \<open>The characterisation of success, ilk by ilk.\<close>

definition logs :: "prims \<Rightarrow> 's keri_store \<Rightarrow> parsed_message \<Rightarrow> (string \<times> bytes) list \<Rightarrow> bytes \<Rightarrow> kever \<Rightarrow> 's \<Rightarrow> 's \<Rightarrow> bool" where
  "logs pr st m couples sig_text kv' s s' \<longleftrightarrow>
     receipts_hold pr (serder_raw (pm_serder m)) couples (kv_state kv') \<and>
     st_store_event st s (ks_last_event_digest (kv_state kv')) (serder_raw (pm_serder m))
       (ks_prefix (kv_state kv')) (ks_sn (kv_state kv')) (opt_bytes sig_text) = Inr s'"

definition incepts :: "prims \<Rightarrow> parsed_message \<Rightarrow> kevers \<Rightarrow> kever \<Rightarrow> bool" where
  "incepts pr m kevers kv' \<longleftrightarrow>
     kevers (ks_prefix (kv_state kv')) = None \<and>
     (\<exists>vs. verfers_from_serder pr (pm_serder m) = Inr vs \<and>
        kever_new_from_parts pr (serder_raw (pm_serder m)) (serder_sad (pm_serder m))
          (extract_controller_sigs (pm_attachments m)) vs = Inr kv')"

definition continues :: "prims \<Rightarrow> parsed_message \<Rightarrow> kevers \<Rightarrow> kever \<Rightarrow> bool" where
  "continues pr m kevers kv' \<longleftrightarrow>
     (\<exists>kv ks'. kevers (ks_prefix ks') = Some kv \<and> kv' = apply_verified_update kv ks' \<and>
        verify_update_owned pr kv (serder_raw (pm_serder m)) (serder_sad (pm_serder m))
          (extract_controller_sigs (pm_attachments m)) = Inr ks')"

text \<open>Every verifier stands in the map under its own prefix.\<close>

definition keyed :: "kevers \<Rightarrow> bool" where
  "keyed kevers \<longleftrightarrow> (\<forall>p kv. kevers p = Some kv \<longrightarrow> ks_prefix (kv_state kv) = p)"

lemma process_parsed_cases:
  assumes r: "process_parsed pr st m s kevers = Inr (res, s', kevers')" and k: "keyed kevers"
  shows "\<exists>couples sig_text. separate pr (pm_attachments m) = Inr (couples, sig_text) \<and>
    ((\<exists>kv'. (incepts pr m kevers kv' \<or> continues pr m kevers kv') \<and> logs pr st m couples sig_text kv' s s' \<and>
        kevers' = kevers(ks_prefix (kv_state kv') \<mapsto> kv') \<and> pr_prefix res = ks_prefix (kv_state kv') \<and>
        pr_sn res = ks_sn (kv_state kv') \<and> pr_said res = ks_last_event_digest (kv_state kv') \<and>
        pr_ilk res \<in> {''icp'', ''rot'', ''ixn''}) \<or>
     kevers' = kevers \<and>
       (s' = s \<and> (pr_ilk res \<in> {''rot'', ''ixn'', ''drt''} \<and> kevers (pr_prefix res) = None \<or> pr_ilk res = ''rct'' \<and> couples = []) \<or>
        (\<exists>bs. pr_ilk res = ''rct'' \<and> st_put_receipts st s (pr_said res) bs = Inr s') \<or>
        pr_ilk res \<notin> {''icp'', ''dip'', ''rot'', ''ixn'', ''drt'', ''rct''} \<and>
          st_put_event st s (pr_said res) (serder_raw (pm_serder m)) = Inr s'))"
proof -
  let ?sad = "serder_sad (pm_serder m)" and ?raw = "serder_raw (pm_serder m)"
    and ?sigs = "extract_controller_sigs (pm_attachments m)"
  from r obtain p sn said ilk couples sig_text where
    p: "get_str ?sad ''i'' = Some p" and sn: "Option.bind (get_str ?sad ''s'') u64_from_hex = Some sn"
    and said: "get_str ?sad ''d'' = Some said" and ilk: "get_str ?sad ''t'' = Some ilk"
    and sep: "separate pr (pm_attachments m) = Inr (couples, sig_text)"
    unfolding process_parsed_def Let_def
    by (auto simp: bindR_eq_Inr serder_prefix_def serder_sn_def serder_said_def serder_ilk_def)
  let ?res = "\<lparr>pr_prefix = p, pr_sn = sn, pr_said = said, pr_ilk = ilk\<rparr>"
  have accessors: "serder_prefix (pm_serder m) = Inr p" "serder_sn (pm_serder m) = Inr sn"
    "serder_said (pm_serder m) = Inr said" "serder_ilk (pm_serder m) = Inr ilk"
    using p sn said ilk by (simp_all add: serder_prefix_def serder_sn_def serder_said_def serder_ilk_def)
  note r' = r [unfolded process_parsed_def Let_def accessors sep map_err_simps bindR_simps prod.case serder_take_sad_def fst_conv]
  consider (inception) "ilk = ''icp'' \<or> ilk = ''dip''" | (update) "ilk = ''rot'' \<or> ilk = ''ixn'' \<or> ilk = ''drt''"
    | (rct) "ilk = ''rct''" | (other) "ilk \<notin> {''icp'', ''dip'', ''rot'', ''ixn'', ''drt'', ''rct''}" by blast
  then show ?thesis
  proof cases
    case inception
    with r' obtain kv vs where vs: "verfers_from_serder pr (pm_serder m) = Inr vs"
      and kv: "kever_new_from_parts pr ?raw ?sad ?sigs vs = Inr kv"
      and w: "(if 0 < ks_backer_threshold (kv_state kv) then core (verify_witness_receipts pr kv ?raw couples) else Inr ()) = Inr ()"
      and st: "st_store_event st s said ?raw p sn (opt_bytes sig_text) = Inr s'"
      and new: "kevers p = None" "kevers' = kevers(p \<mapsto> kv)" "res = ?res"
      by (auto simp: bindR_eq_Inr if_Inl_eq_Inr simp del: not_None_eq)
    note f = kever_new_from_parts_facts [OF kv]
    have eq: "p = ks_prefix (kv_state kv)" "said = ks_last_event_digest (kv_state kv)" "sn = ks_sn (kv_state kv)"
      using p said sn f by simp_all
    have "incepts pr m kevers kv" using vs kv new(1) by (auto simp: incepts_def eq)
    moreover have "logs pr st m couples sig_text kv s s'"
      using w st receipts_hold_iff [of "kv_state kv" pr ?raw couples]
      by (simp only: logs_def eq verify_witness_receipts_def simp_thms)
    ultimately show ?thesis using sep new f(1) ilk by (auto simp: eq)
  next
    case update
    show ?thesis
    proof (cases "kevers p")
      case None
      with r' update have "res = ?res \<and> s' = s \<and> kevers' = kevers" by (auto simp: Let_def)
      with sep None update show ?thesis by auto
    next
      case (Some kv)
      with r' update obtain ks' where ks': "verify_update_owned pr kv ?raw ?sad ?sigs = Inr ks'"
        and w: "(if 0 < ks_backer_threshold ks' then core (verify_witness_receipts_static pr ?raw couples
                (ks_backers ks') (ks_backer_threshold ks')) else Inr ()) = Inr ()"
        and st: "st_store_event st s said ?raw p sn (opt_bytes sig_text) = Inr s'"
        and new: "kevers' = kevers(p \<mapsto> apply_verified_update kv ks')" "res = ?res"
        by (auto simp: bindR_eq_Inr)
      note f = verify_update_owned_facts [OF ks']
      have eq: "p = ks_prefix ks'" "said = ks_last_event_digest ks'" "sn = ks_sn ks'"
        using k Some said sn f(1,4) by (simp_all add: keyed_def extends_def)
      have "continues pr m kevers (apply_verified_update kv ks')"
        using ks' Some by (auto simp: continues_def eq)
      moreover have "logs pr st m couples sig_text (apply_verified_update kv ks') s s'"
        using st w [unfolded receipts_hold_iff] by (simp add: logs_def eq apply_verified_update_def)
      moreover have "kv_state (apply_verified_update kv ks') = ks'" by (simp add: apply_verified_update_def)
      moreover have "pr_ilk res \<in> {''icp'', ''rot'', ''ixn''}" using new(2) f(3) ilk by auto
      ultimately show ?thesis
        by (intro exI [of _ couples] exI [of _ sig_text] conjI [OF sep] disjI1 exI [of _ "apply_verified_update kv ks'"])
          (simp add: new eq)
    qed
  next
    case rct
    with r' sep show ?thesis by (auto simp: bindR_eq_Inr split: if_splits)
  next
    case other
    with r' sep show ?thesis by (auto simp: bindR_eq_Inr)
  qed
qed

text \<open>The result repeats what the message says of itself.\<close>

lemma process_parsed_result:
  assumes "process_parsed pr st m s kevers = Inr (r, s', kevers')"
  shows "serder_prefix (pm_serder m) = Inr (pr_prefix r)" "serder_sn (pm_serder m) = Inr (pr_sn r)"
    "serder_said (pm_serder m) = Inr (pr_said r)" "serder_ilk (pm_serder m) = Inr (pr_ilk r)"
proof -
  from assms obtain p n said ilk c where f: "serder_prefix (pm_serder m) = Inr p" "serder_sn (pm_serder m) = Inr n"
    "serder_said (pm_serder m) = Inr said" "serder_ilk (pm_serder m) = Inr ilk" "separate pr (pm_attachments m) = Inr c"
    unfolding process_parsed_def bindR_eq_Inr map_err_eq_Inr Let_def by auto
  have "r = \<lparr>pr_prefix = p, pr_sn = n, pr_said = said, pr_ilk = ilk\<rparr>"
    using assms unfolding process_parsed_def f map_err_simps bindR_simps Let_def
    by (cases c) (auto simp: bindR_eq_Inr split: if_splits option.splits)
  with f show "serder_prefix (pm_serder m) = Inr (pr_prefix r)" "serder_sn (pm_serder m) = Inr (pr_sn r)"
    "serder_said (pm_serder m) = Inr (pr_said r)" "serder_ilk (pm_serder m) = Inr (pr_ilk r)"
    by simp_all
qed

lemma process_parsed_kevers:
  assumes "process_parsed pr st m s kevers = Inr (res, s', kevers')" "keyed kevers"
  shows "kevers' = kevers \<or>
    (\<exists>kv'. (incepts pr m kevers kv' \<or> continues pr m kevers kv') \<and> kevers' = kevers(ks_prefix (kv_state kv') \<mapsto> kv'))"
  using process_parsed_cases [OF assms] by blast

lemma process_parsed_keyed:
  assumes "process_parsed pr st m s kevers = Inr (res, s', kevers')" "keyed kevers"
  shows "keyed kevers'"
  using process_parsed_kevers [OF assms] assms(2) by (auto simp: keyed_def split: if_splits)

text \<open>What holds of every verifier of the map: it comes from accepted events, none of them delegated.\<close>

definition verified :: "prims \<Rightarrow> kevers \<Rightarrow> bool" where
  "verified pr kevers \<longleftrightarrow>
     keyed kevers \<and> (\<forall>p kv. kevers p = Some kv \<longrightarrow> reachable pr kv \<and> \<not> ks_delegated (kv_state kv))"

lemma incepts_reachable: "incepts pr m kevers kv \<Longrightarrow> reachable pr kv \<and> \<not> ks_delegated (kv_state kv)"
  by (auto simp: incepts_def dest: kever_new_from_parts_facts intro: reachable.parts)

lemma continues_reachable:
  assumes "continues pr m kevers kv'" "verified pr kevers"
  shows "reachable pr kv' \<and> \<not> ks_delegated (kv_state kv')"
proof -
  from assms(1) obtain kv ks' where kv: "kevers (ks_prefix ks') = Some kv" "kv' = apply_verified_update kv ks'"
    and u: "verify_update_owned pr kv (serder_raw (pm_serder m)) (serder_sad (pm_serder m))
      (extract_controller_sigs (pm_attachments m)) = Inr ks'"
    by (auto simp: continues_def)
  from kv assms(2) have "reachable pr kv" "\<not> ks_delegated (kv_state kv)" by (auto simp: verified_def)
  with u kv(2) verify_update_owned_facts(1) [OF u] show ?thesis
    by (auto simp: extends_def apply_verified_update_def intro: reachable.owned [unfolded apply_verified_update_def])
qed

lemma process_parsed_verified:
  assumes "process_parsed pr st m s kevers = Inr (res, s', kevers')" "verified pr kevers"
  shows "verified pr kevers'"
proof -
  have "keyed kevers" using assms(2) by (simp add: verified_def)
  from process_parsed_kevers [OF assms(1) this] process_parsed_keyed [OF assms(1) this] assms(2)
  show ?thesis
    unfolding verified_def using incepts_reachable continues_reachable [OF _ assms(2)]
    by (auto split: if_splits)
qed


subsection \<open>The store and the verifiers\<close>

text \<open>The newest log entry of every known prefix is the event its verifier stands at.\<close>

definition in_step :: "prims \<Rightarrow> ('s \<Rightarrow> store_view) \<Rightarrow> 's \<Rightarrow> kevers \<Rightarrow> bool" where
  "in_step pr view s kevers \<longleftrightarrow>
     verified pr kevers \<and>
     (\<forall>p kv. kevers p = Some kv \<longrightarrow>
        sv_kels (view s) (p, ks_sn (kv_state kv)) = Some (ks_last_event_digest (kv_state kv)))"

primrec direct_run ::
    "prims \<Rightarrow> 's keri_store \<Rightarrow> 's \<times> kevers \<Rightarrow> parsed_message list \<Rightarrow> ('s \<times> kevers) option" where
  "direct_run pr st state [] = Some state"
| "direct_run pr st state (m # ms) =
     (case process_parsed pr st m (fst state) (snd state) of
        Inr (_, s', kevers') \<Rightarrow> direct_run pr st (s', kevers') ms
      | Inl _ \<Rightarrow> direct_run pr st state ms)"

lemma in_step_empty: "in_step pr view s (\<lambda>_. None)"
  by (simp add: in_step_def verified_def keyed_def)

context store_laws
begin

lemma logs_view:
  "logs pr st m couples sig_text kv' s s' \<Longrightarrow>
     view s' = with_event (ks_last_event_digest (kv_state kv')) (serder_raw (pm_serder m))
       (ks_prefix (kv_state kv')) (ks_sn (kv_state kv')) (opt_bytes sig_text) (view s)"
  by (auto simp: logs_def dest: store_event)

text \<open>The log of a prefix changes by the event that its verifier has accepted, and no other way.\<close>

lemma process_parsed_log:
  assumes r: "process_parsed pr st m s kevers = Inr (res, s', kevers')" and k: "keyed kevers"
  shows "kevers' = kevers \<and> sv_kels (view s') = sv_kels (view s) \<and> sv_fels (view s') = sv_fels (view s) \<or>
    (\<exists>kv' couples. (incepts pr m kevers kv' \<or> continues pr m kevers kv') \<and>
       witnessed pr (serder_raw (pm_serder m)) couples (kv_state kv') \<and>
       kevers' = kevers(ks_prefix (kv_state kv') \<mapsto> kv') \<and>
       sv_kels (view s') = (sv_kels (view s))((ks_prefix (kv_state kv'), ks_sn (kv_state kv')) \<mapsto>
         ks_last_event_digest (kv_state kv')) \<and>
       sv_evts (view s') = (sv_evts (view s))(ks_last_event_digest (kv_state kv') \<mapsto> serder_raw (pm_serder m)))"
proof -
  from process_parsed_cases [OF r k] consider
      (logged) kv' couples sig_text where "incepts pr m kevers kv' \<or> continues pr m kevers kv'"
        "logs pr st m couples sig_text kv' s s'" "kevers' = kevers(ks_prefix (kv_state kv') \<mapsto> kv')"
    | (same) "kevers' = kevers" "s' = s"
    | (receipts) bs where "kevers' = kevers" "st_put_receipts st s (pr_said res) bs = Inr s'"
    | (event) "kevers' = kevers" "st_put_event st s (pr_said res) (serder_raw (pm_serder m)) = Inr s'"
    by blast
  then show ?thesis
  proof cases
    case logged
    then have "witnessed pr (serder_raw (pm_serder m)) couples (kv_state kv')" by (simp add: logs_def receipts_hold_witnessed)
    with logged logs_view [OF logged(2)] show ?thesis
      by (intro disjI2 exI [of _ kv'] exI [of _ couples]) (simp add: with_event_def)
  next
    case receipts
    with put_receipts [OF receipts(2)] show ?thesis by simp
  next
    case event
    with put_event [OF event(2)] show ?thesis by simp
  qed simp
qed

lemma process_parsed_logged:
  assumes r: "process_parsed pr st m s kevers = Inr (res, s', kevers')" and k: "keyed kevers"
    and "kevers' \<noteq> kevers"
  shows "sv_fels (view s') (pr_prefix res, pr_sn res) = Some (pr_said res) \<and>
    sv_kels (view s') (pr_prefix res, pr_sn res) = Some (pr_said res) \<and>
    sv_evts (view s') (pr_said res) = Some (serder_raw (pm_serder m))"
proof -
  from process_parsed_cases [OF r k] assms(3) obtain couples sig_text kv' where
    "logs pr st m couples sig_text kv' s s'" "pr_prefix res = ks_prefix (kv_state kv')"
    "pr_sn res = ks_sn (kv_state kv')" "pr_said res = ks_last_event_digest (kv_state kv')" by blast
  with logs_view [OF this(1)] show ?thesis by (simp add: with_event_def)
qed

lemma process_parsed_in_step:
  assumes r: "process_parsed pr st m s kevers = Inr (res, s', kevers')" and i: "in_step pr view s kevers"
  shows "in_step pr view s' kevers'"
proof -
  have "keyed kevers" "verified pr kevers" using i by (simp_all add: in_step_def verified_def)
  with process_parsed_log [OF r] process_parsed_verified [OF r] i show ?thesis
    unfolding in_step_def by (auto split: if_splits)
qed

lemma direct_run_in_step:
  "direct_run pr st (s, kevers) ms = Some (s', kevers') \<Longrightarrow> in_step pr view s kevers \<Longrightarrow> in_step pr view s' kevers'"
proof (induction ms arbitrary: s kevers)
  case (Cons m ms)
  then show ?case
    by (cases "process_parsed pr st m s kevers") (auto intro: process_parsed_in_step)
qed simp

end

end
