(* ===== verification/Keri_Hab_Direct.thy ===== *)
theory Keri_Hab_Direct
  imports Keri_Witness Keri_Hab_Log Keri_Direct
begin

section \<open>A hab, its witnesses and a node\<close>

text \<open>
  The bytes of a hab's events, each followed by the receipts of witnesses, given to a node
  that runs in direct mode (\<open>process_message\<close>): \<open>hab_feed pr h msgs\<close> relates a hab to
  the messages it and its witnesses sent, \<open>node_run\<close> is a node that processes messages one
  after the other. The node accepts them all and its verifier ends in step with the hab; its
  store must not fail.
\<close>

text \<open>The parser strips the keys of the signatures; no check looks at them.\<close>

lemma satisfied_indices_parsed:
  "satisfied_indices pr m vs acc (map parsed_sig sigs) = satisfied_indices pr m vs acc sigs"
  by (induction pr m vs acc sigs rule: satisfied_indices.induct)
    (auto simp: parsed_sig_def siger_index_def siger_raw_def Let_def intro!: bindR_cong)

lemma verify_sigs_parsed: "verify_sigs_static pr m (map parsed_sig sigs) vs thr = verify_sigs_static pr m sigs vs thr"
  by (simp add: verify_sigs_static_def satisfied_indices_parsed)

lemma kever_new_parsed: "kever_new pr m (map parsed_sig sigs) vs = kever_new pr m sigs vs"
  unfolding kever_new_def verify_sigs_parsed ..

lemma verify_update_parsed: "verify_update pr kv m (map parsed_sig sigs) = verify_update pr kv m sigs"
  unfolding verify_update_def verify_sigs_parsed ..


subsection \<open>The node accepts what its verifier accepts\<close>

text \<open>The attachments of a message: its signatures, and the couples of its receipts if it has any.\<close>

definition attached :: "siger list \<Rightarrow> (string \<times> bytes) list \<Rightarrow> attachment list \<Rightarrow> bool" where
  "attached sigs couples atts \<longleftrightarrow>
     atts = [ControllerSigs (map parsed_sig sigs), ReceiptCouples couples] \<or>
     atts = [ControllerSigs (map parsed_sig sigs)] \<and> couples = []"

lemma attached_separate:
  assumes "attached sigs couples atts" "compose_event pr m sigs = Inr out"
  shows "\<exists>t. separate pr atts = Inr (couples, t)" "extract_controller_sigs atts = map parsed_sig sigs"
proof -
  have "\<exists>t. sigs_text pr (map parsed_sig sigs) = Inr t" if "list_all2 (\<lambda>s t. siger_qb64 pr s = Inr t) sigs texts" for texts
    using that by (induction rule: list_all2_induct) (auto simp: siger_qb64_def parsed_sig_def)
  moreover from assms(2) have "sigs = [] \<or> (\<exists>texts. list_all2 (\<lambda>s t. siger_qb64 pr s = Inr t) sigs texts)"
    by (auto simp: compose_event_def compose_sigs_def res_simps mapR_eq_Inr_conv split: if_splits)
  ultimately obtain t where "sigs_text pr (map parsed_sig sigs) = Inr t" by fastforce
  then show "\<exists>t. separate pr atts = Inr (couples, t)" "extract_controller_sigs atts = map parsed_sig sigs"
    using assms(1) by (auto simp: attached_def extract_controller_sigs_def)
qed

lemma node_accepts_inception:
  assumes d: "sent_as pr p m sigs ev" and k: "kever_new pr m sigs vs = Inr kv"
    and vs: "jget (serder_sad m) ''k'' = Some (jstrings keys)" "list_all2 (\<lambda>k vf. verfer_from_qb64 pr k = Inr vf) keys vs"
    and new: "kevers p = None" and atts: "attached sigs couples atts" 
      "verify_witness_receipts_static pr (serder_raw m) couples (ks_backers (kv_state kv)) (ks_backer_threshold (kv_state kv)) = Inr ()"
    and st: "never_full st"
  shows "\<exists>res s'. process_parsed pr st \<lparr>pm_serder = m, pm_attachments = atts\<rparr> s kevers = Inr (res, s', kevers(p \<mapsto> kv))"
proof -
  have json: "serder_kind m = JsonKind" and acc: "serder_prefix m = Inr p" "serder_said m = Inr (sd_said ev)"
    and c: "compose_event pr m sigs = Inr (sd_composed ev)"
    using d by (simp_all add: sent_as_def)
  from k have ilk: "serder_ilk m = Inr ''icp''" by (simp add: kever_new_Inr)
  from k obtain icp where icp: "icp_from_value (serder_sad m) = Some icp" "is_ok (from_inception icp)"
    and said: "serder_verify_said pr m ''E'' = Inr ()"
    by (auto simp: kever_new_Inr)
  from icp(2) obtain ks where "from_inception icp = Inr ks" by (auto simp: is_ok_iff)
  moreover from verify_said_object [OF said [unfolded serder_verify_said_def]] obtain obj where "serder_sad m = JObject obj" by blast
  ultimately obtain sn where sn: "serder_sn m = Inr sn"
    using icp_from_object_parts [of obj icp] icp(1) from_inception_facts [of icp ks]
    by (auto simp: serder_sn_def get_str_def)
  obtain t where t: "separate pr atts = Inr (couples, t)" using attached_separate(1) [OF atts(1) c] by blast
  have "verfers_from_serder pr m = Inr vs"
    using vs by (simp add: verfers_from_serder_def jstrings_def List.map_filter_simps mapR_eq_Inr_conv comp_def map_filter_def)
  moreover have "kever_new_from_parts pr (serder_raw m) (serder_sad m) (map parsed_sig sigs) vs = Inr kv"
    using kever_new_from_parts_eq [OF json] ilk k by (simp add: kever_new_parsed)
  moreover obtain s' where "st_store_event st s (sd_said ev) (serder_raw m) p sn (opt_bytes t) = Inr s'" using st unfolding never_full_def by blast
  moreover have "verify_witness_receipts pr kv (serder_raw m) couples = Inr ()"
    using atts(2) by (simp add: verify_witness_receipts_def)
  ultimately show ?thesis
    using acc ilk sn t new attached_separate(2) [OF atts(1) c]
    by (simp add: process_parsed_def Let_def serder_take_sad_def del: separate.simps)
qed

lemma node_updates:
  assumes d: "sent_as pr p m sigs ev" and u: "kever_update pr kv m sigs = Inr kv'"
    and known: "kevers p = Some kv" and atts: "attached sigs couples atts" and st: "never_full st"
  shows "\<exists>res s'. process_parsed pr st \<lparr>pm_serder = m, pm_attachments = atts\<rparr> s kevers =
    bindR (core (verify_witness_receipts_static pr (serder_raw m) couples (ks_backers (kv_state kv')) (ks_backer_threshold (kv_state kv'))))
      (\<lambda>_. Inr (res, s', kevers(p \<mapsto> kv')))"
proof -
  have json: "serder_kind m = JsonKind" and acc: "serder_prefix m = Inr p" "serder_said m = Inr (sd_said ev)"
    and c: "compose_event pr m sigs = Inr (sd_composed ev)"
    using d by (simp_all add: sent_as_def)
  from u obtain ks where ks: "verify_update pr kv m sigs = Inr ks" and kv': "kv' = apply_verified_update kv ks"
    by (auto simp: kever_update_eq res_simps)
  from ks obtain sn il where sn: "serder_sn m = Inr sn" and ilk: "serder_ilk m = Inr il" "il = ''rot'' \<or> il = ''ixn''"
    by (auto simp: verify_update_Inr)
  obtain t where t: "separate pr atts = Inr (couples, t)" using attached_separate(1) [OF atts c] by blast
  have "verify_update_owned pr kv (serder_raw m) (serder_sad m) (map parsed_sig sigs) = Inr ks"
    using verify_update_owned_eq [OF json] sn ks by (simp add: verify_update_parsed)
  moreover obtain s' where "st_store_event st s (sd_said ev) (serder_raw m) p sn (opt_bytes t) = Inr s'" using st unfolding never_full_def by blast
  moreover have "kv_state kv' = ks" by (simp add: kv' apply_verified_update_def)
  moreover have "(if 0 < k then core (verify_witness_receipts_static pr raw couples bs k) else Inr ()) =
      core (verify_witness_receipts_static pr raw couples bs k)" for raw bs k
    by (simp add: verify_witness_receipts_static_def)
  ultimately show ?thesis
    using acc ilk sn t known kv' attached_separate(2) [OF atts c]
    by (intro exI [of _ "\<lparr>pr_prefix = p, pr_sn = sn, pr_said = sd_said ev, pr_ilk = il\<rparr>"] exI [of _ s'])
      (auto simp: process_parsed_def Let_def serder_take_sad_def simp del: separate.simps)
qed


subsection \<open>From the bytes\<close>

text \<open>The message of an event with the receipts of some witnesses attached, or with none.\<close>

definition with_receipts :: "prims \<Rightarrow> signed_event \<Rightarrow> hab list \<Rightarrow> bytes \<Rightarrow> bool" where
  "with_receipts pr ev ws msg \<longleftrightarrow>
     ws = [] \<and> msg = sd_composed ev \<or>
     (\<exists>m att. serder_from_raw pr (sd_raw ev) = Inr m \<and> list_all (witness_hab pr) ws \<and>
        compose_witness_receipt_attachment pr m ws = Some (Inr att) \<and> msg = sd_composed ev @ att)"

text \<open>Enough of the hab's backers are among the witnesses.\<close>

definition enough_witnesses :: "prims \<Rightarrow> hab \<Rightarrow> hab list \<Rightarrow> bool" where
  "enough_witnesses pr h ws \<longleftrightarrow> hb_backer_threshold h \<le> card (set (hb_backers h) \<inter> witness_prefixes pr ws)"

lemma with_receipts_parses:
  assumes w: "wire_laws pr" and laws: "hab_laws pr" and m: "sent_as pr p m sigs ev" and t: "text_json 127 (serder_sad m)"
    and r: "with_receipts pr ev ws msg"
  obtains couples atts n where "parse_next pr msg = Some (Inr (\<lparr>pm_serder = m, pm_attachments = atts\<rparr>, n))"
    "attached sigs couples atts"
    "\<And>backers k. verify_witness_receipts_static pr (serder_raw m) couples backers k = Inr () \<longleftrightarrow>
       k \<le> card (set backers \<inter> witness_prefixes pr ws)"
proof -
  have wire: "wire_text pr m" "serder_raw m = sd_raw ev" using m by (simp_all add: sent_as_def on_wire_def)
  have ml: "matter_laws pr" "signature_laws pr" using laws by (simp_all add: hab_laws_def)
  from r consider (none) "ws = []" "msg = sd_composed ev"
    | (some) m' att where "serder_from_raw pr (sd_raw ev) = Inr m'" "list_all (witness_hab pr) ws"
        "compose_witness_receipt_attachment pr m' ws = Some (Inr att)" "msg = sd_composed ev @ att"
    by (auto simp: with_receipts_def)
  then show thesis
  proof cases
    case none
    have "parse_next pr (sd_composed ev @ []) =
        Some (Inr (\<lparr>pm_serder = m, pm_attachments = [ControllerSigs (map parsed_sig sigs)]\<rparr>, length (sd_composed ev) + 0))"
      by (rule composed_parses [OF w m t _ parse_attachments_stop [of _ 0]]) simp_all
    with none show thesis
      by (intro that [of "[ControllerSigs (map parsed_sig sigs)]" _ "[]"])
        (simp_all add: attached_def verify_witness_receipts_static_def witness_prefixes_def)
  next
    case some
    from wire_reads(1) [OF w wire(1) t, of "[]"] some(1) have "m' = m" by (simp add: wire(2))
    with some(3) attachment_parses [OF w ml some(2) wire_table [OF wire(1)]] obtain couples where
      c: "collect_witness_receipts pr m ws = Some (Inr couples)" and a: "is_ascii att" "1 \<le> length att"
      and p: "parse_attachments (Suc (Suc 0)) pr V1 True att = Some (Inr ([ReceiptCouples couples], length att))" by blast
    from composed_parses [OF w m t a(1) p] a(2) have "parse_next pr msg =
        Some (Inr (\<lparr>pm_serder = m, pm_attachments = [ControllerSigs (map parsed_sig sigs), ReceiptCouples couples]\<rparr>, length msg))"
      by (simp add: some(4))
    moreover have "attached sigs couples [ControllerSigs (map parsed_sig sigs), ReceiptCouples couples]"
      by (simp add: attached_def)
    ultimately show thesis using receipts_accepted_iff [OF ml some(2) c] by (intro that)
  qed
qed

text \<open>A node processes messages, until one is refused.\<close>

primrec node_run :: "prims \<Rightarrow> 's keri_store \<Rightarrow> 's \<times> kevers \<Rightarrow> bytes list \<Rightarrow> ('s \<times> kevers) option" where
  "node_run pr st state [] = Some state"
| "node_run pr st state (msg # msgs) =
     (case process_message pr st msg (fst state) (snd state) of
        Some (Inr (_, s', kevers')) \<Rightarrow> node_run pr st (s', kevers') msgs
      | _ \<Rightarrow> None)"

lemma node_run_snoc:
  "node_run pr st state msgs = Some (s1, kevers1) \<Longrightarrow> process_message pr st msg s1 kevers1 = Some (Inr (res, s2, kevers2)) \<Longrightarrow>
     node_run pr st state (msgs @ [msg]) = Some (s2, kevers2)"
  by (induction msgs arbitrary: state) (auto split: option.splits sum.splits prod.splits)

text \<open>A rotation or an interaction of a hab, of plain texts and with thresholds that can be met.\<close>

definition hab_makes :: "prims \<Rightarrow> hab \<Rightarrow> signed_event \<Rightarrow> hab \<Rightarrow> bool" where
  "hab_makes pr h ev h' \<longleftrightarrow>
     event_fits ev (hb_prefix h) \<and>
     ((\<exists>c. rotation_ok c h \<and> list_all plain (rc_backers_remove c @ rc_backers_add c) \<and> hab_rotate_event pr c h = (Inr ev, h')) \<or>
      (\<exists>anchors. list_all (text_json 125) anchors \<and> hab_interact_event pr anchors h = Inr (ev, h')))"

text \<open>The messages of a hab and its witnesses, from its inception on.\<close>

inductive hab_feed :: "prims \<Rightarrow> hab \<Rightarrow> bytes list \<Rightarrow> bool" for pr where
  incepted: "inception_ok c \<Longrightarrow> list_all plain (ic_backers c @ ic_config_traits c) \<Longrightarrow>
    hab_incept_event pr rand16 name' c = Inr (h, ev) \<Longrightarrow> event_fits ev [] \<Longrightarrow>
    with_receipts pr ev ws msg \<Longrightarrow> enough_witnesses pr h ws \<Longrightarrow> hab_feed pr h [msg]"
| continued: "hab_feed pr h msgs \<Longrightarrow> hab_makes pr h ev h' \<Longrightarrow> with_receipts pr ev ws msg \<Longrightarrow>
    enough_witnesses pr h' ws \<Longrightarrow> hab_feed pr h' (msgs @ [msg])"

lemma text_json_ok: "text_json n v \<Longrightarrow> json_ok v"
  by (induction n v rule: text_json.induct) (auto simp: list_all_iff)

lemma rotate_event_inner:
  "hab_rotate_event pr c h = (Inr ev, h') \<Longrightarrow> \<exists>s'. rotate_inner pr c None () h = (Inr (ev, s'), h')"
  by (auto simp: hab_rotate_event_def res_simps split: prod.splits)

lemma made_prefix: "hab_makes pr h ev h' \<Longrightarrow> hb_prefix h' = hb_prefix h"
  by (auto simp: hab_makes_def hab_interact_event_def interact_inner_def res_simps
      dest!: rotate_event_inner elim!: rotate_inner_Inr)

lemma made_verifies:
  assumes laws: "hab_laws pr" "wire_laws pr" and f: "hab_follows pr h kv" "plain (hb_prefix h)" "plain (hb_last_said h)"
    and made: "hab_makes pr h ev h'"
  obtains m sigs kv' where "sent_as pr (hb_prefix h) m sigs ev" "kever_update pr kv m sigs = Inr kv'"
    "text_json 127 (serder_sad m)" "hab_follows pr h' kv'" "hb_prefix h' = hb_prefix h" "plain (hb_last_said h')"
    "all_signed pr (serder_raw m) sigs (hb_signers h')"
proof -
  have fits: "event_fits ev (hb_prefix h)" "plain (sd_said ev)" using made by (simp_all add: hab_makes_def event_fits_def)
  from made consider (rot) c where "rotation_ok c h" "list_all plain (rc_backers_remove c @ rc_backers_add c)" "hab_rotate_event pr c h = (Inr ev, h')"
    | (ixn) anchors where "list_all (text_json 125) anchors" "hab_interact_event pr anchors h = Inr (ev, h')"
    unfolding hab_makes_def by blast
  then show thesis
  proof cases
    case rot
    then obtain s' where r: "rotate_inner pr c None () h = (Inr (ev, s'), h')" using rotate_event_inner by blast
    then have "hb_prefix h' = hb_prefix h" "hb_last_said h' = sd_said ev" by (auto elim!: rotate_inner_Inr)
    moreover have "text_laws pr" using laws(2) by (simp add: wire_laws_def)
    ultimately show thesis
      using hab_rotation [OF laws(1) f(1) rot(1) r fits(1)] rot(2) f(2,3) fits(2) by (auto intro: that)
  next
    case ixn
    then obtain s' where i: "interact_inner pr anchors None () h = Inr (ev, s', h')"
      by (auto simp: hab_interact_event_def res_simps)
    then have "hb_prefix h' = hb_prefix h" "hb_last_said h' = sd_said ev" by (auto simp: interact_inner_def res_simps)
    moreover have "list_all json_ok anchors" using ixn(1) text_json_ok by (auto simp: list_all_iff)
    ultimately show thesis
      using hab_interaction [OF laws(1) f(1) _ i fits(1)] ixn(1) f(2,3) fits(2) by (auto intro: that)
  qed
qed

text \<open>The node's state after the messages of a feed.\<close>

definition fed :: "prims \<Rightarrow> 's keri_store \<Rightarrow> 's \<Rightarrow> kevers \<Rightarrow> hab \<Rightarrow> bytes list \<Rightarrow> kever \<Rightarrow> bool" where
  "fed pr st s kevers h msgs kv \<longleftrightarrow>
     hab_follows pr h kv \<and> plain (hb_prefix h) \<and> plain (hb_last_said h) \<and>
     (\<exists>s'. node_run pr st (s, kevers) msgs = Some (s', kevers(hb_prefix h \<mapsto> kv)))"

lemma process_parsed_message:
  "parse_next pr msg = Some (Inr (pm, n)) \<Longrightarrow> process_parsed pr st pm s kevers = Inr r \<Longrightarrow>
     process_message pr st msg s kevers = Some (Inr r)"
  by (simp add: process_message_def)

text \<open>The next event: the node makes its acceptance depend on the witnesses alone.\<close>

lemma next_message:
  assumes laws: "hab_laws pr" "wire_laws pr" and f: "hab_follows pr h kv" "plain (hb_prefix h)" "plain (hb_last_said h)"
    and made: "hab_makes pr h ev h'" and r: "with_receipts pr ev ws msg"
  obtains m sigs couples atts n kv' where "parse_next pr msg = Some (Inr (\<lparr>pm_serder = m, pm_attachments = atts\<rparr>, n))"
    "attached sigs couples atts" "sent_as pr (hb_prefix h) m sigs ev" "kever_update pr kv m sigs = Inr kv'"
    "verify_witness_receipts_static pr (serder_raw m) couples (ks_backers (kv_state kv')) (ks_backer_threshold (kv_state kv')) = Inr ()
      \<longleftrightarrow> enough_witnesses pr h' ws"
    "hab_follows pr h' kv'" "hb_prefix h' = hb_prefix h" "plain (hb_last_said h')" "all_signed pr (serder_raw m) sigs (hb_signers h')"
proof -
  obtain m sigs kv' where m: "sent_as pr (hb_prefix h) m sigs ev" "kever_update pr kv m sigs = Inr kv'" "text_json 127 (serder_sad m)"
    and h': "hab_follows pr h' kv'" "hb_prefix h' = hb_prefix h" "plain (hb_last_said h')" "all_signed pr (serder_raw m) sigs (hb_signers h')"
    by (rule made_verifies [OF laws f made])
  obtain couples atts n where p: "parse_next pr msg = Some (Inr (\<lparr>pm_serder = m, pm_attachments = atts\<rparr>, n))"
    "attached sigs couples atts"
    and iff: "\<And>backers k. verify_witness_receipts_static pr (serder_raw m) couples backers k = Inr () \<longleftrightarrow>
       k \<le> card (set backers \<inter> witness_prefixes pr ws)"
    using with_receipts_parses [OF laws(2,1) m(1,3) r] by metis
  have "ks_backers (kv_state kv') = hb_backers h'" "ks_backer_threshold (kv_state kv') = hb_backer_threshold h'"
    using h'(1) by (simp_all add: hab_follows_def Let_def)
  with iff have "verify_witness_receipts_static pr (serder_raw m) couples (ks_backers (kv_state kv')) (ks_backer_threshold (kv_state kv')) = Inr ()
      \<longleftrightarrow> enough_witnesses pr h' ws" by (simp add: enough_witnesses_def)
  with p m(1,2) h' show thesis by (intro that)
qed

lemma next_event:
  assumes laws: "hab_laws pr" "wire_laws pr" and f: "fed pr st s kevers h msgs kv" and made: "hab_makes pr h ev h'"
    and r: "with_receipts pr ev ws msg" and st: "never_full st" and run: "node_run pr st (s, kevers) msgs = Some (s1, kevers1)"
  shows "(\<exists>res. process_message pr st msg s1 kevers1 = Some (Inr res)) \<longleftrightarrow> enough_witnesses pr h' ws"
    and "enough_witnesses pr h' ws \<Longrightarrow> \<exists>kv'. fed pr st s kevers h' (msgs @ [msg]) kv'"
proof -
  from f have f: "hab_follows pr h kv" "plain (hb_prefix h)" "plain (hb_last_said h)"
    and k1: "kevers1 = kevers(hb_prefix h \<mapsto> kv)" using run by (auto simp: fed_def)
  obtain m sigs couples atts n kv' where p: "parse_next pr msg = Some (Inr (\<lparr>pm_serder = m, pm_attachments = atts\<rparr>, n))"
    and a: "attached sigs couples atts" and m: "sent_as pr (hb_prefix h) m sigs ev" "kever_update pr kv m sigs = Inr kv'"
    and iff: "verify_witness_receipts_static pr (serder_raw m) couples (ks_backers (kv_state kv')) (ks_backer_threshold (kv_state kv')) = Inr ()
      \<longleftrightarrow> enough_witnesses pr h' ws"
    and h': "hab_follows pr h' kv'" "hb_prefix h' = hb_prefix h" "plain (hb_last_said h')"
    by (rule next_message [OF laws f made r])
  have "kevers1 (hb_prefix h) = Some kv" by (simp add: k1)
  from node_updates [where kevers = kevers1 and s = s1, OF m this a st] obtain res s2 where
    pp: "process_parsed pr st \<lparr>pm_serder = m, pm_attachments = atts\<rparr> s1 kevers1 =
      bindR (core (verify_witness_receipts_static pr (serder_raw m) couples (ks_backers (kv_state kv')) (ks_backer_threshold (kv_state kv'))))
        (\<lambda>_. Inr (res, s2, kevers1(hb_prefix h \<mapsto> kv')))" by auto
  have acc: "process_message pr st msg s1 kevers1 = Some (Inr (res, s2, kevers1(hb_prefix h \<mapsto> kv')))" if "enough_witnesses pr h' ws"
    using iff [THEN iffD2, OF that] pp by (simp add: process_message_def p)
  then show "\<exists>kv'. fed pr st s kevers h' (msgs @ [msg]) kv'" if "enough_witnesses pr h' ws"
    using that node_run_snoc [OF run acc [OF that]] h' f(2) by (auto simp: fed_def k1)
  show "(\<exists>res. process_message pr st msg s1 kevers1 = Some (Inr res)) \<longleftrightarrow> enough_witnesses pr h' ws"
    using acc iff pp by (auto simp: process_message_def p res_simps)
qed

text \<open>The first event.\<close>

lemma first_message:
  assumes laws: "hab_laws pr" "wire_laws pr" and c: "inception_ok c" "list_all plain (ic_backers c @ ic_config_traits c)"
    and inc: "hab_incept_event pr rand16 name' c = Inr (h, ev)" "event_fits ev []"
    and r: "with_receipts pr ev ws msg" "enough_witnesses pr h ws" and new: "kevers (hb_prefix h) = None" and st: "never_full st"
  obtains pm n res s1 kv where "parse_next pr msg = Some (Inr (pm, n))"
    "process_parsed pr st pm s kevers = Inr (res, s1, kevers(hb_prefix h \<mapsto> kv))" "hab_follows pr h kv"
    "plain (hb_prefix h)" "plain (hb_last_said h)" "hb_sn h = 0"
proof -
  from inc obtain s' where inc': "incept_inner pr rand16 name' c None () = Inr (h, ev, s')" by (auto simp: hab_incept_event_def res_simps)
  have tl: "text_laws pr" using laws(2) by (simp add: wire_laws_def)
  from hab_inception [OF laws(1) c(1) inc' inc(2)] obtain m sigs keys kv where
    m: "sent_as pr (hb_prefix h) m sigs ev" "kever_new pr m sigs (map sn_verfer (hb_signers h)) = Inr kv"
      "jget (serder_sad m) ''k'' = Some (jstrings keys)"
      "list_all2 (\<lambda>k vf. verfer_from_qb64 pr k = Inr vf) keys (map sn_verfer (hb_signers h))"
    and t: "text_json 127 (serder_sad m)" and f: "hab_follows pr h kv"
    using tl c(2) by blast
  obtain couples atts n where parse: "parse_next pr msg = Some (Inr (\<lparr>pm_serder = m, pm_attachments = atts\<rparr>, n))"
    and a: "attached sigs couples atts" and iff: "\<And>backers k. verify_witness_receipts_static pr (serder_raw m) couples backers k = Inr () \<longleftrightarrow>
       k \<le> card (set backers \<inter> witness_prefixes pr ws)"
    using with_receipts_parses [OF laws(2,1) m(1) t r(1)] by metis
  have "verify_witness_receipts_static pr (serder_raw m) couples (ks_backers (kv_state kv)) (ks_backer_threshold (kv_state kv)) = Inr ()"
    using iff f r(2) by (simp add: hab_follows_def Let_def enough_witnesses_def)
  from node_accepts_inception [where kevers = kevers and s = s, OF m new a this st] obtain res s1 where
    "process_parsed pr st \<lparr>pm_serder = m, pm_attachments = atts\<rparr> s kevers = Inr (res, s1, kevers(hb_prefix h \<mapsto> kv))" by auto
  moreover have "hb_prefix h = sd_said ev" "hb_last_said h = sd_said ev" "hb_sn h = 0" by (rule incept_inner_Inr [OF inc']; metis hab.simps)+
  ultimately show thesis using that parse f inc(2) by (simp add: event_fits_def)
qed

lemma feed_accepted:
  assumes laws: "hab_laws pr" "wire_laws pr" and feed: "hab_feed pr h msgs" and new: "kevers (hb_prefix h) = None"
    and st: "never_full st"
  shows "\<exists>kv. fed pr st s kevers h msgs kv"
  using feed new
proof induction
  case (incepted c rand16 name' h ev ws msg)
  obtain pm n res s1 kv where m: "parse_next pr msg = Some (Inr (pm, n))"
    "process_parsed pr st pm s kevers = Inr (res, s1, kevers(hb_prefix h \<mapsto> kv))"
    and f: "hab_follows pr h kv" "plain (hb_prefix h)" "plain (hb_last_said h)"
    by (rule first_message [where kevers = kevers and s = s, OF laws incepted st])
  from process_parsed_message [OF m] have "fed pr st s kevers h [msg] kv"
    using f by (simp add: fed_def)
  then show ?case by blast
next
  case (continued h msgs ev h' ws msg)
  from made_prefix [OF continued(2)] continued(5,6) obtain kv where fed: "fed pr st s kevers h msgs kv" by auto
  then obtain s1 kevers1 where "node_run pr st (s, kevers) msgs = Some (s1, kevers1)" by (auto simp: fed_def)
  with next_event(2) [OF laws fed continued(2,3) st] continued(4) show ?case by blast
qed

end
