(* ===== verification/Keri_Judge.thy ===== *)
theory Keri_Judge
  imports Keri_Direct
begin

section \<open>Judge\<close>

text \<open>
  \<open>affinidi-keri/src/judge.rs\<close>. The record \<open>judge\<close> is the struct, with the store as the
  state of a trait implementation \<open>st\<close>; \<open>judge_process\<close> returns the result and the judge
  it leaves behind. The context of \<open>store_laws\<close> proves the first-seen policy and the
  invariant \<open>judge_inv\<close> of everything a judge can process.
\<close>

datatype verdict = Trusted | Duplicitous | UnknownPrefix

record duplicity_evidence =
  de_prefix :: string
  de_sn :: u64
  de_first_seen_said :: string
  de_duplicitous_said :: string
  de_first_seen_event :: bytes
  de_duplicitous_event :: bytes

datatype judge_result =
    Accepted process_result
  | DuplicateAccepted
  | DuplicityDetected duplicity_evidence

definition MAX_DEL_PER_PREFIX :: "nat" where "MAX_DEL_PER_PREFIX = 100"
definition MAX_DEL_TOTAL :: "nat" where "MAX_DEL_TOTAL = 10000"

record 's judge =
  jd_store :: 's
  jd_kevers :: kevers
  jd_duplicitous :: "string set"
  jd_del :: "duplicity_evidence list"


subsection \<open>Operations\<close>

definition judge_new :: "'s \<Rightarrow> 's judge" where
  "judge_new s = \<lparr>jd_store = s, jd_kevers = (\<lambda>_. None), jd_duplicitous = {}, jd_del = []\<rparr>"

definition evidence_for :: "'s judge \<Rightarrow> string \<Rightarrow> duplicity_evidence list" where
  "evidence_for j prefix' = filter (\<lambda>e. de_prefix e = prefix') (jd_del j)"

definition record_duplicity :: "duplicity_evidence \<Rightarrow> 's judge \<Rightarrow> duplicity_evidence \<times> 's judge" where
  "record_duplicity evidence j =
     (let j' = j\<lparr>jd_duplicitous := insert (de_prefix evidence) (jd_duplicitous j)\<rparr> in
      if MAX_DEL_TOTAL \<le> length (jd_del j') then (evidence, j')
      else if MAX_DEL_PER_PREFIX \<le> length (filter (\<lambda>e. de_prefix e = de_prefix evidence) (jd_del j')) then (evidence, j')
      else (evidence, j'\<lparr>jd_del := jd_del j' @ [evidence]\<rparr>))"

definition trial_verify :: "prims \<Rightarrow> kevers \<Rightarrow> parsed_message \<Rightarrow> string \<Rightarrow> string \<Rightarrow> unit keri_result" where
  "trial_verify pr kevers parsed prefix' ilk =
     (let serder' = pm_serder parsed; controller_sigs = extract_controller_sigs (pm_attachments parsed) in
      if ilk = ''icp'' \<or> ilk = ''dip'' then
        bindR (verfers_from_serder pr serder') (\<lambda>verfers.
        bindR (core (kever_new pr serder' controller_sigs verfers)) (\<lambda>_. Inr ()))
      else if ilk = ''rot'' \<or> ilk = ''ixn'' \<or> ilk = ''drt'' then
        (case kevers prefix' of
           Some kever \<Rightarrow> bindR (core (verify_sigs pr kever (serder_raw serder') controller_sigs)) (\<lambda>_. Inr ())
         | None \<Rightarrow> Inl (NotFound ''no kever for prefix''))
      else Inl (KeriConfig ''unexpected ilk for duplicity check''))"

definition verify_for_duplicity ::
    "prims \<Rightarrow> 's keri_store \<Rightarrow> parsed_message \<Rightarrow> string \<Rightarrow> 's judge \<Rightarrow> (judge_result \<times> 's judge) keri_result" where
  "verify_for_duplicity pr st parsed existing_said j =
     bindR (core (serder_prefix (pm_serder parsed))) (\<lambda>prefix'.
     bindR (core (serder_sn (pm_serder parsed))) (\<lambda>sn.
     bindR (core (serder_said (pm_serder parsed))) (\<lambda>said.
     bindR (core (serder_ilk (pm_serder parsed))) (\<lambda>ilk.
     bindR (trial_verify pr (jd_kevers j) parsed prefix' ilk) (\<lambda>_.
     bindR (db (st_get_event st (jd_store j) existing_said)) (\<lambda>found.
     bindR (ok_or (NotFound ''first-seen event missing from store'') found) (\<lambda>first_seen_event.
     let (evidence, j') = record_duplicity
           \<lparr>de_prefix = prefix', de_sn = sn, de_first_seen_said = existing_said, de_duplicitous_said = said,
            de_first_seen_event = first_seen_event, de_duplicitous_event = serder_raw (pm_serder parsed)\<rparr> j
     in Inr (DuplicityDetected evidence, j'))))))))"

text \<open>\<open>Judge::process\<close> after the parser.\<close>

definition pass_on ::
    "prims \<Rightarrow> 's keri_store \<Rightarrow> parsed_message \<Rightarrow> 's judge \<Rightarrow> (judge_result \<times> 's judge) keri_result" where
  "pass_on pr st parsed j =
     bindR (process_parsed pr st parsed (jd_store j) (jd_kevers j)) (\<lambda>(result, s', kevers').
     Inr (Accepted result, j\<lparr>jd_store := s', jd_kevers := kevers'\<rparr>))"

definition judge_message ::
    "prims \<Rightarrow> 's keri_store \<Rightarrow> parsed_message \<Rightarrow> 's judge \<Rightarrow> (judge_result \<times> 's judge) keri_result" where
  "judge_message pr st parsed j =
     bindR (core (serder_prefix (pm_serder parsed))) (\<lambda>prefix'.
     bindR (core (serder_sn (pm_serder parsed))) (\<lambda>sn.
     bindR (core (serder_said (pm_serder parsed))) (\<lambda>said.
     bindR (core (serder_ilk (pm_serder parsed))) (\<lambda>ilk.
     if ilk = ''rct'' then pass_on pr st parsed j
     else if prefix' \<in> jd_duplicitous j then
       Inl (KeriCore (Validation ''prefix is duplicitous; refusing further events''))
     else
       bindR (db (st_get_first_seen st (jd_store j) prefix' sn)) (\<lambda>first_seen.
       case first_seen of
         None \<Rightarrow> pass_on pr st parsed j
       | Some existing_said \<Rightarrow>
           if existing_said = said then Inr (DuplicateAccepted, j)
           else verify_for_duplicity pr st parsed existing_said j)))))"

text \<open>\<open>None\<close> is the parser out of fuel, which \<open>parse_next_inner_total\<close> excludes.\<close>

definition judge_process ::
    "prims \<Rightarrow> 's keri_store \<Rightarrow> bytes \<Rightarrow> 's judge \<Rightarrow> ((judge_result \<times> 's judge) keri_result) option" where
  "judge_process pr st data j =
     map_option (\<lambda>r. bindR (core r) (\<lambda>(parsed, _). judge_message pr st parsed j)) (parse_next pr data)"

definition verdict_of :: "'s judge \<Rightarrow> string \<Rightarrow> verdict" where
  "verdict_of j prefix' =
     (if prefix' \<in> jd_duplicitous j then Duplicitous
      else if jd_kevers j prefix' \<noteq> None then Trusted else UnknownPrefix)"

definition is_duplicitous :: "'s judge \<Rightarrow> string \<Rightarrow> bool" where
  "is_duplicitous j prefix' = (prefix' \<in> jd_duplicitous j)"

text \<open>Any number of messages; one that is refused changes nothing.\<close>

primrec judge_run :: "prims \<Rightarrow> 's keri_store \<Rightarrow> 's judge \<Rightarrow> parsed_message list \<Rightarrow> 's judge" where
  "judge_run pr st j [] = j"
| "judge_run pr st j (m # ms) =
     judge_run pr st (case judge_message pr st m j of Inr (_, j') \<Rightarrow> j' | Inl _ \<Rightarrow> j) ms"


subsection \<open>The duplicitous event log\<close>

text \<open>
  What the struct's comment states of \<open>del\<close> and \<open>duplicitous\<close>, as the code keeps it: every
  prefix with evidence is flagged, a prefix has evidence at most once, and every flagged
  prefix has evidence as long as the log is not full.
\<close>

definition del_inv :: "'s judge \<Rightarrow> bool" where
  "del_inv j \<longleftrightarrow>
     distinct (map de_prefix (jd_del j)) \<and> set (map de_prefix (jd_del j)) \<subseteq> jd_duplicitous j \<and>
     length (jd_del j) \<le> MAX_DEL_TOTAL \<and>
     (length (jd_del j) < MAX_DEL_TOTAL \<longrightarrow> jd_duplicitous j = set (map de_prefix (jd_del j)))"

lemma del_inv_new: "del_inv (judge_new s)"
  by (simp add: del_inv_def judge_new_def)

lemma record_duplicity_effect [simp]:
  "fst (record_duplicity e j) = e"
  "jd_duplicitous (snd (record_duplicity e j)) = insert (de_prefix e) (jd_duplicitous j)"
  "jd_store (snd (record_duplicity e j)) = jd_store j"
  "jd_kevers (snd (record_duplicity e j)) = jd_kevers j"
  by (simp_all add: record_duplicity_def Let_def)

lemma record_duplicity_inv:
  assumes "del_inv j" "de_prefix e \<notin> jd_duplicitous j"
  shows "del_inv (snd (record_duplicity e j))"
proof (cases "MAX_DEL_TOTAL \<le> length (jd_del j)")
  case True
  with assms show ?thesis by (auto simp: del_inv_def record_duplicity_def Let_def)
next
  case False
  have fresh: "de_prefix e \<notin> de_prefix ` set (jd_del j)" using assms by (auto simp: del_inv_def)
  then have "filter (\<lambda>x. de_prefix x = de_prefix e) (jd_del j) = []" by (auto simp: filter_empty_conv image_iff)
  with False have "snd (record_duplicity e j) =
      j\<lparr>jd_duplicitous := insert (de_prefix e) (jd_duplicitous j), jd_del := jd_del j @ [e]\<rparr>"
    by (simp add: record_duplicity_def Let_def MAX_DEL_PER_PREFIX_def)
  with assms False fresh show ?thesis by (auto simp: del_inv_def)
qed


subsection \<open>What a message can do to a judge\<close>

lemma trial_verify_Inr:
  assumes "trial_verify pr kevers m p ilk = Inr ()" "serder_ilk (pm_serder m) = Inr ilk"
  shows "ilk = ''icp'' \<and>
      (\<exists>vs kv. verfers_from_serder pr (pm_serder m) = Inr vs \<and>
         kever_new pr (pm_serder m) (extract_controller_sigs (pm_attachments m)) vs = Inr kv) \<or>
    ilk \<in> {''rot'', ''ixn'', ''drt''} \<and>
    (\<exists>kv. kevers p = Some kv \<and>
       signed_by pr (serder_raw (pm_serder m)) (extract_controller_sigs (pm_attachments m)) (kv_state kv))"
proof (cases "ilk = ''icp'' \<or> ilk = ''dip''")
  case True
  from assms(1) have "\<exists>vs kv. verfers_from_serder pr (pm_serder m) = Inr vs \<and>
      kever_new pr (pm_serder m) (extract_controller_sigs (pm_attachments m)) vs = Inr kv"
    unfolding trial_verify_def Let_def if_P [OF True] bindR_eq_Inr map_err_eq_Inr by blast
  moreover from this assms(2) have "ilk = ''icp''" using kever_new_fields by fastforce
  ultimately show ?thesis by blast
next
  case False
  with assms have "ilk \<in> {''rot'', ''ixn'', ''drt''}" by (auto simp: trial_verify_def Let_def split: if_splits)
  moreover from this False assms obtain kv where kv: "kevers p = Some kv"
    and sigs: "verify_sigs pr kv (serder_raw (pm_serder m)) (extract_controller_sigs (pm_attachments m)) = Inr True"
    by (auto simp: trial_verify_def Let_def bindR_eq_Inr verify_sigs_def split: option.splits)
  moreover from sigs
  have "signed_by pr (serder_raw (pm_serder m)) (extract_controller_sigs (pm_attachments m)) (kv_state kv)"
    by (auto simp: verify_sigs_def bindR_eq_Inr build_verfers_Inr verify_sigs_static_iff signed_by_def)
  ultimately show ?thesis by blast
qed

lemma verify_for_duplicity_Inr:
  assumes "verify_for_duplicity pr st m existing j = Inr (res, j')"
  shows "\<exists>e. res = DuplicityDetected e \<and> j' = snd (record_duplicity e j) \<and>
    serder_prefix (pm_serder m) = Inr (de_prefix e) \<and> serder_sn (pm_serder m) = Inr (de_sn e) \<and>
    serder_said (pm_serder m) = Inr (de_duplicitous_said e) \<and> de_first_seen_said e = existing \<and>
    de_duplicitous_event e = serder_raw (pm_serder m) \<and>
    st_get_event st (jd_store j) existing = Inr (Some (de_first_seen_event e)) \<and>
    (\<exists>ilk. serder_ilk (pm_serder m) = Inr ilk \<and> trial_verify pr (jd_kevers j) m (de_prefix e) ilk = Inr ())"
proof -
  from assms obtain p sn said ilk ev where
    f: "serder_prefix (pm_serder m) = Inr p" "serder_sn (pm_serder m) = Inr sn" "serder_said (pm_serder m) = Inr said"
      "serder_ilk (pm_serder m) = Inr ilk" "trial_verify pr (jd_kevers j) m p ilk = Inr ()"
      "st_get_event st (jd_store j) existing = Inr (Some ev)"
    and r: "(let (evidence, j') = record_duplicity
           \<lparr>de_prefix = p, de_sn = sn, de_first_seen_said = existing, de_duplicitous_said = said,
            de_first_seen_event = ev, de_duplicitous_event = serder_raw (pm_serder m)\<rparr> j
         in Inr (DuplicityDetected evidence, j')) = (Inr (res, j') :: (judge_result \<times> _) keri_result)"
    unfolding verify_for_duplicity_def bindR_eq_Inr map_err_eq_Inr ok_or_eq_Inr by auto
  let ?e = "\<lparr>de_prefix = p, de_sn = sn, de_first_seen_said = existing, de_duplicitous_said = said,
     de_first_seen_event = ev, de_duplicitous_event = serder_raw (pm_serder m)\<rparr>"
  from r record_duplicity_effect(1) [of ?e j] have "res = DuplicityDetected ?e" "j' = snd (record_duplicity ?e j)"
    by (simp_all add: case_prod_beta)
  with f show ?thesis by (intro exI [of _ ?e]) simp
qed

text \<open>The outcomes of a message.\<close>

lemma judge_message_cases:
  assumes "judge_message pr st m j = Inr (res, j')"
  obtains (passed) r s' kevers' where "process_parsed pr st m (jd_store j) (jd_kevers j) = Inr (r, s', kevers')"
      "res = Accepted r" "j' = j\<lparr>jd_store := s', jd_kevers := kevers'\<rparr>"
      "serder_ilk (pm_serder m) = Inr ''rct'' \<or>
        (\<exists>p n. serder_prefix (pm_serder m) = Inr p \<and> serder_sn (pm_serder m) = Inr n \<and> p \<notin> jd_duplicitous j \<and>
           st_get_first_seen st (jd_store j) p n = Inr None)"
    | (replayed) p n said where "res = DuplicateAccepted" "j' = j" "serder_prefix (pm_serder m) = Inr p"
      "serder_sn (pm_serder m) = Inr n" "serder_said (pm_serder m) = Inr said"
      "st_get_first_seen st (jd_store j) p n = Inr (Some said)"
    | (detected) e where "res = DuplicityDetected e" "j' = snd (record_duplicity e j)"
      "verify_for_duplicity pr st m (de_first_seen_said e) j = Inr (res, j')"
      "de_prefix e \<notin> jd_duplicitous j" "de_first_seen_said e \<noteq> de_duplicitous_said e"
      "st_get_first_seen st (jd_store j) (de_prefix e) (de_sn e) = Inr (Some (de_first_seen_said e))"
proof -
  from assms obtain p n said ilk where
    f: "serder_prefix (pm_serder m) = Inr p" "serder_sn (pm_serder m) = Inr n" "serder_said (pm_serder m) = Inr said"
      "serder_ilk (pm_serder m) = Inr ilk"
    unfolding judge_message_def bindR_eq_Inr map_err_eq_Inr by auto
  note a = assms [unfolded judge_message_def f map_err_simps bindR_simps]
  show thesis
  proof (cases "ilk = ''rct''")
    case True
    with a f show thesis by (auto simp: pass_on_def bindR_eq_Inr intro: passed)
  next
    case False
    with a obtain fs where nd: "p \<notin> jd_duplicitous j" and fs: "st_get_first_seen st (jd_store j) p n = Inr fs"
      and r: "(case fs of None \<Rightarrow> pass_on pr st m j
         | Some existing_said \<Rightarrow> if existing_said = said then Inr (DuplicateAccepted, j)
             else verify_for_duplicity pr st m existing_said j) = Inr (res, j')"
      by (auto simp: bindR_eq_Inr if_Inl_eq_Inr)
    show thesis
    proof (cases fs)
      case None
      with r f fs nd show thesis by (auto simp: pass_on_def bindR_eq_Inr intro: passed)
    next
      case (Some existing)
      show thesis
      proof (cases "existing = said")
        case True
        with r Some f fs show thesis by (auto intro: replayed)
      next
        case False
        with r Some have v: "verify_for_duplicity pr st m existing j = Inr (res, j')" by simp
        from verify_for_duplicity_Inr [OF this] f fs Some nd False v show thesis
          by (elim exE conjE) (rule detected, auto)
      qed
    qed
  qed
qed

lemma judge_message_del_inv:
  assumes "judge_message pr st m j = Inr (res, j')" "del_inv j"
  shows "del_inv j' \<and> jd_duplicitous j \<subseteq> jd_duplicitous j'"
  using assms(1)
proof (cases rule: judge_message_cases)
  case (detected e)
  with assms(2) record_duplicity_inv [of j e] show ?thesis by auto
qed (use assms(2) in \<open>simp_all add: del_inv_def\<close>)

text \<open>A flagged prefix is dead: no event of it is accepted, only receipts pass.\<close>

lemma judge_message_duplicitous:
  assumes "serder_prefix (pm_serder m) = Inr p" "p \<in> jd_duplicitous j"
    "serder_ilk (pm_serder m) \<noteq> Inr ''rct''"
  shows "\<not> is_ok (judge_message pr st m j)"
proof
  assume "is_ok (judge_message pr st m j)"
  then obtain res j' where r: "judge_message pr st m j = Inr (res, j')" by (auto simp: is_ok_iff)
  then obtain n said ilk where "serder_sn (pm_serder m) = Inr n" "serder_said (pm_serder m) = Inr said"
    "serder_ilk (pm_serder m) = Inr ilk"
    unfolding judge_message_def bindR_eq_Inr map_err_eq_Inr by auto
  with r assms show False by (simp add: judge_message_def)
qed


subsection \<open>The first-seen policy\<close>

definition judge_inv :: "prims \<Rightarrow> ('s \<Rightarrow> store_view) \<Rightarrow> 's judge \<Rightarrow> bool" where
  "judge_inv pr view j \<longleftrightarrow> in_step pr view (jd_store j) (jd_kevers j) \<and> del_inv j"

lemma judge_inv_new: "judge_inv pr view (judge_new s)"
  using in_step_empty [of pr view s] by (simp add: judge_inv_def del_inv_new) (simp add: judge_new_def)

context store_laws
begin

lemma judge_message_inv:
  assumes r: "judge_message pr st m j = Inr (res, j')" and i: "judge_inv pr view j"
  shows "judge_inv pr view j'"
proof -
  have del: "del_inv j'" using judge_message_del_inv [OF r] i by (simp add: judge_inv_def)
  from r show ?thesis
  proof (cases rule: judge_message_cases)
    case (passed q s' kevers')
    with process_parsed_in_step [OF passed(1)] i del show ?thesis by (simp add: judge_inv_def)
  next
    case (detected e)
    with i del show ?thesis by (simp add: judge_inv_def)
  qed (use i in simp)
qed

text \<open>What was seen first stays: no message replaces an entry of the first-seen log.\<close>

lemma process_parsed_first_seen:
  assumes r: "process_parsed pr st m s kevers = Inr (q, s', kevers')" and k: "keyed kevers"
    and c: "serder_ilk (pm_serder m) = Inr ''rct'' \<or>
      (\<exists>p n. serder_prefix (pm_serder m) = Inr p \<and> serder_sn (pm_serder m) = Inr n \<and> sv_fels (view s) (p, n) = None)"
  shows "sv_fels (view s) \<subseteq>\<^sub>m sv_fels (view s')"
proof -
  note res = process_parsed_result [OF r]
  from process_parsed_cases [OF r k] consider
      (logged) kv' couples sig_text where "logs pr st m couples sig_text kv' s s'"
        "pr_prefix q = ks_prefix (kv_state kv')" "pr_sn q = ks_sn (kv_state kv')" "pr_ilk q \<in> {''icp'', ''rot'', ''ixn''}"
    | (same) "s' = s"
    | (receipts) bs where "st_put_receipts st s (pr_said q) bs = Inr s'"
    | (event) "st_put_event st s (pr_said q) (serder_raw (pm_serder m)) = Inr s'"
    by blast
  then show ?thesis
  proof cases
    case logged
    with c res have "sv_fels (view s) (ks_prefix (kv_state kv'), ks_sn (kv_state kv')) = None" by auto
    then show ?thesis using logs_view [OF logged(1)] by (auto simp: with_event_def map_le_def)
  next
    case receipts
    with put_receipts [OF receipts] show ?thesis by simp
  next
    case event
    with put_event [OF event] show ?thesis by simp
  qed simp
qed

lemma judge_message_first_seen:
  assumes r: "judge_message pr st m j = Inr (res, j')" and i: "judge_inv pr view j"
  shows "sv_fels (view (jd_store j)) \<subseteq>\<^sub>m sv_fels (view (jd_store j'))"
  using r
proof (cases rule: judge_message_cases)
  case (passed q s' kevers')
  have "serder_ilk (pm_serder m) = Inr ''rct'' \<or>
      (\<exists>p n. serder_prefix (pm_serder m) = Inr p \<and> serder_sn (pm_serder m) = Inr n \<and>
         sv_fels (view (jd_store j)) (p, n) = None)"
    using passed(4) get_first_seen by fastforce
  moreover have "keyed (jd_kevers j)" using i by (simp add: judge_inv_def in_step_def verified_def)
  ultimately show ?thesis using process_parsed_first_seen [OF passed(1)] passed(3) by simp
next
  case (detected e)
  then show ?thesis by simp
qed simp

lemma judge_run_inv:
  "judge_inv pr view j \<Longrightarrow> judge_inv pr view (judge_run pr st j ms) \<and>
     sv_fels (view (jd_store j)) \<subseteq>\<^sub>m sv_fels (view (jd_store (judge_run pr st j ms))) \<and>
     jd_duplicitous j \<subseteq> jd_duplicitous (judge_run pr st j ms)"
proof (induction ms arbitrary: j)
  case (Cons m ms)
  show ?case
  proof (cases "judge_message pr st m j")
    case (Inl e)
    with Cons show ?thesis by simp
  next
    case (Inr x)
    obtain res j' where x: "x = (res, j')" by (cases x)
    have r: "judge_message pr st m j = Inr (res, j')" using Inr x by simp
    have "judge_inv pr view j'" by (rule judge_message_inv [OF r Cons.prems])
    note ih = Cons.IH [OF this]
    note fels = judge_message_first_seen [OF r Cons.prems]
    have "jd_duplicitous j \<subseteq> jd_duplicitous j'"
      using judge_message_del_inv [OF r] Cons.prems by (simp add: judge_inv_def)
    with ih show ?thesis using fels by (auto simp: r dest: map_le_trans)
  qed
qed simp

text \<open>Evidence is genuine: two events at one place, the first on record, the second verified.\<close>

lemma duplicity_evidence_sound:
  assumes r: "judge_message pr st m j = Inr (DuplicityDetected e, j')"
  shows "serder_prefix (pm_serder m) = Inr (de_prefix e)" "serder_sn (pm_serder m) = Inr (de_sn e)"
    "serder_said (pm_serder m) = Inr (de_duplicitous_said e)" "de_duplicitous_event e = serder_raw (pm_serder m)"
    "sv_fels (view (jd_store j)) (de_prefix e, de_sn e) = Some (de_first_seen_said e)"
    "sv_evts (view (jd_store j)) (de_first_seen_said e) = Some (de_first_seen_event e)"
    "de_duplicitous_said e \<noteq> de_first_seen_said e"
    "\<exists>ilk. serder_ilk (pm_serder m) = Inr ilk \<and> trial_verify pr (jd_kevers j) m (de_prefix e) ilk = Inr ()"
    "de_prefix e \<notin> jd_duplicitous j" "j' = snd (record_duplicity e j)"
proof -
  have d: "verify_for_duplicity pr st m (de_first_seen_said e) j = Inr (DuplicityDetected e, j') \<and>
      de_first_seen_said e \<noteq> de_duplicitous_said e \<and> de_prefix e \<notin> jd_duplicitous j \<and>
      st_get_first_seen st (jd_store j) (de_prefix e) (de_sn e) = Inr (Some (de_first_seen_said e)) \<and>
      j' = snd (record_duplicity e j)"
    using r
  proof (cases rule: judge_message_cases)
    case (detected x)
    from detected(1) have "x = e" by simp
    with detected show ?thesis by simp
  qed simp_all
  then have v: "verify_for_duplicity pr st m (de_first_seen_said e) j = Inr (DuplicityDetected e, j')"
    and fs: "st_get_first_seen st (jd_store j) (de_prefix e) (de_sn e) = Inr (Some (de_first_seen_said e))" by simp_all
  from verify_for_duplicity_Inr [OF v]
  have ev: "st_get_event st (jd_store j) (de_first_seen_said e) = Inr (Some (de_first_seen_event e))" by auto
  from verify_for_duplicity_Inr [OF v]
  show "serder_prefix (pm_serder m) = Inr (de_prefix e)" "serder_sn (pm_serder m) = Inr (de_sn e)"
    "serder_said (pm_serder m) = Inr (de_duplicitous_said e)" "de_duplicitous_event e = serder_raw (pm_serder m)"
    "\<exists>ilk. serder_ilk (pm_serder m) = Inr ilk \<and> trial_verify pr (jd_kevers j) m (de_prefix e) ilk = Inr ()" by auto
  show "sv_fels (view (jd_store j)) (de_prefix e, de_sn e) = Some (de_first_seen_said e)"
    using get_first_seen [OF fs] by simp
  show "sv_evts (view (jd_store j)) (de_first_seen_said e) = Some (de_first_seen_event e)"
    using get_event [OF ev] by simp
  show "de_duplicitous_said e \<noteq> de_first_seen_said e" "de_prefix e \<notin> jd_duplicitous j" "j' = snd (record_duplicity e j)"
    using d by (simp_all add: eq_commute [of "de_first_seen_said e"])
qed

end

text \<open>As long as there is room, the evidence is recorded, and it is the only one of its prefix.\<close>

lemma record_duplicity_evidence:
  assumes "length (jd_del j) < MAX_DEL_TOTAL" "de_prefix e \<notin> de_prefix ` set (jd_del j)"
  shows "evidence_for (snd (record_duplicity e j)) (de_prefix e) = [e]"
proof -
  have none: "filter (\<lambda>x. de_prefix x = de_prefix e) (jd_del j) = []" using assms(2) by (auto simp: filter_empty_conv image_iff)
  with assms(1) show ?thesis by (simp add: record_duplicity_def evidence_for_def Let_def MAX_DEL_PER_PREFIX_def)
qed

end
