(* ===== verification/Keri_Equivocation.thy ===== *)
theory Keri_Equivocation
  imports Keri_Hab_Direct Keri_Judge
begin

section \<open>A hab, its witnesses and a judge\<close>

text \<open>
  The same bytes given to a judge. The judge accepts whatever a hab and its witnesses send;
  of two different events that the hab makes from one state with the same keys (two
  interactions, or two rotations) it accepts the one that comes first and reports the other,
  with both as evidence, whether or not any witness saw it. The judge's store must not fail.
\<close>

definition readable :: "'s keri_store \<Rightarrow> bool" where
  "readable st \<longleftrightarrow>
     (\<forall>s p n. \<exists>x. st_get_first_seen st s p n = Inr x) \<and> (\<forall>s k. \<exists>x. st_get_event st s k = Inr x)"

text \<open>A judge processes messages and accepts them all.\<close>

primrec judge_accepts :: "prims \<Rightarrow> 's keri_store \<Rightarrow> 's judge \<Rightarrow> bytes list \<Rightarrow> 's judge option" where
  "judge_accepts pr st j [] = Some j"
| "judge_accepts pr st j (msg # msgs) =
     (case judge_process pr st msg j of
        Some (Inr (Accepted _, j')) \<Rightarrow> judge_accepts pr st j' msgs
      | _ \<Rightarrow> None)"

lemma judge_accepts_snoc:
  "judge_accepts pr st j msgs = Some j1 \<Longrightarrow> judge_process pr st msg j1 = Some (Inr (Accepted r, j2)) \<Longrightarrow>
     judge_accepts pr st j (msgs @ [msg]) = Some j2"
  by (induction msgs arbitrary: j) (auto split: option.splits sum.splits prod.splits judge_result.splits)

text \<open>The keys in force accept what all the hab's signers signed.\<close>

lemma follower_verifies:
  assumes laws: "matter_laws pr" and f: "hab_follows pr h kv" and s: "all_signed pr raw sigs (hb_signers h)"
  shows "verify_sigs pr kv raw (map parsed_sig sigs) = Inr True"
proof -
  have "list_all2 (\<lambda>k vf. verfer_from_qb64 pr k = Inr vf) (ks_keys (kv_state kv)) (map sn_verfer (hb_signers h))"
    using f by (intro keys_read_back [OF laws]) (simp_all add: hab_follows_def Let_def)
  with f s show ?thesis
    by (simp add: verify_sigs_def build_verfers_Inr [THEN iffD2] verify_sigs_parsed all_signed_def hab_follows_def Let_def)
qed

lemma update_fields:
  assumes u: "kever_update pr kv m sigs = Inr kv'"
  shows "serder_sn m = Inr (ks_sn (kv_state kv) + 1)" "serder_ilk m = Inr ''rot'' \<or> serder_ilk m = Inr ''ixn''"
    "ks_sn (kv_state kv') = ks_sn (kv_state kv) + 1"
  using u by (auto simp: kever_update_eq res_simps verify_update_Inr plain_rotation_def interaction_def apply_rotation_Inr
      apply_interaction_Inr apply_verified_update_def)

text \<open>A judge in step with a hab: nothing of the prefix from the next sequence number on is on record.\<close>

definition judge_follows :: "prims \<Rightarrow> ('s \<Rightarrow> store_view) \<Rightarrow> 's judge \<Rightarrow> hab \<Rightarrow> nat \<Rightarrow> bool" where
  "judge_follows pr view j h n \<longleftrightarrow>
     (\<exists>kv. jd_kevers j (hb_prefix h) = Some kv \<and> hab_follows pr h kv) \<and> keyed (jd_kevers j) \<and>
     plain (hb_prefix h) \<and> plain (hb_last_said h) \<and> jd_duplicitous j = {} \<and> jd_del j = [] \<and>
     0 < n \<and> n \<le> 2 ^ 64 \<and> unat (hb_sn h) = n - 1 \<and>
     (\<forall>k. n \<le> unat k \<longrightarrow> sv_fels (view (jd_store j)) (hb_prefix h, k) = None)"

context store_laws
begin

lemma process_parsed_fels:
  assumes r: "process_parsed pr st m s kevers = Inr (res, s', kevers')" and k: "keyed kevers" and n: "kevers' \<noteq> kevers"
  shows "sv_fels (view s') = (sv_fels (view s))((pr_prefix res, pr_sn res) \<mapsto> pr_said res)"
    "sv_evts (view s') (pr_said res) = Some (serder_raw (pm_serder m))"
    "\<exists>kv'. kevers' = kevers(pr_prefix res \<mapsto> kv') \<and> pr_sn res = ks_sn (kv_state kv')"
proof -
  from process_parsed_cases [OF r k] n obtain couples sig_text kv' where
    "logs pr st m couples sig_text kv' s s'" "kevers' = kevers(ks_prefix (kv_state kv') \<mapsto> kv')" "pr_prefix res = ks_prefix (kv_state kv')"
    "pr_sn res = ks_sn (kv_state kv')" "pr_said res = ks_last_event_digest (kv_state kv')" by blast
  with logs_view [OF this(1)] show "sv_fels (view s') = (sv_fels (view s))((pr_prefix res, pr_sn res) \<mapsto> pr_said res)"
    "sv_evts (view s') (pr_said res) = Some (serder_raw (pm_serder m))"
    "\<exists>kv'. kevers' = kevers(pr_prefix res \<mapsto> kv') \<and> pr_sn res = ks_sn (kv_state kv')" by (auto simp: with_event_def)
qed

text \<open>A judge passes on a message at a place that it has not seen.\<close>

lemma judge_passes:
  assumes p: "parse_next pr msg = Some (Inr (m, n))" and f: "process_parsed pr st m (jd_store j) (jd_kevers j) = Inr (res, s', kevers')"
    and rd: "readable st" and new: "sv_fels (view (jd_store j)) (pr_prefix res, pr_sn res) = None" "pr_prefix res \<notin> jd_duplicitous j"
  shows "judge_process pr st msg j = Some (Inr (Accepted res, j\<lparr>jd_store := s', jd_kevers := kevers'\<rparr>))"
proof -
  obtain x where "st_get_first_seen st (jd_store j) (pr_prefix res) (pr_sn res) = Inr x" using rd unfolding readable_def by blast
  with get_first_seen [OF this] new(1) have "st_get_first_seen st (jd_store j) (pr_prefix res) (pr_sn res) = Inr None" by simp
  with new(2) process_parsed_result [OF f] f p show ?thesis
    by (simp add: judge_process_def judge_message_def pass_on_def)
qed

lemma judge_continues:
  assumes laws: "hab_laws pr" "wire_laws pr" and f: "judge_follows pr view j h n" "n < 2 ^ 64" and made: "hab_makes pr h ev h'"
    and r: "with_receipts pr ev ws msg" "enough_witnesses pr h' ws" and st: "never_full st" "readable st"
  shows "\<exists>r j'. judge_process pr st msg j = Some (Inr (Accepted r, j')) \<and> judge_follows pr view j' h' (Suc n) \<and>
    sv_fels (view (jd_store j')) (hb_prefix h, hb_sn h + 1) = Some (sd_said ev) \<and>
    sv_evts (view (jd_store j')) (sd_said ev) = Some (sd_raw ev)"
proof -
  from f(1) obtain kv where known: "jd_kevers j (hb_prefix h) = Some kv" "hab_follows pr h kv" and keyed: "keyed (jd_kevers j)"
    and plain: "plain (hb_prefix h)" "plain (hb_last_said h)"
    and j: "jd_duplicitous j = {}" "jd_del j = []" "0 < n" "unat (hb_sn h) = n - 1"
      "\<And>k. n \<le> unat k \<Longrightarrow> sv_fels (view (jd_store j)) (hb_prefix h, k) = None"
    by (auto simp: judge_follows_def)
  obtain m sigs couples atts k kv' where p: "parse_next pr msg = Some (Inr (\<lparr>pm_serder = m, pm_attachments = atts\<rparr>, k))"
    and a: "attached sigs couples atts" and m: "sent_as pr (hb_prefix h) m sigs ev" "kever_update pr kv m sigs = Inr kv'"
    and iff: "verify_witness_receipts_static pr (serder_raw m) couples (ks_backers (kv_state kv')) (ks_backer_threshold (kv_state kv')) = Inr ()
      \<longleftrightarrow> enough_witnesses pr h' ws"
    and h': "hab_follows pr h' kv'" "hb_prefix h' = hb_prefix h" "plain (hb_last_said h')"
    by (rule next_message [OF laws known(2) plain made r(1)])
  let ?kevers' = "(jd_kevers j)(hb_prefix h \<mapsto> kv')"
  from node_updates [where kevers = "jd_kevers j" and s = "jd_store j", OF m known(1) a st(1)] iff r(2) obtain res s' where
    pp: "process_parsed pr st \<lparr>pm_serder = m, pm_attachments = atts\<rparr> (jd_store j) (jd_kevers j) = Inr (res, s', ?kevers')" by auto
  have sn: "ks_sn (kv_state kv) = hb_sn h" "hb_sn h' = hb_sn h + 1"
    using update_fields(3) [OF m(2)] known(2) h'(1) by (simp_all add: hab_follows_def Let_def)
  have "serder_raw m = sd_raw ev" using m(1) by (simp add: sent_as_def)
  moreover have res: "pr_prefix res = hb_prefix h" "pr_sn res = hb_sn h + 1" "pr_said res = sd_said ev"
    using process_parsed_result [OF pp] m(1) update_fields(1) [OF m(2)] sn(1) by (simp_all add: sent_as_def)
  moreover have "kv' \<noteq> kv" using update_fields(3) [OF m(2)] by auto
  then have "?kevers' \<noteq> jd_kevers j" using known(1) by (metis fun_upd_same option.inject)
  note fels = process_parsed_fels [OF pp keyed this]
  have unat: "unat (hb_sn h + 1) = n"
    using f(2) j(3,4) by (simp add: unat_word_ariths)
  with j(1,5) res have "judge_process pr st msg j = Some (Inr (Accepted res, j\<lparr>jd_store := s', jd_kevers := ?kevers'\<rparr>))"
    by (intro judge_passes [OF p pp st(2)]) simp_all
  moreover have "judge_follows pr view (j\<lparr>jd_store := s', jd_kevers := ?kevers'\<rparr>) h' (Suc n)"
    using h' keyed plain(1) j f(2) unat
    by (auto simp: judge_follows_def keyed_def hab_follows_def Let_def sn(2) fels(1) res)
  ultimately show ?thesis using fels by (intro exI [of _ res]) auto
qed

text \<open>Another event of the same keys at the place of one on record is reported.\<close>

lemma judge_detects:
  assumes laws: "hab_laws pr" "wire_laws pr" and f: "judge_follows pr view j h n" and made: "hab_makes pr h ev2 h2"
    and r: "with_receipts pr ev2 ws msg" and st: "readable st" and j1: "judge_follows pr view j1 h1 n1"
    and same: "hb_prefix h1 = hb_prefix h" "hb_signers h1 = hb_signers h2"
    and seen: "sv_fels (view (jd_store j1)) (hb_prefix h, hb_sn h + 1) = Some said1" "said1 \<noteq> sd_said ev2"
      "sv_evts (view (jd_store j1)) said1 = Some raw1"
    and e: "e = \<lparr>de_prefix = hb_prefix h, de_sn = hb_sn h + 1, de_first_seen_said = said1, de_duplicitous_said = sd_said ev2,
      de_first_seen_event = raw1, de_duplicitous_event = sd_raw ev2\<rparr>"
  shows "judge_process pr st msg j1 = Some (Inr (DuplicityDetected e, j1\<lparr>jd_duplicitous := {hb_prefix h}, jd_del := [e]\<rparr>))"
proof -
  from f obtain kv where f: "hab_follows pr h kv" "plain (hb_prefix h)" "plain (hb_last_said h)" by (auto simp: judge_follows_def)
  from j1 obtain kv1 where kv1: "jd_kevers j1 (hb_prefix h) = Some kv1" "hab_follows pr h1 kv1"
    and del: "jd_duplicitous j1 = {}" "jd_del j1 = []" by (auto simp: judge_follows_def same)
  obtain m sigs couples atts k kv' where p: "parse_next pr msg = Some (Inr (\<lparr>pm_serder = m, pm_attachments = atts\<rparr>, k))"
    and a: "attached sigs couples atts" and m: "sent_as pr (hb_prefix h) m sigs ev2" "kever_update pr kv m sigs = Inr kv'"
    and signed: "all_signed pr (serder_raw m) sigs (hb_signers h2)"
    by (rule next_message [OF laws f made r])
  have fields: "serder_prefix m = Inr (hb_prefix h)" "serder_said m = Inr (sd_said ev2)" "serder_raw m = sd_raw ev2"
    "compose_event pr m sigs = Inr (sd_composed ev2)" using m(1) by (simp_all add: sent_as_def)
  have sn: "serder_sn m = Inr (hb_sn h + 1)" using update_fields(1) [OF m(2)] f(1) by (simp add: hab_follows_def Let_def)
  obtain fs ev where "st_get_first_seen st (jd_store j1) (hb_prefix h) (hb_sn h + 1) = Inr fs" "st_get_event st (jd_store j1) said1 = Inr ev"
    using st unfolding readable_def by blast
  with get_first_seen [OF this(1)] get_event [OF this(2)] seen
  have reads: "st_get_first_seen st (jd_store j1) (hb_prefix h) (hb_sn h + 1) = Inr (Some said1)"
    "st_get_event st (jd_store j1) said1 = Inr (Some raw1)" by simp_all
  have "matter_laws pr" using laws(1) by (simp add: hab_laws_def)
  from follower_verifies [OF this kv1(2)] signed
  have "verify_sigs pr kv1 (serder_raw m) (map parsed_sig sigs) = Inr True" by (simp add: same)
  then have "trial_verify pr (jd_kevers j1) \<lparr>pm_serder = m, pm_attachments = atts\<rparr> (hb_prefix h) il = Inr ()"
    if "il = ''rot'' \<or> il = ''ixn''" for il
    using that attached_separate(2) [OF a fields(4)] kv1(1) by (auto simp: trial_verify_def Let_def)
  then show ?thesis
    using update_fields(2) [OF m(2)] fields sn reads p del seen(2)
    by (auto simp: judge_process_def judge_message_def verify_for_duplicity_def record_duplicity_def Let_def e
        MAX_DEL_TOTAL_def MAX_DEL_PER_PREFIX_def)
qed

text \<open>A new judge accepts the whole of a feed.\<close>

lemma judge_accepts_feed:
  assumes laws: "hab_laws pr" "wire_laws pr" and feed: "hab_feed pr h msgs" and n: "length msgs \<le> 2 ^ 64"
    and st: "never_full st" "readable st" and new: "\<And>k. sv_fels (view s) (hb_prefix h, k) = None"
  shows "\<exists>j. judge_accepts pr st (judge_new s) msgs = Some j \<and> judge_follows pr view j h (length msgs)"
  using feed n new
proof induction
  case (incepted c rand16 name' h ev ws msg)
  obtain pm k res s1 kv where p: "parse_next pr msg = Some (Inr (pm, k))"
    and pp: "process_parsed pr st pm (jd_store (judge_new s)) (jd_kevers (judge_new s)) = Inr (res, s1, [hb_prefix h \<mapsto> kv])"
    and f: "hab_follows pr h kv" "plain (hb_prefix h)" "plain (hb_last_said h)" "hb_sn h = 0"
    by (rule first_message [where kevers = "Map.empty" and s = s, OF laws incepted(1-6) _ st(1)]) (auto simp: judge_new_def)
  have keyed: "keyed (jd_kevers (judge_new s))" by (simp add: keyed_def judge_new_def)
  have "[hb_prefix h \<mapsto> kv] \<noteq> jd_kevers (judge_new s)" by (simp add: judge_new_def fun_eq_iff)
  note fels = process_parsed_fels [OF pp keyed this]
  from fels(3) obtain kv1 where "[hb_prefix h \<mapsto> kv] = [pr_prefix res \<mapsto> kv1]" "pr_sn res = ks_sn (kv_state kv1)"
    by (auto simp: judge_new_def)
  then have res: "pr_prefix res = hb_prefix h" "pr_sn res = 0"
    using f(1,4) by (auto simp: hab_follows_def Let_def fun_eq_iff split: if_splits)
  with incepted(8) have "judge_process pr st msg (judge_new s) = Some (Inr (Accepted res, (judge_new s)\<lparr>jd_store := s1, jd_kevers := [hb_prefix h \<mapsto> kv]\<rparr>))"
    by (intro judge_passes [OF p pp st(2)]) (simp_all add: judge_new_def)
  moreover have "judge_follows pr view ((judge_new s)\<lparr>jd_store := s1, jd_kevers := [hb_prefix h \<mapsto> kv]\<rparr>) h 1"
    using f incepted(8) res fels(1)
    by (auto simp: judge_follows_def judge_new_def keyed_def hab_follows_def Let_def unat_eq_zero)
  ultimately show ?case by simp
next
  case (continued h msgs ev h' ws msg)
  with made_prefix [OF continued(2)] obtain j where j: "judge_accepts pr st (judge_new s) msgs = Some j"
    "judge_follows pr view j h (length msgs)" by auto
  from judge_continues [OF laws j(2) _ continued(2,3,4) st] continued(6) obtain r j' where
    "judge_process pr st msg j = Some (Inr (Accepted r, j'))" "judge_follows pr view j' h' (Suc (length msgs))" by auto
  with judge_accepts_snoc [OF j(1)] show ?case by auto
qed

end

end
