(* ===== verification/Keri_Replay.thy ===== *)
theory Keri_Replay
  imports Keri_Direct "HOL-Library.Sublist"
begin

section \<open>The store of a node and the logs it verified\<close>

text \<open>
  The abstract state of a direct-mode node is one list of messages per prefix: the log that
  was verified. \<open>replay\<close> gives such a list to the verifier from the start, with the receipts of
  each message, and \<open>accepted\<close> is the list that a sequence of messages amounts to. \<open>holds_log\<close>
  relates a list to the maps of the store and to the verifier the node keeps in memory;
  \<open>fresh_node_logs\<close> shows, over the contract of the store, that a node only ever has the
  logs it verified, all of each, and that these are the accepted ones if the store does not fail.
\<close>

subsection \<open>Replaying a log\<close>

definition receipted :: "prims \<Rightarrow> parsed_message \<Rightarrow> kever \<Rightarrow> bool" where
  "receipted pr m kv \<longleftrightarrow>
     (case separate pr (pm_attachments m) of
        Inr (couples, _) \<Rightarrow> receipts_hold pr (serder_raw (pm_serder m)) couples (kv_state kv)
      | Inl _ \<Rightarrow> False)"

definition open_log :: "prims \<Rightarrow> parsed_message \<Rightarrow> kever option" where
  "open_log pr m =
     Option.bind (okR (verfers_from_serder pr (pm_serder m))) (\<lambda>vs.
     Option.bind (okR (kever_new_from_parts pr (serder_raw (pm_serder m)) (serder_sad (pm_serder m))
         (extract_controller_sigs (pm_attachments m)) vs)) (\<lambda>kv.
     if receipted pr m kv then Some kv else None))"

definition extend_log :: "prims \<Rightarrow> kever \<Rightarrow> parsed_message \<Rightarrow> kever option" where
  "extend_log pr kv m =
     Option.bind (okR (verify_update_owned pr kv (serder_raw (pm_serder m)) (serder_sad (pm_serder m))
         (extract_controller_sigs (pm_attachments m)))) (\<lambda>ks'.
     if receipted pr m (apply_verified_update kv ks') then Some (apply_verified_update kv ks') else None)"

fun replay :: "prims \<Rightarrow> parsed_message list \<Rightarrow> kever option" where
  "replay pr [] = None"
| "replay pr (m # ms) = Option.bind (open_log pr m) (\<lambda>kv. run_steps (extend_log pr) kv ms)"

lemma extend_log_state:
  "extend_log pr kv m = Some kv' \<Longrightarrow>
     \<exists>ks'. kv' = apply_verified_update kv ks' \<and> kv_state kv' = ks' \<and>
       verify_update_owned pr kv (serder_raw (pm_serder m)) (serder_sad (pm_serder m))
         (extract_controller_sigs (pm_attachments m)) = Inr ks'"
  by (auto simp: extend_log_def apply_verified_update_def bind_eq_Some_conv split: if_splits)

text \<open>The verifier of a node reads a linked log too.\<close>

interpretation owned: linked_log "extend_log pr" "\<lambda>kv. ks_prefix (kv_state kv)" "\<lambda>kv. ks_sn (kv_state kv)"
  "\<lambda>kv. ks_last_event_digest (kv_state kv)" "\<lambda>m. get_str (serder_sad (pm_serder m)) ''p''"
  "\<lambda>m. get_str (serder_sad (pm_serder m)) ''d''" for pr
proof
  fix kv kv' :: kever and m
  assume "extend_log pr kv m = Some kv'"
  from extend_log_state [OF this] obtain ks' where "kv_state kv' = ks'"
    "verify_update_owned pr kv (serder_raw (pm_serder m)) (serder_sad (pm_serder m))
      (extract_controller_sigs (pm_attachments m)) = Inr ks'" by blast
  then have e: "extends (serder_sad (pm_serder m)) (kv_state kv) (kv_state kv')"
    using verify_update_owned_facts(1) by simp
  then show "ks_prefix (kv_state kv') = ks_prefix (kv_state kv)" and "ks_sn (kv_state kv') = ks_sn (kv_state kv) + 1"
    and "get_str (serder_sad (pm_serder m)) ''p'' = Some (ks_last_event_digest (kv_state kv))"
    and "get_str (serder_sad (pm_serder m)) ''d'' = Some (ks_last_event_digest (kv_state kv'))"
    by (simp_all add: extends_def)
qed

lemma open_log_starts:
  "open_log pr m = Some kv \<Longrightarrow> ks_sn (kv_state kv) = 0"
  by (auto simp: open_log_def bind_eq_Some_conv kever_new_from_parts_def from_inception_def res_simps split: if_splits)

lemma run_steps_snoc: "run_steps step k (es @ [e]) = Option.bind (run_steps step k es) (\<lambda>k'. step k' e)"
  by (induction es arbitrary: k) (auto split: bind_splits)

lemma replay_snoc: "replay pr evs = Some kv \<Longrightarrow> replay pr (evs @ [m]) = extend_log pr kv m"
  by (cases evs) (auto simp: run_steps_snoc bind_eq_Some_conv)

lemma replay_sn: "replay pr evs = Some kv \<Longrightarrow> ks_sn (kv_state kv) + 1 = of_nat (length evs)"
  by (cases evs) (auto simp: bind_eq_Some_conv dest!: open_log_starts owned.run_seqno)

text \<open>The verifier stands at the last message of the log it read.\<close>

lemma replay_said:
  assumes "replay pr evs = Some kv"
  shows "get_str (serder_sad (pm_serder (last evs))) ''d'' = Some (ks_last_event_digest (kv_state kv))"
proof (cases evs rule: rev_cases)
  case (snoc ms m)
  show ?thesis
  proof (cases "replay pr ms")
    case None
    then have "ms = []" using assms snoc by (cases ms) (auto simp: run_steps_snoc bind_eq_Some_conv)
    with assms snoc show ?thesis by (auto simp: open_log_def bind_eq_Some_conv dest: kever_new_from_parts_facts split: if_splits)
  next
    case (Some kv1)
    with assms snoc show ?thesis by (auto simp: replay_snoc dest: owned.step_name)
  qed
qed (use assms in simp)


subsection \<open>One message\<close>

text \<open>
  \<open>node_step\<close> is a message accepted or refused. On the verifier of the prefix it names it
  does what the replay does: nothing else that the node holds has a say in it.
\<close>

definition node_step :: "prims \<Rightarrow> 's keri_store \<Rightarrow> 's \<times> kevers \<Rightarrow> parsed_message \<Rightarrow> 's \<times> kevers" where
  "node_step pr st state m =
     (case process_parsed pr st m (fst state) (snd state) of Inr (_, s', kevers') \<Rightarrow> (s', kevers') | Inl _ \<Rightarrow> state)"

lemma direct_run_steps: "direct_run pr st state ms = Some (foldl (node_step pr st) state ms)"
  by (induction ms arbitrary: state) (auto simp: node_step_def split: sum.split prod.split)

definition about :: "string \<Rightarrow> parsed_message \<Rightarrow> bool" where
  "about p m \<longleftrightarrow> serder_prefix (pm_serder m) = Inr p"

lemma node_step_keyed: "keyed (snd state) \<Longrightarrow> keyed (snd (node_step pr st state m))"
  by (auto simp: node_step_def split: sum.split prod.split intro: process_parsed_keyed)

lemma open_log_fields:
  assumes "open_log pr m = Some kv"
  shows "is_ok (serder_sn (pm_serder m))" "is_ok (serder_said (pm_serder m))" "serder_ilk (pm_serder m) = Inr ''icp''"
    "is_ok (separate pr (pm_attachments m))"
proof -
  from assms obtain vs where "kever_new_from_parts pr (serder_raw (pm_serder m)) (serder_sad (pm_serder m))
      (extract_controller_sigs (pm_attachments m)) vs = Inr kv" and r: "receipted pr m kv"
    by (auto simp: open_log_def bind_eq_Some_conv split: if_splits)
  from kever_new_from_parts_facts [OF this(1)]
  show "is_ok (serder_sn (pm_serder m))" "is_ok (serder_said (pm_serder m))" "serder_ilk (pm_serder m) = Inr ''icp''"
    by (simp_all add: serder_sn_def serder_said_def serder_ilk_def)
  show "is_ok (separate pr (pm_attachments m))" using r by (auto simp: receipted_def is_ok_iff split: sum.splits)
qed

lemma extend_log_fields:
  assumes "extend_log pr kv m = Some kv'"
  shows "is_ok (serder_sn (pm_serder m))" "is_ok (serder_said (pm_serder m))"
    "serder_ilk (pm_serder m) = Inr ''rot'' \<or> serder_ilk (pm_serder m) = Inr ''ixn''" "is_ok (separate pr (pm_attachments m))"
proof -
  from assms obtain ks' where "verify_update_owned pr kv (serder_raw (pm_serder m)) (serder_sad (pm_serder m))
      (extract_controller_sigs (pm_attachments m)) = Inr ks'" and r: "receipted pr m kv'"
    by (auto simp: extend_log_def bind_eq_Some_conv split: if_splits)
  from verify_update_owned_facts(1,3,4) [OF this(1)]
  show "is_ok (serder_sn (pm_serder m))" "is_ok (serder_said (pm_serder m))"
    "serder_ilk (pm_serder m) = Inr ''rot'' \<or> serder_ilk (pm_serder m) = Inr ''ixn''"
    by (auto simp: serder_sn_def serder_said_def serder_ilk_def extends_def)
  show "is_ok (separate pr (pm_attachments m))" using r by (auto simp: receipted_def is_ok_iff split: sum.splits)
qed

lemma refused_fields:
  assumes "\<nexists>sn said ilk sep. serder_sn (pm_serder m) = Inr sn \<and> serder_said (pm_serder m) = Inr said \<and>
      serder_ilk (pm_serder m) = Inr ilk \<and> separate pr (pm_attachments m) = Inr sep"
  shows "open_log pr m = None" "extend_log pr kv m = None" "node_step pr st state m = state"
proof -
  show "open_log pr m = None" using assms open_log_fields [of pr m] by (cases "open_log pr m") (auto simp: is_ok_iff)
  show "extend_log pr kv m = None" using assms extend_log_fields [of pr kv m] by (cases "extend_log pr kv m") (auto simp: is_ok_iff)
  have "process_parsed pr st m s k \<noteq> Inr r" for s k r
  proof
    assume "process_parsed pr st m s k = Inr r"
    then obtain sn said ilk sep where "serder_sn (pm_serder m) = Inr sn" "serder_said (pm_serder m) = Inr said"
      "serder_ilk (pm_serder m) = Inr ilk" "separate pr (pm_attachments m) = Inr sep"
      unfolding process_parsed_def bindR_eq_Inr map_err_eq_Inr Let_def by auto
    with assms show False by blast
  qed
  then show "node_step pr st state m = state" by (simp add: node_step_def split: sum.split)
qed

text \<open>Exactly what the replay accepts is accepted.\<close>

lemma node_step_verifier:
  assumes st: "never_full st" and p: "about p m"
  shows "snd (node_step pr st state m) p =
    (case snd state p of None \<Rightarrow> open_log pr m
     | Some kv \<Rightarrow> Some (case extend_log pr kv m of None \<Rightarrow> kv | Some kv' \<Rightarrow> kv'))"
proof (cases "\<exists>sn said ilk sep. serder_sn (pm_serder m) = Inr sn \<and> serder_said (pm_serder m) = Inr said \<and>
      serder_ilk (pm_serder m) = Inr ilk \<and> separate pr (pm_attachments m) = Inr sep")
  case False
  show ?thesis unfolding refused_fields [OF False] by (simp split: option.split)
next
  case True
  then obtain sn said ilk couples t where acc: "serder_sn (pm_serder m) = Inr sn" "serder_said (pm_serder m) = Inr said"
    "serder_ilk (pm_serder m) = Inr ilk" "separate pr (pm_attachments m) = Inr (couples, t)" by auto
  obtain s k where st_eq: "state = (s, k)" by (cases state)
  obtain store where store: "st_store_event st t d raw q n sigs = Inr (store t d raw q n sigs)" for t d raw q n sigs
    using st unfolding never_full_def by metis
  have prefix: "serder_prefix (pm_serder m) = Inr p" using p by (simp add: about_def)
  note step_defs = node_step_def process_parsed_def st_eq prefix acc store Let_def serder_take_sad_def bindR_def map_err_def
  show ?thesis
  proof (cases "k p")
    case None
    have "snd (node_step pr st state m) p = open_log pr m"
    proof (cases "ilk = ''icp'' \<or> ilk = ''dip''")
      case True
      then show ?thesis
        by (auto simp: step_defs None open_log_def receipted_def receipts_hold_def verify_witness_receipts_def bind_eq_Some_conv okR_def
            split: sum.split)
    next
      case False
      then have "open_log pr m = None" using open_log_fields(3) [of pr m] acc(3) by (cases "open_log pr m") auto
      with False show ?thesis by (auto simp: step_defs None split: sum.split)
    qed
    then show ?thesis by (simp add: st_eq None)
  next
    case (Some kv)
    have "snd (node_step pr st state m) p = Some (case extend_log pr kv m of None \<Rightarrow> kv | Some kv' \<Rightarrow> kv')"
    proof (cases "ilk = ''rot'' \<or> ilk = ''ixn'' \<or> ilk = ''drt''")
      case True
      then show ?thesis
        by (auto simp: step_defs Some extend_log_def receipted_def receipts_hold_def apply_verified_update_def bind_eq_Some_conv okR_def
            split: sum.split)
    next
      case False
      then have "extend_log pr kv m = None" using extend_log_fields(3) [of pr kv m] acc(3) by (cases "extend_log pr kv m") auto
      with False show ?thesis by (auto simp: step_defs Some split: sum.split)
    qed
    then show ?thesis by (simp add: st_eq Some)
  qed
qed


text \<open>The log that a list of messages amounts to: each message of the prefix that continues what was accepted before it.\<close>

definition accept :: "prims \<Rightarrow> string \<Rightarrow> parsed_message list \<Rightarrow> parsed_message \<Rightarrow> parsed_message list" where
  "accept pr p evs m = (if about p m \<and> replay pr (evs @ [m]) \<noteq> None then evs @ [m] else evs)"

definition accepted :: "prims \<Rightarrow> string \<Rightarrow> parsed_message list \<Rightarrow> parsed_message list" where
  "accepted pr p ms = foldl (accept pr p) [] ms"

lemma accepted_snoc: "accepted pr p [] = []" "accepted pr p (ms @ [m]) = accept pr p (accepted pr p ms) m"
  by (simp_all add: accepted_def)

lemma accepted_filter: "accepted pr p (filter (about p) ms) = accepted pr p ms"
  by (induction ms rule: rev_induct) (auto simp: accepted_snoc accept_def)

lemma node_step_accepts:
  assumes "never_full st" "about p m" "replay pr evs = snd state p" "snd state p = None \<Longrightarrow> evs = []"
  shows "snd (node_step pr st state m) p = replay pr (accept pr p evs m)"
proof (cases "snd state p")
  case None
  with assms show ?thesis by (simp add: node_step_verifier accept_def split: option.split bind_splits)
next
  case (Some kv)
  then have "replay pr (evs @ [m]) = extend_log pr kv m" using assms(3) by (simp add: replay_snoc)
  with Some assms show ?thesis by (simp add: node_step_verifier accept_def split: option.split)
qed


subsection \<open>What the store has of a log\<close>

text \<open>
  A message stands in the log of a prefix: its digest under the sequence number, its bytes
  under the digest, and the text of its signatures.
\<close>

definition logged_at :: "prims \<Rightarrow> store_view \<Rightarrow> string \<Rightarrow> u64 \<Rightarrow> parsed_message \<Rightarrow> bool" where
  "logged_at pr v p n m \<longleftrightarrow>
     serder_prefix (pm_serder m) = Inr p \<and> serder_sn (pm_serder m) = Inr n \<and>
     (\<exists>said couples sig_text. serder_said (pm_serder m) = Inr said \<and>
        separate pr (pm_attachments m) = Inr (couples, sig_text) \<and>
        sv_kels v (p, n) = Some said \<and> sv_fels v (p, n) = Some said \<and>
        sv_evts v said = Some (serder_raw (pm_serder m)) \<and> (sig_text = [] \<or> sv_sigs v said = Some sig_text))"

definition holds_log :: "prims \<Rightarrow> store_view \<Rightarrow> kevers \<Rightarrow> string \<Rightarrow> parsed_message list \<Rightarrow> bool" where
  "holds_log pr v kevers p evs \<longleftrightarrow>
     replay pr evs = kevers p \<and> (kevers p = None \<longrightarrow> evs = []) \<and>
     (\<forall>n. if unat n < length evs then logged_at pr v p n (evs ! unat n) else sv_kels v (p, n) = None)"

text \<open>No two of the messages claim the same digest and differ.\<close>

definition one_body :: "parsed_message set \<Rightarrow> bool" where
  "one_body M \<longleftrightarrow>
     (\<forall>m \<in> M. \<forall>m' \<in> M. serder_said (pm_serder m) = serder_said (pm_serder m') \<longrightarrow> pm_serder m = pm_serder m')"


lemma logged_at_frame:
  assumes "logged_at pr v p n m" "sv_kels v' (p, n) = sv_kels v (p, n)" "sv_fels v' (p, n) = sv_fels v (p, n)"
    and "\<And>said. serder_said (pm_serder m) = Inr said \<Longrightarrow>
      (sv_evts v' said = sv_evts v said \<or> sv_evts v' said = Some (serder_raw (pm_serder m))) \<and>
      sv_sigs v' said = sv_sigs v said"
  shows "logged_at pr v' p n m"
  using assms by (fastforce simp: logged_at_def)

lemma holds_log_frame:
  assumes "holds_log pr v kevers p evs" "kevers' p = kevers p"
    "\<And>n. sv_kels v' (p, n) = sv_kels v (p, n)" "\<And>n. sv_fels v' (p, n) = sv_fels v (p, n)"
    and "\<And>(n :: u64) said. unat n < length evs \<Longrightarrow> serder_said (pm_serder (evs ! unat n)) = Inr said \<Longrightarrow>
      (sv_evts v' said = sv_evts v said \<or> sv_evts v' said = Some (serder_raw (pm_serder (evs ! unat n)))) \<and>
      sv_sigs v' said = sv_sigs v said"
  shows "holds_log pr v' kevers' p evs"
  unfolding holds_log_def
proof (intro conjI allI)
  fix n
  show "if unat n < length evs then logged_at pr v' p n (evs ! unat n) else sv_kels v' (p, n) = None"
    using assms(1,3,4) assms(5) [of n] logged_at_frame [of pr v p n "evs ! unat n" v'] by (simp add: holds_log_def)
qed (use assms(1,2) in \<open>simp_all add: holds_log_def\<close>)

text \<open>The two ways a log grows are the two steps of the replay.\<close>

lemma accepted_replays:
  assumes "incepts pr m kevers kv' \<or> continues pr m kevers kv'" and rc: "receipted pr m kv'" and l: "holds_log pr v kevers (ks_prefix (kv_state kv')) evs"
  shows "replay pr (evs @ [m]) = Some kv'" "ks_sn (kv_state kv') = of_nat (length evs)"
proof -
  show r: "replay pr (evs @ [m]) = Some kv'"
    using assms(1)
  proof
    assume "incepts pr m kevers kv'"
    then show ?thesis using l rc by (auto simp: incepts_def holds_log_def open_log_def)
  next
    assume "continues pr m kevers kv'"
    then obtain kv ks' where "kevers (ks_prefix ks') = Some kv" "kv' = apply_verified_update kv ks'"
      "verify_update_owned pr kv (serder_raw (pm_serder m)) (serder_sad (pm_serder m))
         (extract_controller_sigs (pm_attachments m)) = Inr ks'" by (auto simp: continues_def)
    then show ?thesis using l rc by (simp add: holds_log_def replay_snoc extend_log_def apply_verified_update_def)
  qed
  from replay_sn [OF r] show "ks_sn (kv_state kv') = of_nat (length evs)" by simp
qed

lemma one_bodyD:
  "one_body M \<Longrightarrow> m \<in> M \<Longrightarrow> m' \<in> M \<Longrightarrow> serder_said (pm_serder m) = serder_said (pm_serder m') \<Longrightarrow>
     pm_serder m = pm_serder m'"
  unfolding one_body_def by blast


subsection \<open>A run keeps the logs\<close>

definition logs_of :: "prims \<Rightarrow> store_view \<Rightarrow> kevers \<Rightarrow> parsed_message list \<Rightarrow> (string \<Rightarrow> parsed_message list) \<Rightarrow> bool" where
  "logs_of pr v kevers ms L \<longleftrightarrow> verified pr kevers \<and> (\<forall>p. holds_log pr v kevers p (L p) \<and> subseq (L p) ms)"

lemma logs_of_skip: "logs_of pr v kevers ms L \<Longrightarrow> logs_of pr v kevers (ms @ [m]) L"
  by (auto simp: logs_of_def intro: subseq_rev_drop_many)

lemma logged_before:
  assumes "logs_of pr v kevers ms L" "unat (n :: u64) < length (L p)"
  shows "logged_at pr v p n (L p ! unat n)" "L p ! unat n \<in> set ms"
  using assms list_emb_set [of "(=)" "L p" ms "L p ! unat n"] by (auto simp: logs_of_def holds_log_def)

context store_laws
begin

text \<open>A message that changes no log: a receipt, or one of another type.\<close>

lemma other_keeps_logs:
  assumes L: "logs_of pr (view s) kevers ms L" and said: "serder_said (pm_serder m) = Inr said"
    and one: "one_body (set (ms @ [m]))"
    and w: "st_put_receipts st s k bs = Inr s' \<or> st_put_event st s said (serder_raw (pm_serder m)) = Inr s'"
  shows "logs_of pr (view s') kevers (ms @ [m]) L"
proof -
  have "holds_log pr (view s') kevers p (L p)" for p
  proof (rule holds_log_frame)
    show "holds_log pr (view s) kevers p (L p)" using L by (simp add: logs_of_def)
  next
    fix n :: u64 and d
    assume n: "unat n < length (L p)" "serder_said (pm_serder (L p ! unat n)) = Inr d"
    have "d = said \<Longrightarrow> pm_serder (L p ! unat n) = pm_serder m"
      using one_bodyD [OF one, of "L p ! unat n" m] logged_before(2) [OF L n(1)] n(2) said by simp
    then show "(sv_evts (view s') d = sv_evts (view s) d \<or> sv_evts (view s') d = Some (serder_raw (pm_serder (L p ! unat n)))) \<and>
        sv_sigs (view s') d = sv_sigs (view s) d"
      using w by (auto dest!: put_receipts put_event)
  qed (use w in \<open>auto dest!: put_receipts put_event\<close>)
  with logs_of_skip [OF L] show ?thesis by (simp add: logs_of_def)
qed

lemma event_extends_log:
  assumes L: "logs_of pr (view s) kevers ms L" and one: "one_body (set (ms @ [m]))" and len: "length ms < 2 ^ 64"
    and acc: "incepts pr m kevers kv' \<or> continues pr m kevers kv'" and w: "logs pr st m couples sig_text kv' s s'"
    and sep: "separate pr (pm_attachments m) = Inr (couples, sig_text)"
    and p: "p = ks_prefix (kv_state kv')"
    and m: "serder_prefix (pm_serder m) = Inr p" "serder_sn (pm_serder m) = Inr (ks_sn (kv_state kv'))"
      "serder_said (pm_serder m) = Inr (ks_last_event_digest (kv_state kv'))"
    and v': "verified pr (kevers(p \<mapsto> kv'))"
  shows "logs_of pr (view s') (kevers(p \<mapsto> kv')) (ms @ [m]) (L(p := L p @ [m]))"
proof -
  let ?said = "ks_last_event_digest (kv_state kv')" and ?sn = "ks_sn (kv_state kv')"
  note view' = logs_view [OF w, folded p, unfolded with_event_def]
  have held: "holds_log pr (view s) kevers q (L q)" "subseq (L q) ms" for q using L by (simp_all add: logs_of_def)
  have "receipted pr m kv'" using w sep by (simp add: receipted_def logs_def)
  note rep = accepted_replays(1) [OF acc this, folded p, OF held(1)] and sn = accepted_replays(2) [OF acc this, folded p, OF held(1)]
  have "length (L p) < 2 ^ 64" using list_emb_length [OF held(2) [of p]] len by simp
  then have un: "unat ?sn = length (L p)" by (simp add: sn unsigned_of_nat take_bit_nat_eq_self)
  have new: "d \<noteq> ?said" if "unat (n :: u64) < length (L q)" "serder_said (pm_serder (L q ! unat n)) = Inr d" for q n d
  proof
    assume "d = ?said"
    with that m(3) one_bodyD [OF one, of "L q ! unat n" m] logged_before(2) [OF L that(1)]
    have "pm_serder (L q ! unat n) = pm_serder m" by simp
    with logged_before(1) [OF L that(1)] m have "q = p" "n = ?sn" by (auto simp: logged_at_def)
    with that(1) un show False by simp
  qed
  have same: "logged_at pr (view s') q n (L q ! unat n)" if "unat n < length (L q)" for q n
  proof (rule logged_at_frame [OF logged_before(1) [OF L that]])
    have ne: "(q, n) \<noteq> (p, ?sn)" using that un by auto
    then show "sv_kels (view s') (q, n) = sv_kels (view s) (q, n)" "sv_fels (view s') (q, n) = sv_fels (view s) (q, n)"
      by (auto simp: view')
  qed (use new [OF that] in \<open>simp add: view' split: option.split\<close>)
  have "holds_log pr (view s') (kevers(p \<mapsto> kv')) q ((L(p := L p @ [m])) q)" for q
  proof (cases "q = p")
    case True
    have last: "logged_at pr (view s') p ?sn m" using m sep by (simp add: logged_at_def view' opt_bytes_def)
    have "if unat n < length (L p @ [m]) then logged_at pr (view s') p n ((L p @ [m]) ! unat n)
        else sv_kels (view s') (p, n) = None" for n
    proof (cases "unat n" "length (L p)" rule: linorder_cases)
      case less
      with same [OF less] show ?thesis by (simp add: nth_append)
    next
      case equal
      with un have "n = ?sn" by (metis unsigned_word_eqI)
      with last un show ?thesis by (simp add: nth_append)
    next
      case greater
      then have "n \<noteq> ?sn" "sv_kels (view s) (p, n) = None" using un held(1) [of p] unfolding holds_log_def by auto
      with greater show ?thesis by (simp add: view')
    qed
    with True rep show ?thesis by (simp add: holds_log_def)
  next
    case False
    then show ?thesis using same [of _ q] held(1) [of q] by (auto simp: holds_log_def view')
  qed
  moreover have "subseq ((L(p := L p @ [m])) q) (ms @ [m])" for q
    using subseq_rev_drop_many [OF held(2) [of q], of "[m]"] list_emb_append_mono [OF held(2) [of p], of "[m]" "[m]"]
    by simp
  ultimately show ?thesis using v' by (simp add: logs_of_def)
qed

lemma process_parsed_logs:
  assumes r: "process_parsed pr st m s kevers = Inr (res, s', kevers')" and L: "logs_of pr (view s) kevers ms L"
    and one: "one_body (set (ms @ [m]))" and len: "length ms < 2 ^ 64"
  shows "\<exists>L'. logs_of pr (view s') kevers' (ms @ [m]) L' \<and> (\<forall>p. L' p = L p \<or> L' p = L p @ [m])"
proof -
  have v: "verified pr kevers" "keyed kevers" using L by (simp_all add: logs_of_def verified_def)
  note res = process_parsed_result [OF r]
  from process_parsed_cases [OF r v(2)] obtain couples sig_text where sep: "separate pr (pm_attachments m) = Inr (couples, sig_text)"
    and "(\<exists>kv'. (incepts pr m kevers kv' \<or> continues pr m kevers kv') \<and> logs pr st m couples sig_text kv' s s' \<and>
        kevers' = kevers(ks_prefix (kv_state kv') \<mapsto> kv') \<and> pr_prefix res = ks_prefix (kv_state kv') \<and>
        pr_sn res = ks_sn (kv_state kv') \<and> pr_said res = ks_last_event_digest (kv_state kv')) \<or>
      kevers' = kevers \<and> (s' = s \<or> (\<exists>k bs. st_put_receipts st s k bs = Inr s' \<or>
        st_put_event st s (pr_said res) (serder_raw (pm_serder m)) = Inr s'))" by blast
  then consider (logged) kv' where "incepts pr m kevers kv' \<or> continues pr m kevers kv'"
        "logs pr st m couples sig_text kv' s s'" "kevers' = kevers(ks_prefix (kv_state kv') \<mapsto> kv')"
        "pr_prefix res = ks_prefix (kv_state kv')" "pr_sn res = ks_sn (kv_state kv')"
        "pr_said res = ks_last_event_digest (kv_state kv')"
    | (same) "kevers' = kevers" "s' = s"
    | (other) k bs where "kevers' = kevers"
        "st_put_receipts st s k bs = Inr s' \<or> st_put_event st s (pr_said res) (serder_raw (pm_serder m)) = Inr s'"
    by blast
  then show ?thesis
  proof cases
    case logged
    from event_extends_log [OF L one len logged(1,2) sep refl] res logged(4-6) process_parsed_verified [OF r v(1)] logged(3)
    show ?thesis by (intro exI [of _ "L(ks_prefix (kv_state kv') := L (ks_prefix (kv_state kv')) @ [m])"]) simp
  next
    case same
    with logs_of_skip [OF L] show ?thesis by blast
  next
    case other
    with other_keeps_logs [OF L res(3) one other(2)] show ?thesis by blast
  qed
qed

lemma node_step_logs:
  assumes L: "logs_of pr (view (fst state)) (snd state) ms L" and one: "one_body (set (ms @ [m]))" and len: "length ms < 2 ^ 64"
  shows "\<exists>L'. logs_of pr (view (fst (node_step pr st state m))) (snd (node_step pr st state m)) (ms @ [m]) L' \<and>
    (\<forall>p. L' p = L p \<or> L' p = L p @ [m])"
proof (cases "process_parsed pr st m (fst state) (snd state)")
  case (Inl e)
  with logs_of_skip [OF L] show ?thesis by (auto simp: node_step_def)
next
  case (Inr r)
  obtain res s' kevers' where r: "r = (res, s', kevers')" by (cases r)
  from process_parsed_logs [OF Inr [unfolded r] L one len] show ?thesis by (simp add: node_step_def Inr r)
qed

text \<open>With a store that does not fail, the log is the one the messages amount to.\<close>

lemma node_step_exact:
  assumes st: "never_full st" and L: "logs_of pr (view (fst state)) (snd state) ms L" and len: "length ms < 2 ^ 64"
    and L': "logs_of pr (view (fst (node_step pr st state m))) (snd (node_step pr st state m)) ms' L'"
      "L' p = L p \<or> L' p = L p @ [m]"
  shows "L' p = accept pr p (L p) m"
proof (cases "about p m")
  case False
  have "L' p \<noteq> L p @ [m]"
  proof
    assume eq: "L' p = L p @ [m]"
    let ?n = "of_nat (length (L p)) :: u64"
    have "length (L p) < 2 ^ 64" using L len list_emb_length [of "(=)" "L p" ms] by (simp add: logs_of_def)
    then have "unat ?n = length (L p)" by (simp add: unsigned_of_nat take_bit_nat_eq_self)
    then have "logged_at pr (view (fst (node_step pr st state m))) p ?n m"
      using logged_before(1) [OF L'(1), of ?n p] by (simp add: eq)
    with False show False by (simp add: logged_at_def about_def)
  qed
  with L'(2) False show ?thesis by (simp add: accept_def)
next
  case True
  have after: "snd (node_step pr st state m) p = replay pr (accept pr p (L p) m)"
    using L by (intro node_step_accepts [OF st True]) (auto simp: logs_of_def holds_log_def)
  have before: "replay pr (L' p) = snd (node_step pr st state m) p" "snd (node_step pr st state m) p = None \<longrightarrow> L' p = []"
    using L'(1) by (auto simp: logs_of_def holds_log_def)
  show ?thesis
  proof (cases "L' p = L p @ [m]")
    case eq: True
    with before have "replay pr (L p @ [m]) \<noteq> None" by auto
    with eq True show ?thesis by (simp add: accept_def)
  next
    case False
    with L'(2) have eq: "L' p = L p" by simp
    have "replay pr (L p @ [m]) = None"
    proof (rule ccontr)
      assume "replay pr (L p @ [m]) \<noteq> None"
      then obtain kv where kv: "replay pr (L p @ [m]) = Some kv" by blast
      with after before(1) eq True have "replay pr (L p) = Some kv" by (simp add: accept_def)
      from replay_sn [OF this] replay_sn [OF kv] show False by simp
    qed
    with eq show ?thesis by (simp add: accept_def)
  qed
qed

lemma run_logs:
  assumes "logs_of pr (view (fst state)) (snd state) done' L" "never_full st \<longrightarrow> L = (\<lambda>p. accepted pr p done')"
    and "one_body (set (done' @ ms))" "length (done' @ ms) \<le> 2 ^ 64"
  shows "\<exists>L'. logs_of pr (view (fst (foldl (node_step pr st) state ms))) (snd (foldl (node_step pr st) state ms)) (done' @ ms) L' \<and>
    (never_full st \<longrightarrow> L' = (\<lambda>p. accepted pr p (done' @ ms)))"
  using assms
proof (induction ms arbitrary: state done' L)
  case (Cons m ms)
  have sub: "one_body (set (done' @ [m]))" using Cons.prems(3) by (auto simp: one_body_def)
  have len: "length done' < 2 ^ 64" using Cons.prems(4) by simp
  from node_step_logs [OF Cons.prems(1) sub len] obtain L1 where
    L1: "logs_of pr (view (fst (node_step pr st state m))) (snd (node_step pr st state m)) (done' @ [m]) L1"
      "\<And>p. L1 p = L p \<or> L1 p = L p @ [m]" by blast
  have "never_full st \<longrightarrow> L1 = (\<lambda>p. accepted pr p (done' @ [m]))"
    using node_step_exact [OF _ Cons.prems(1) len L1] Cons.prems(2) by (auto simp: fun_eq_iff accepted_snoc)
  from Cons.IH [OF L1(1) this] Cons.prems(3,4) show ?case by simp
qed auto

text \<open>A node that starts with no verifier, on a store without logs.\<close>

lemma fresh_node_logs:
  assumes "direct_run pr st (s, Map.empty) ms = Some (s', kevers)" "sv_kels (view s) = (\<lambda>_. None)"
    and "one_body (set ms)" "length ms \<le> 2 ^ 64"
  shows "\<exists>L. (\<forall>p. holds_log pr (view s') kevers p (L p) \<and> subseq (L p) ms) \<and>
    (never_full st \<longrightarrow> (\<forall>p. L p = accepted pr p ms))"
proof -
  have "logs_of pr (view s) Map.empty [] (\<lambda>_. [])"
    using assms(2) by (simp add: logs_of_def holds_log_def verified_def keyed_def)
  moreover have "never_full st \<longrightarrow> (\<lambda>_. []) = (\<lambda>p. accepted pr p [])" by (simp add: accepted_snoc)
  ultimately obtain L where "logs_of pr (view (fst (foldl (node_step pr st) (s, Map.empty) ms)))
      (snd (foldl (node_step pr st) (s, Map.empty) ms)) ms L" "never_full st \<longrightarrow> L = (\<lambda>p. accepted pr p ms)"
    using run_logs [of pr "(s, Map.empty)" "[]" "\<lambda>_. []" ms] assms(3,4) by auto
  with assms(1) show ?thesis by (auto simp: direct_run_steps logs_of_def)
qed

end

end
