(* ===== verification/Keri_Interleave.thy ===== *)
theory Keri_Interleave
  imports Keri_Replay
begin

section \<open>Identifiers do not interfere\<close>

text \<open>
  What a node makes of a message depends on nothing but the verifier of the prefix it names;
  \<open>agree_on\<close> says that two nodes have the same
  verifier and the same log of a prefix. Messages of the prefix keep that, and the messages
  of the others do not touch it, so the order in which the identifiers are heard does not matter.
\<close>

text \<open>The verifier after a message is a function of the verifier before it.\<close>

lemma verifier_after:
  assumes "never_full st" "about p m" "snd state p = snd state' p"
  shows "snd (node_step pr st state m) p = snd (node_step pr st state' m) p"
  by (simp add: node_step_verifier [OF assms(1,2)] assms(3))

context store_laws
begin

text \<open>The log of a prefix follows its verifier, and both change with the messages of the prefix only.\<close>

lemma log_follows_verifier:
  assumes k: "keyed (snd state)"
  shows "sv_kels (view (fst (node_step pr st state m))) (p, n) =
    (case snd (node_step pr st state m) p of
       Some kv' \<Rightarrow> if snd (node_step pr st state m) p \<noteq> snd state p \<and> n = ks_sn (kv_state kv')
         then Some (ks_last_event_digest (kv_state kv')) else sv_kels (view (fst state)) (p, n)
     | None \<Rightarrow> sv_kels (view (fst state)) (p, n))"
proof (cases "process_parsed pr st m (fst state) (snd state)")
  case (Inr r)
  obtain res s' kevers' where r: "r = (res, s', kevers')" by (cases r)
  from process_parsed_log [OF Inr [unfolded r] k] consider
      (same) "kevers' = snd state" "sv_kels (view s') = sv_kels (view (fst state))"
    | (logged) kv' where "incepts pr m (snd state) kv' \<or> continues pr m (snd state) kv'"
        "kevers' = (snd state)(ks_prefix (kv_state kv') \<mapsto> kv')"
        "sv_kels (view s') = (sv_kels (view (fst state)))((ks_prefix (kv_state kv'), ks_sn (kv_state kv')) \<mapsto>
         ks_last_event_digest (kv_state kv'))" by blast
  then show ?thesis
  proof cases
    case same
    then show ?thesis by (simp add: node_step_def Inr r split: option.split)
  next
    case logged
    have "snd state (ks_prefix (kv_state kv')) \<noteq> Some kv'"
    proof
      assume same: "snd state (ks_prefix (kv_state kv')) = Some kv'"
      with logged(1) obtain ks' where "kv' = apply_verified_update kv' ks'" "verify_update_owned pr kv' (serder_raw (pm_serder m))
          (serder_sad (pm_serder m)) (extract_controller_sigs (pm_attachments m)) = Inr ks'"
        by (auto simp: incepts_def continues_def apply_verified_update_def)
      with verify_update_owned_facts(1) [OF this(2)] show False
        by (metis add_cancel_right_right apply_verified_update_def extends_def kever.select_convs(1)
            kever.surjective kever.update_convs(1) zero_neq_one)
    qed
    then show ?thesis by (auto simp: node_step_def Inr r logged(2,3) split: option.split)
  qed
qed (simp add: node_step_def split: option.split)

lemma others_untouched:
  assumes k: "keyed (snd state)" and "\<not> about p m"
  shows "snd (node_step pr st state m) p = snd state p"
proof (cases "process_parsed pr st m (fst state) (snd state)")
  case (Inr r)
  obtain res s' kevers' where r: "r = (res, s', kevers')" by (cases r)
  have "serder_prefix (pm_serder m) = Inr (pr_prefix res)"
    using process_parsed_result(1) [OF Inr [unfolded r]] .
  with assms(2) have "pr_prefix res \<noteq> p" by (simp add: about_def)
  with process_parsed_cases [OF Inr [unfolded r] k] show ?thesis by (auto simp: node_step_def Inr r)
qed (simp add: node_step_def)

definition agree_on :: "string \<Rightarrow> 's \<times> kevers \<Rightarrow> 's \<times> kevers \<Rightarrow> bool" where
  "agree_on p state state' \<longleftrightarrow> keyed (snd state) \<and> keyed (snd state') \<and> snd state p = snd state' p \<and>
     (\<forall>n. sv_kels (view (fst state)) (p, n) = sv_kels (view (fst state')) (p, n))"

lemma agree_own:
  assumes "never_full st" "about p m" "agree_on p state state'"
  shows "agree_on p (node_step pr st state m) (node_step pr st state' m)"
proof -
  have k: "keyed (snd state)" "keyed (snd state')" and e: "snd state p = snd state' p"
    "\<And>n. sv_kels (view (fst state)) (p, n) = sv_kels (view (fst state')) (p, n)"
    using assms(3) by (simp_all add: agree_on_def)
  note v = verifier_after [OF assms(1,2) e(1), of pr]
  have "sv_kels (view (fst (node_step pr st state m))) (p, n) = sv_kels (view (fst (node_step pr st state' m))) (p, n)" for n
    unfolding log_follows_verifier [OF k(1)] log_follows_verifier [OF k(2)] v e ..
  with v k show ?thesis by (simp add: agree_on_def node_step_keyed)
qed

lemma agree_other:
  assumes "\<not> about p m" "agree_on p state state'"
  shows "agree_on p (node_step pr st state m) state'"
  using assms others_untouched [of state p m] log_follows_verifier [of state]
  by (simp add: agree_on_def node_step_keyed split: option.split)

lemma agree_run:
  assumes "never_full st" "agree_on p state state'"
  shows "agree_on p (foldl (node_step pr st) state ms) (foldl (node_step pr st) state' (filter (about p) ms))"
  using assms(2) by (induction ms arbitrary: state state') (simp_all add: agree_own [OF assms(1)] agree_other)

text \<open>Two fresh nodes on one store, sent the same messages of a prefix in the same order.\<close>

lemma interleaved_runs:
  assumes "never_full st" "filter (about p) ms = filter (about p) ms'"
    and r: "direct_run pr st (s, Map.empty) ms = Some (s1, kevers1)" "direct_run pr st (s, Map.empty) ms' = Some (s2, kevers2)"
  shows "kevers1 p = kevers2 p" "sv_kels (view s1) (p, n) = sv_kels (view s2) (p, n)"
proof -
  have "agree_on p (s, Map.empty) (s, Map.empty)" by (simp add: agree_on_def keyed_def)
  from agree_run [OF assms(1) this, of pr ms] agree_run [OF assms(1) this, of pr ms'] r assms(2)
  show "kevers1 p = kevers2 p" "sv_kels (view s1) (p, n) = sv_kels (view s2) (p, n)"
    by (simp_all add: direct_run_steps agree_on_def)
qed

end

end
