(* ===== verification/Keri_Habery.thy ===== *)
theory Keri_Habery
  imports Keri_Hab
begin

section \<open>Habery: the identifiers of one process\<close>

text \<open>
  \<open>affinidi-keri/src/habery.rs\<close>. The record holds the store (its operations and its state)
  and the registry of habs by name. The methods that take \<open>&mut self\<close> return the habery
  they leave next to their result: a failed rotation still changes the registered hab. The
  order in which \<open>list\<close> returns the names of a hash map is unspecified, so it is the set.
\<close>

record 's habery =
  hy_store :: "'s keri_store"
  hy_state :: 's
  hy_habs :: "string \<rightharpoonup> hab"

definition habery_new :: "'s keri_store \<Rightarrow> 's \<Rightarrow> 's habery" where
  "habery_new st s = \<lparr>hy_store = st, hy_state = s, hy_habs = Map.empty\<rparr>"

definition habery_incept ::
    "prims \<Rightarrow> bytes \<Rightarrow> string \<Rightarrow> inception_config \<Rightarrow> 's habery \<Rightarrow> bytes keri_result \<times> 's habery" where
  "habery_incept pr rand16 name' config hy =
     (if hy_habs hy name' \<noteq> None then (Inl (AlreadyExists name'), hy)
      else
        (case hab_incept pr rand16 name' config (hy_store hy) (hy_state hy) of
           Inl e \<Rightarrow> (Inl e, hy)
         | Inr (h, msg, s') \<Rightarrow> (Inr msg, hy\<lparr>hy_state := s', hy_habs := (hy_habs hy)(name' \<mapsto> h)\<rparr>)))"

text \<open>
  \<open>resume\<close>: the stored record is parsed, the hab rebuilt, and a hab that is registered
  under the name already is kept and returned instead.
\<close>

definition stored_hab :: "prims \<Rightarrow> string \<Rightarrow> bytes \<Rightarrow> 's habery \<Rightarrow> hab keri_result" where
  "stored_hab pr name' salt hy =
     bindR (db (st_get_hab (hy_store hy) (hy_state hy) name')) (\<lambda>found.
     bindR (ok_or (NotFound name') found) (\<lambda>raw.
     bindR (map_err KeriConfig (json_from_slice pr raw)) (\<lambda>v.
     bindR (ok_or (KeriConfig ''stored record is not resumable state'') (hab_state_from_value v)) (\<lambda>state.
     hab_resume pr state salt))))"

definition habery_resume :: "prims \<Rightarrow> string \<Rightarrow> bytes \<Rightarrow> 's habery \<Rightarrow> hab keri_result \<times> 's habery" where
  "habery_resume pr name' salt hy =
     (case stored_hab pr name' salt hy of
        Inl e \<Rightarrow> (Inl e, hy)
      | Inr h \<Rightarrow>
          (case hy_habs hy name' of
             Some registered \<Rightarrow> (Inr registered, hy)
           | None \<Rightarrow> (Inr h, hy\<lparr>hy_habs := (hy_habs hy)(name' \<mapsto> h)\<rparr>)))"

definition habery_get :: "string \<Rightarrow> 's habery \<Rightarrow> hab option" where
  "habery_get name' hy = hy_habs hy name'"

text \<open>\<open>get_mut\<close>: the hab, and the habery after it was replaced through the reference.\<close>

definition habery_get_mut :: "string \<Rightarrow> 's habery \<Rightarrow> (hab \<times> (hab \<Rightarrow> 's habery)) option" where
  "habery_get_mut name' hy =
     map_option (\<lambda>h. (h, \<lambda>h'. hy\<lparr>hy_habs := (hy_habs hy)(name' \<mapsto> h')\<rparr>)) (hy_habs hy name')"

definition habery_rotate :: "prims \<Rightarrow> string \<Rightarrow> rotation_config \<Rightarrow> 's habery \<Rightarrow> bytes keri_result \<times> 's habery" where
  "habery_rotate pr name' config hy =
     (case habery_get_mut name' hy of
        None \<Rightarrow> (Inl (NotFound name'), hy)
      | Some (h, put) \<Rightarrow>
          (case hab_rotate pr config (hy_store hy) (hy_state hy) h of
             (Inl e, h') \<Rightarrow> (Inl e, put h')
           | (Inr (msg, s'), h') \<Rightarrow> (Inr msg, (put h')\<lparr>hy_state := s'\<rparr>)))"

definition habery_interact :: "prims \<Rightarrow> string \<Rightarrow> json list \<Rightarrow> 's habery \<Rightarrow> bytes keri_result \<times> 's habery" where
  "habery_interact pr name' anchors hy =
     (case habery_get_mut name' hy of
        None \<Rightarrow> (Inl (NotFound name'), hy)
      | Some (h, put) \<Rightarrow>
          (case hab_interact pr anchors (hy_store hy) (hy_state hy) h of
             Inl e \<Rightarrow> (Inl e, hy)
           | Inr (msg, s', h') \<Rightarrow> (Inr msg, (put h')\<lparr>hy_state := s'\<rparr>)))"

definition habery_list :: "'s habery \<Rightarrow> string set" where
  "habery_list hy = dom (hy_habs hy)"


subsection \<open>What the store holds of a hab\<close>

text \<open>
  \<open>habery_step\<close> is one successful event of the identifier \<open>name'\<close> in a habery. The store
  record of the identifier is written at inception; later events do not touch it.
\<close>

inductive habery_step :: "prims \<Rightarrow> string \<Rightarrow> 's habery \<Rightarrow> 's habery \<Rightarrow> bool" for pr name' where
  rotate: "habery_rotate pr name' c hy = (Inr msg, hy') \<Longrightarrow> habery_step pr name' hy hy'"
| interact: "habery_interact pr name' anchors hy = (Inr msg, hy') \<Longrightarrow> habery_step pr name' hy hy'"

lemma habery_incept_Inr:
  assumes "habery_incept pr rand16 name' c hy = (Inr msg, hy')"
  obtains h ev where "incept_inner pr rand16 name' c (Some (hy_store hy)) (hy_state hy) = Inr (h, ev, hy_state hy')"
    "msg = sd_composed ev" "hy_habs hy name' = None" "hy' = hy\<lparr>hy_state := hy_state hy', hy_habs := (hy_habs hy)(name' \<mapsto> h)\<rparr>"
  using assms by (auto simp: habery_incept_def hab_incept_def res_simps split: if_splits sum.splits)

lemma habery_step_cases:
  assumes "habery_step pr name' hy hy'"
  obtains h ev h' where "hy_habs hy name' = Some h" "hy_store hy' = hy_store hy" "hy_habs hy' = (hy_habs hy)(name' \<mapsto> h')"
    "persist (Some (hy_store hy)) (hy_state hy) ev (hb_prefix h) (hb_sn h + 1) = Inr (hy_state hy')"
    "hb_name h' = hb_name h" "hb_prefix h' = hb_prefix h" "hb_sn h' = hb_sn h + 1" "hb_last_said h' = sd_said ev"
  using assms
proof cases
  case (rotate c msg)
  then obtain h h' ev s' where "hy_habs hy name' = Some h" "rotate_inner pr c (Some (hy_store hy)) (hy_state hy) h = (Inr (ev, s'), h')"
    "hy' = hy\<lparr>hy_habs := (hy_habs hy)(name' \<mapsto> h'), hy_state := s'\<rparr>"
    by (auto simp: habery_rotate_def habery_get_mut_def hab_rotate_def res_simps split: option.splits prod.splits sum.splits)
  then show thesis
    by (intro that [of h h' ev])
      (auto simp: rotate_inner_def rotation_steps_def res_simps split: if_splits sum.splits)
next
  case (interact anchors msg)
  then obtain h h' ev s' where "hy_habs hy name' = Some h" "interact_inner pr anchors (Some (hy_store hy)) (hy_state hy) h = Inr (ev, s', h')"
    "hy' = hy\<lparr>hy_habs := (hy_habs hy)(name' \<mapsto> h'), hy_state := s'\<rparr>"
    by (auto simp: habery_interact_def habery_get_mut_def hab_interact_def res_simps split: option.splits prod.splits sum.splits)
  then show thesis
    by (intro that [of h h' ev]) (auto simp: interact_inner_def res_simps)
qed

text \<open>The record that inception writes is the state of the hab it returns.\<close>

lemma icp_hab_data_state:
  assumes "incept_inner pr rand16 name' c store s = Inr (h, ev, s')"
  shows "icp_hab_data name' c (sd_said ev) = hab_state_to_value (hab_to_state h)"
proof -
  have len: "derive_signers pr st code tr g n = Inr ss \<Longrightarrow> length ss = n" for st code tr g n ss
    by (auto simp: derive_signers_def dest: mapR_length)
  from assms show ?thesis
    by (auto simp: incept_inner_def res_simps icp_hab_data_def hab_state_to_value_def hab_to_state_def usize_json_def dest!: len)
qed

context store_laws
begin

lemma incept_stores_state:
  assumes inc: "habery_incept pr rand16 name' c hy = (Inr msg, hy')" and st: "hy_store hy = st"
  shows "\<exists>h bs. hy_habs hy' name' = Some h \<and> hy_store hy' = st \<and>
    json_to_vec pr (hab_state_to_value (hab_to_state h)) = Inr bs \<and> sv_habs (view (hy_state hy')) name' = Some bs"
proof -
  from inc obtain h ev where inner: "incept_inner pr rand16 name' c (Some (hy_store hy)) (hy_state hy) = Inr (h, ev, hy_state hy')"
    and hy': "hy' = hy\<lparr>hy_state := hy_state hy', hy_habs := (hy_habs hy)(name' \<mapsto> h)\<rparr>"
    by (rule habery_incept_Inr)
  from inner obtain bs where bs: "json_to_vec pr (icp_hab_data name' c (sd_said ev)) = Inr bs"
    and store: "st_store_event_with_hab st (hy_state hy) (sd_said ev) (sd_raw ev) (sd_said ev) 0 (Some (sd_signatures ev)) name' bs
      = Inr (hy_state hy')"
    by (auto simp: incept_inner_def res_simps st)
  from store_event_with_hab [OF store] have "sv_habs (view (hy_state hy')) name' = Some bs" by simp
  moreover have "hy_habs hy' name' = Some h" "hy_store hy' = st" by (subst hy', simp add: st)+
  ultimately show ?thesis using bs icp_hab_data_state [OF inner] by auto
qed

lemma step_keeps_record:
  assumes "habery_step pr name' hy hy'" "hy_store hy = st"
  shows "hy_store hy' = st \<and> sv_habs (view (hy_state hy')) = sv_habs (view (hy_state hy))"
proof -
  from assms(1) obtain h :: hab and ev where "hy_store hy' = hy_store hy"
    "persist (Some (hy_store hy)) (hy_state hy) ev (hb_prefix h) (hb_sn h + 1) = Inr (hy_state hy')"
    by (rule habery_step_cases) (erule (1) that)
  then have "st_store_event st (hy_state hy) (sd_said ev) (sd_raw ev) (hb_prefix h) (hb_sn h + 1) (Some (sd_signatures ev)) = Inr (hy_state hy')"
    "hy_store hy' = st" using assms(2) by (auto simp: persist_def res_simps)
  with store_event [OF this(1)] show ?thesis by (simp add: with_event_def)
qed

lemma steps_keep_record:
  assumes "(habery_step pr name')\<^sup>*\<^sup>* hy hy'" "hy_store hy = st"
  shows "hy_store hy' = st \<and> sv_habs (view (hy_state hy')) = sv_habs (view (hy_state hy))"
  using assms by (induction rule: rtranclp_induct) (auto dest: step_keeps_record)

end

end
