(* ===== verification/Keri_Lmdb.thy ===== *)
theory Keri_Lmdb
  imports Keri_Equivocation Keri_Replay Keri_Interleave Keri_Habery "HOL-Library.AList"
begin

section \<open>The LMDB store\<close>

text \<open>
  \<open>affinidi-keri-db/src/lmdb.rs\<close>. The \<open>heed\<close> crate is not part of the repository: the
  record \<open>heed_ops\<close> holds what \<open>LmdbStore\<close> calls of it, over an environment \<open>'e\<close> of named
  databases, and \<open>heed_laws\<close> is its documented behaviour (a write transaction sees its own
  writes, a commit publishes them, a read returns the content). The type \<open>'e heed\<close> is the
  operations that satisfy it. A transaction that is dropped leaves the environment as it
  was: an operation that fails returns no new environment.

  \<open>lmdb_store h\<close> is the implementation of the trait; the interpretation at the end proves
  that it keeps every law of \<open>store_laws\<close>, over the maps that \<open>lmdb_view\<close> reads off the
  databases. How a store is opened is in \<open>Keri_Lmdb_Open\<close>.
\<close>

record 'e heed_ops =
  h_write_txn :: "'e \<Rightarrow> string + 'e"
  h_read_txn :: "'e \<Rightarrow> string + 'e"
  h_put :: "'e \<Rightarrow> string \<Rightarrow> string \<Rightarrow> bytes \<Rightarrow> string + 'e"
  h_delete :: "'e \<Rightarrow> string \<Rightarrow> string \<Rightarrow> string + 'e"
  h_commit :: "'e \<Rightarrow> string + 'e"
  h_get :: "'e \<Rightarrow> string \<Rightarrow> string \<Rightarrow> string + bytes option"
  h_iter :: "'e \<Rightarrow> string \<Rightarrow> string + (string \<times> bytes) list"
  h_content :: "'e \<Rightarrow> string \<Rightarrow> string \<rightharpoonup> bytes" \<comment> \<open>what the databases hold\<close>

definition heed_laws :: "'e heed_ops \<Rightarrow> bool" where
  "heed_laws h \<longleftrightarrow>
     (\<forall>e t. h_write_txn h e = Inr t \<longrightarrow> h_content h t = h_content h e) \<and>
     (\<forall>e t. h_read_txn h e = Inr t \<longrightarrow> h_content h t = h_content h e) \<and>
     (\<forall>t t' d k x. h_put h t d k x = Inr t' \<longrightarrow>
        h_content h t' = (h_content h t)(d := (h_content h t d)(k \<mapsto> x))) \<and>
     (\<forall>t t' d k. h_delete h t d k = Inr t' \<longrightarrow>
        h_content h t' = (h_content h t)(d := (h_content h t d)(k := None))) \<and>
     (\<forall>t e. h_commit h t = Inr e \<longrightarrow> h_content h e = h_content h t) \<and>
     (\<forall>t d k r. h_get h t d k = Inr r \<longrightarrow> r = h_content h t d k) \<and>
     (\<forall>t d kvs. h_iter h t d = Inr kvs \<longrightarrow> distinct (map fst kvs) \<and> map_of kvs = h_content h t d)"

text \<open>An instance: the databases as association lists.\<close>

definition alist_heed :: "(string \<Rightarrow> (string \<times> bytes) list) heed_ops" where
  "alist_heed =
     \<lparr>h_write_txn = Inr, h_read_txn = Inr,
      h_put = (\<lambda>t d k x. Inr (t(d := AList.update k x (t d)))),
      h_delete = (\<lambda>t d k. Inr (t(d := AList.delete k (t d)))),
      h_commit = Inr, h_get = (\<lambda>t d k. Inr (map_of (t d) k)),
      h_iter = (\<lambda>t d. if distinct (map fst (t d)) then Inr (t d) else Inl ''corrupt''),
      h_content = (\<lambda>t d. map_of (t d))\<rparr>"

lemma alist_heed_laws: "heed_laws alist_heed"
proof -
  have "(\<lambda>e. map_of ((t(d := AList.update k x (t d))) e)) = (\<lambda>e. map_of (t e))(d := (map_of (t d))(k \<mapsto> x))"
    and "(\<lambda>e. map_of ((t(d := AList.delete k (t d))) e)) = (\<lambda>e. map_of (t e))(d := (map_of (t d))(k := None))"
    for t :: "string \<Rightarrow> (string \<times> bytes) list" and d k x
    by (auto simp: fun_eq_iff update_conv' delete_conv')
  then show ?thesis
    by (auto simp: heed_laws_def alist_heed_def split: if_splits)
qed

typedef 'e heed = "{h :: 'e heed_ops. heed_laws h}"
  by (rule exI [of _ "\<lparr>h_write_txn = \<lambda>_. Inl [], h_read_txn = \<lambda>_. Inl [], h_put = \<lambda>_ _ _ _. Inl [],
      h_delete = \<lambda>_ _ _. Inl [], h_commit = \<lambda>_. Inl [], h_get = \<lambda>_ _ _. Inl [], h_iter = \<lambda>_ _. Inl [],
      h_content = \<lambda>_ _ _. None\<rparr>"]) (simp add: heed_laws_def)

lemma heed_lawsD:
  "h_write_txn (Rep_heed h) e = Inr t \<Longrightarrow> h_content (Rep_heed h) t = h_content (Rep_heed h) e"
  "h_read_txn (Rep_heed h) e = Inr t \<Longrightarrow> h_content (Rep_heed h) t = h_content (Rep_heed h) e"
  "h_put (Rep_heed h) t d k x = Inr t' \<Longrightarrow>
     h_content (Rep_heed h) t' = (h_content (Rep_heed h) t)(d := (h_content (Rep_heed h) t d)(k \<mapsto> x))"
  "h_delete (Rep_heed h) t d k = Inr t' \<Longrightarrow>
     h_content (Rep_heed h) t' = (h_content (Rep_heed h) t)(d := (h_content (Rep_heed h) t d)(k := None))"
  "h_commit (Rep_heed h) t = Inr e \<Longrightarrow> h_content (Rep_heed h) e = h_content (Rep_heed h) t"
  "h_get (Rep_heed h) t d k = Inr r \<Longrightarrow> r = h_content (Rep_heed h) t d k"
  "h_iter (Rep_heed h) t d = Inr kvs \<Longrightarrow> distinct (map fst kvs) \<and> map_of kvs = h_content (Rep_heed h) t d"
  using Rep_heed [of h] by (simp_all add: heed_laws_def)


subsection \<open>The operations\<close>

abbreviation lm :: "string + 'a \<Rightarrow> 'a db_result" where
  "lm \<equiv> map_err Lmdb"

text \<open>One write transaction with one put or delete; one read transaction with one get.\<close>

definition txn_put :: "'e heed \<Rightarrow> 'e \<Rightarrow> string \<Rightarrow> string \<Rightarrow> bytes \<Rightarrow> 'e db_result" where
  "txn_put h e d k x =
     bindR (lm (h_write_txn (Rep_heed h) e)) (\<lambda>t.
     bindR (lm (h_put (Rep_heed h) t d k x)) (\<lambda>t'.
     lm (h_commit (Rep_heed h) t')))"

definition txn_delete :: "'e heed \<Rightarrow> 'e \<Rightarrow> string \<Rightarrow> string \<Rightarrow> 'e db_result" where
  "txn_delete h e d k =
     bindR (lm (h_write_txn (Rep_heed h) e)) (\<lambda>t.
     bindR (lm (h_delete (Rep_heed h) t d k)) (\<lambda>t'.
     lm (h_commit (Rep_heed h) t')))"

definition txn_get :: "'e heed \<Rightarrow> 'e \<Rightarrow> string \<Rightarrow> string \<Rightarrow> bytes option db_result" where
  "txn_get h e d k =
     bindR (lm (h_read_txn (Rep_heed h) e)) (\<lambda>t. lm (h_get (Rep_heed h) t d k))"

definition lmdb_put_event :: "'e heed \<Rightarrow> 'e \<Rightarrow> string \<Rightarrow> bytes \<Rightarrow> 'e db_result" where
  "lmdb_put_event h e k x = txn_put h e ''evts'' k x"

definition lmdb_get_event :: "'e heed \<Rightarrow> 'e \<Rightarrow> string \<Rightarrow> bytes option db_result" where
  "lmdb_get_event h e k = txn_get h e ''evts'' k"

definition lmdb_put_datetime :: "'e heed \<Rightarrow> 'e \<Rightarrow> string \<Rightarrow> bytes \<Rightarrow> 'e db_result" where
  "lmdb_put_datetime h e k x = txn_put h e ''dtss'' k x"

definition lmdb_get_datetime :: "'e heed \<Rightarrow> 'e \<Rightarrow> string \<Rightarrow> bytes option db_result" where
  "lmdb_get_datetime h e k = txn_get h e ''dtss'' k"

definition lmdb_put_signatures :: "'e heed \<Rightarrow> 'e \<Rightarrow> string \<Rightarrow> bytes \<Rightarrow> 'e db_result" where
  "lmdb_put_signatures h e k x = txn_put h e ''sigs'' k x"

definition lmdb_get_signatures :: "'e heed \<Rightarrow> 'e \<Rightarrow> string \<Rightarrow> bytes option db_result" where
  "lmdb_get_signatures h e k = txn_get h e ''sigs'' k"

definition lmdb_put_witness_sigs :: "'e heed \<Rightarrow> 'e \<Rightarrow> string \<Rightarrow> bytes \<Rightarrow> 'e db_result" where
  "lmdb_put_witness_sigs h e k x = txn_put h e ''wigs'' k x"

definition lmdb_get_witness_sigs :: "'e heed \<Rightarrow> 'e \<Rightarrow> string \<Rightarrow> bytes option db_result" where
  "lmdb_get_witness_sigs h e k = txn_get h e ''wigs'' k"

definition lmdb_put_receipts :: "'e heed \<Rightarrow> 'e \<Rightarrow> string \<Rightarrow> bytes \<Rightarrow> 'e db_result" where
  "lmdb_put_receipts h e k x = txn_put h e ''rcts'' k x"

definition lmdb_get_receipts :: "'e heed \<Rightarrow> 'e \<Rightarrow> string \<Rightarrow> bytes option db_result" where
  "lmdb_get_receipts h e k = txn_get h e ''rcts'' k"

definition lmdb_put_state :: "'e heed \<Rightarrow> 'e \<Rightarrow> string \<Rightarrow> bytes \<Rightarrow> 'e db_result" where
  "lmdb_put_state h e k x = txn_put h e ''states'' k x"

definition lmdb_get_state :: "'e heed \<Rightarrow> 'e \<Rightarrow> string \<Rightarrow> bytes option db_result" where
  "lmdb_get_state h e k = txn_get h e ''states'' k"

definition lmdb_put_hab :: "'e heed \<Rightarrow> 'e \<Rightarrow> string \<Rightarrow> bytes \<Rightarrow> 'e db_result" where
  "lmdb_put_hab h e k x = txn_put h e ''habs'' k x"

definition lmdb_get_hab :: "'e heed \<Rightarrow> 'e \<Rightarrow> string \<Rightarrow> bytes option db_result" where
  "lmdb_get_hab h e k = txn_get h e ''habs'' k"

definition lmdb_del_hab :: "'e heed \<Rightarrow> 'e \<Rightarrow> string \<Rightarrow> 'e db_result" where
  "lmdb_del_hab h e k = txn_delete h e ''habs'' k"

definition lmdb_put_escrow_ooo :: "'e heed \<Rightarrow> 'e \<Rightarrow> string \<Rightarrow> u64 \<Rightarrow> bytes \<Rightarrow> 'e db_result" where
  "lmdb_put_escrow_ooo h e p n x = txn_put h e ''ooes'' (sn_key p n) x"

definition lmdb_get_escrow_ooo :: "'e heed \<Rightarrow> 'e \<Rightarrow> string \<Rightarrow> u64 \<Rightarrow> bytes option db_result" where
  "lmdb_get_escrow_ooo h e p n = txn_get h e ''ooes'' (sn_key p n)"

definition lmdb_del_escrow_ooo :: "'e heed \<Rightarrow> 'e \<Rightarrow> string \<Rightarrow> u64 \<Rightarrow> 'e db_result" where
  "lmdb_del_escrow_ooo h e p n = txn_delete h e ''ooes'' (sn_key p n)"

definition lmdb_put_escrow_ps :: "'e heed \<Rightarrow> 'e \<Rightarrow> string \<Rightarrow> u64 \<Rightarrow> bytes \<Rightarrow> 'e db_result" where
  "lmdb_put_escrow_ps h e p n x = txn_put h e ''pses'' (sn_key p n) x"

definition lmdb_get_escrow_ps :: "'e heed \<Rightarrow> 'e \<Rightarrow> string \<Rightarrow> u64 \<Rightarrow> bytes option db_result" where
  "lmdb_get_escrow_ps h e p n = txn_get h e ''pses'' (sn_key p n)"

definition lmdb_del_escrow_ps :: "'e heed \<Rightarrow> 'e \<Rightarrow> string \<Rightarrow> u64 \<Rightarrow> 'e db_result" where
  "lmdb_del_escrow_ps h e p n = txn_delete h e ''pses'' (sn_key p n)"

definition lmdb_append_kel :: "'e heed \<Rightarrow> 'e \<Rightarrow> string \<Rightarrow> u64 \<Rightarrow> string \<Rightarrow> 'e db_result" where
  "lmdb_append_kel h e p n x = txn_put h e ''kels'' (sn_key p n) x"

definition lmdb_get_kel_said :: "'e heed \<Rightarrow> 'e \<Rightarrow> string \<Rightarrow> u64 \<Rightarrow> string option db_result" where
  "lmdb_get_kel_said h e p n = txn_get h e ''kels'' (sn_key p n)"

definition lmdb_put_first_seen :: "'e heed \<Rightarrow> 'e \<Rightarrow> string \<Rightarrow> u64 \<Rightarrow> string \<Rightarrow> 'e db_result" where
  "lmdb_put_first_seen h e p n x = txn_put h e ''fels'' (sn_key p n) x"

definition lmdb_get_first_seen :: "'e heed \<Rightarrow> 'e \<Rightarrow> string \<Rightarrow> u64 \<Rightarrow> string option db_result" where
  "lmdb_get_first_seen h e p n = txn_get h e ''fels'' (sn_key p n)"

definition kel_entry :: "string \<Rightarrow> string \<times> bytes \<Rightarrow> (u64 \<times> string) option" where
  "kel_entry prefix_dot item =
     (if starts_with prefix_dot (fst item) then map_option (\<lambda>sn. (sn, snd item)) (split_sn (fst item)) else None)"

definition lmdb_get_kel :: "'e heed \<Rightarrow> 'e \<Rightarrow> string \<Rightarrow> (u64 \<times> string) list db_result" where
  "lmdb_get_kel h e p =
     bindR (lm (h_read_txn (Rep_heed h) e)) (\<lambda>t.
     bindR (lm (h_iter (Rep_heed h) t ''kels'')) (\<lambda>items.
     Inr (sort_key fst (List.map_filter (kel_entry (p @ ''.'')) items))))"

definition lmdb_list_habs :: "'e heed \<Rightarrow> 'e \<Rightarrow> string list db_result" where
  "lmdb_list_habs h e =
     bindR (lm (h_read_txn (Rep_heed h) e)) (\<lambda>t.
     bindR (lm (h_iter (Rep_heed h) t ''habs'')) (\<lambda>items. Inr (map fst items)))"

definition lmdb_latest_sn :: "'e heed \<Rightarrow> 'e \<Rightarrow> string \<Rightarrow> u64 option db_result" where
  "lmdb_latest_sn h e p =
     bindR (lmdb_get_kel h e p) (\<lambda>kel. Inr (if kel = [] then None else Some (fst (last kel))))"

text \<open>The puts of one event, inside a transaction.\<close>

definition put_event_records ::
  "'e heed \<Rightarrow> 'e \<Rightarrow> string \<Rightarrow> bytes \<Rightarrow> string \<Rightarrow> u64 \<Rightarrow> bytes option \<Rightarrow> 'e db_result" where
  "put_event_records h t said ev p sn sigs =
     bindR (lm (h_put (Rep_heed h) t ''evts'' said ev)) (\<lambda>t1.
     bindR (lm (h_put (Rep_heed h) t1 ''kels'' (sn_key p sn) said)) (\<lambda>t2.
     bindR (lm (h_put (Rep_heed h) t2 ''fels'' (sn_key p sn) said)) (\<lambda>t3.
     case sigs of None \<Rightarrow> Inr t3 | Some s \<Rightarrow> lm (h_put (Rep_heed h) t3 ''sigs'' said s))))"

definition lmdb_store_event ::
  "'e heed \<Rightarrow> 'e \<Rightarrow> string \<Rightarrow> bytes \<Rightarrow> string \<Rightarrow> u64 \<Rightarrow> bytes option \<Rightarrow> 'e db_result" where
  "lmdb_store_event h e said ev p sn sigs =
     bindR (lm (h_write_txn (Rep_heed h) e)) (\<lambda>t.
     bindR (put_event_records h t said ev p sn sigs) (\<lambda>t'.
     lm (h_commit (Rep_heed h) t')))"

definition lmdb_store_event_with_hab ::
  "'e heed \<Rightarrow> 'e \<Rightarrow> string \<Rightarrow> bytes \<Rightarrow> string \<Rightarrow> u64 \<Rightarrow> bytes option \<Rightarrow> string \<Rightarrow> bytes \<Rightarrow> 'e db_result" where
  "lmdb_store_event_with_hab h e said ev p sn sigs hab_name hab_data =
     bindR (lm (h_write_txn (Rep_heed h) e)) (\<lambda>t.
     bindR (put_event_records h t said ev p sn sigs) (\<lambda>t'.
     bindR (lm (h_put (Rep_heed h) t' ''habs'' hab_name hab_data)) (\<lambda>t''.
     lm (h_commit (Rep_heed h) t''))))"

definition lmdb_store :: "'e heed \<Rightarrow> 'e keri_store" where
  "lmdb_store h =
     \<lparr>st_put_event = lmdb_put_event h, st_get_event = lmdb_get_event h,
      st_append_kel = lmdb_append_kel h, st_get_kel_said = lmdb_get_kel_said h, st_get_kel = lmdb_get_kel h,
      st_put_first_seen = lmdb_put_first_seen h, st_get_first_seen = lmdb_get_first_seen h,
      st_put_datetime = lmdb_put_datetime h, st_get_datetime = lmdb_get_datetime h,
      st_put_signatures = lmdb_put_signatures h, st_get_signatures = lmdb_get_signatures h,
      st_put_witness_sigs = lmdb_put_witness_sigs h, st_get_witness_sigs = lmdb_get_witness_sigs h,
      st_put_receipts = lmdb_put_receipts h, st_get_receipts = lmdb_get_receipts h,
      st_put_state = lmdb_put_state h, st_get_state = lmdb_get_state h,
      st_put_escrow_ooo = lmdb_put_escrow_ooo h, st_get_escrow_ooo = lmdb_get_escrow_ooo h,
      st_del_escrow_ooo = lmdb_del_escrow_ooo h, st_put_escrow_ps = lmdb_put_escrow_ps h,
      st_get_escrow_ps = lmdb_get_escrow_ps h, st_del_escrow_ps = lmdb_del_escrow_ps h,
      st_put_hab = lmdb_put_hab h, st_get_hab = lmdb_get_hab h, st_list_habs = lmdb_list_habs h,
      st_del_hab = lmdb_del_hab h, st_latest_sn = lmdb_latest_sn h,
      st_store_event = lmdb_store_event h, st_store_event_with_hab = lmdb_store_event_with_hab h\<rparr>"


subsection \<open>It refines the abstract store\<close>

definition lmdb_view :: "'e heed \<Rightarrow> 'e \<Rightarrow> store_view" where
  "lmdb_view h e =
     (let c = h_content (Rep_heed h) e in
      \<lparr>sv_evts = c ''evts'', sv_kels = (\<lambda>(p, n). c ''kels'' (sn_key p n)),
       sv_fels = (\<lambda>(p, n). c ''fels'' (sn_key p n)), sv_dtss = c ''dtss'', sv_sigs = c ''sigs'',
       sv_wigs = c ''wigs'', sv_rcts = c ''rcts'', sv_states = c ''states'',
       sv_ooes = (\<lambda>(p, n). c ''ooes'' (sn_key p n)), sv_pses = (\<lambda>(p, n). c ''pses'' (sn_key p n)),
       sv_habs = c ''habs''\<rparr>)"

text \<open>The log database holds nothing but sequence-number keys of prefixes without a dot.\<close>

definition lmdb_wf :: "'e heed \<Rightarrow> 'e \<Rightarrow> bool" where
  "lmdb_wf h e \<longleftrightarrow>
     (\<forall>k \<in> dom (h_content (Rep_heed h) e ''kels''). \<exists>p n. k = sn_key p n \<and> CHR ''.'' \<notin> set p)"

lemma txn_put_content:
  "txn_put h e d k x = Inr e' \<Longrightarrow>
     h_content (Rep_heed h) e' = (h_content (Rep_heed h) e)(d := (h_content (Rep_heed h) e d)(k \<mapsto> x))"
  by (auto simp: txn_put_def res_simps dest!: heed_lawsD)

lemma txn_delete_content:
  "txn_delete h e d k = Inr e' \<Longrightarrow>
     h_content (Rep_heed h) e' = (h_content (Rep_heed h) e)(d := (h_content (Rep_heed h) e d)(k := None))"
  by (auto simp: txn_delete_def res_simps dest!: heed_lawsD)

lemma txn_get_content: "txn_get h e d k = Inr r \<Longrightarrow> r = h_content (Rep_heed h) e d k"
  by (auto simp: txn_get_def res_simps dest!: heed_lawsD)

lemma put_event_records_content:
  assumes "put_event_records h t said ev p sn sigs = Inr t'"
  shows "h_content (Rep_heed h) t' =
    (let c = h_content (Rep_heed h) t;
         c' = c(''evts'' := (c ''evts'')(said \<mapsto> ev), ''kels'' := (c ''kels'')(sn_key p sn \<mapsto> said),
                ''fels'' := (c ''fels'')(sn_key p sn \<mapsto> said))
     in case sigs of None \<Rightarrow> c' | Some s \<Rightarrow> c'(''sigs'' := (c' ''sigs'')(said \<mapsto> s)))"
proof -
  from assms obtain t1 t2 t3 where "h_put (Rep_heed h) t ''evts'' said ev = Inr t1"
    "h_put (Rep_heed h) t1 ''kels'' (sn_key p sn) said = Inr t2"
    "h_put (Rep_heed h) t2 ''fels'' (sn_key p sn) said = Inr t3"
    and s: "(case sigs of None \<Rightarrow> Inr t3 | Some s \<Rightarrow> lm (h_put (Rep_heed h) t3 ''sigs'' said s)) = Inr t'"
    by (auto simp: put_event_records_def res_simps)
  then have t3: "h_content (Rep_heed h) t3 =
    (let c = h_content (Rep_heed h) t in
     c(''evts'' := (c ''evts'')(said \<mapsto> ev), ''kels'' := (c ''kels'')(sn_key p sn \<mapsto> said),
       ''fels'' := (c ''fels'')(sn_key p sn \<mapsto> said)))"
    by (simp add: heed_lawsD(3) Let_def)
  show ?thesis
  proof (cases sigs)
    case None
    with s t3 show ?thesis by (simp add: Let_def)
  next
    case (Some sg)
    with s have "h_put (Rep_heed h) t3 ''sigs'' said sg = Inr t'" by simp
    from heed_lawsD(3) [OF this] t3 Some show ?thesis by (simp add: Let_def)
  qed
qed

lemma store_event_content:
  "lmdb_store_event h e said ev p sn sigs = Inr e' \<Longrightarrow>
     \<exists>t t'. h_content (Rep_heed h) t = h_content (Rep_heed h) e \<and> put_event_records h t said ev p sn sigs = Inr t' \<and>
       h_content (Rep_heed h) e' = h_content (Rep_heed h) t'"
  by (auto simp: lmdb_store_event_def res_simps dest!: heed_lawsD(1,5))

lemma store_event_with_hab_content:
  "lmdb_store_event_with_hab h e said ev p sn sigs k x = Inr e' \<Longrightarrow>
     \<exists>t t'. h_content (Rep_heed h) t = h_content (Rep_heed h) e \<and> put_event_records h t said ev p sn sigs = Inr t' \<and>
       h_content (Rep_heed h) e' = (h_content (Rep_heed h) t')(''habs'' := (h_content (Rep_heed h) t' ''habs'')(k \<mapsto> x))"
  by (auto simp: lmdb_store_event_with_hab_def res_simps dest!: heed_lawsD(1,3,5))

lemma lmdb_wf_kels:
  "h_content (Rep_heed h) e' ''kels'' = h_content (Rep_heed h) e ''kels'' \<Longrightarrow> lmdb_wf h e \<Longrightarrow> lmdb_wf h e'"
  by (simp add: lmdb_wf_def)

lemma lmdb_wf_put:
  "h_content (Rep_heed h) e' ''kels'' = (h_content (Rep_heed h) e ''kels'')(sn_key p n \<mapsto> x) \<Longrightarrow>
     lmdb_wf h e \<Longrightarrow> CHR ''.'' \<notin> set p \<Longrightarrow> lmdb_wf h e'"
  by (auto simp: lmdb_wf_def)

lemma starts_with_sn_key:
  "CHR ''.'' \<notin> set p \<Longrightarrow> CHR ''.'' \<notin> set q \<Longrightarrow> starts_with (p @ ''.'') (sn_key q n) \<longleftrightarrow> p = q"
proof
  assume dots: "CHR ''.'' \<notin> set p" "CHR ''.'' \<notin> set q" and "starts_with (p @ ''.'') (sn_key q n)"
  then obtain r where "p @ CHR ''.'' # r = q @ CHR ''.'' # hex_padded 32 (unat n)"
    by (auto simp: starts_with_iff sn_key_def)
  then have "split_once (CHR ''.'') (p @ CHR ''.'' # r) = split_once (CHR ''.'') (q @ CHR ''.'' # hex_padded 32 (unat n))"
    by simp
  with dots show "p = q" by (simp add: split_once_append)
qed (auto simp: starts_with_iff sn_key_def)

text \<open>Scanning the whole log database finds the entries of one prefix.\<close>

lemma map_of_sort_key: "distinct (map fst xs) \<Longrightarrow> map_of (sort_key fst xs) = map_of xs"
proof -
  assume d: "distinct (map fst xs)"
  then have d': "distinct (map fst (sort_key fst xs))" by (simp add: distinct_map)
  have "map_of (sort_key fst xs) k = Some y \<longleftrightarrow> map_of xs k = Some y" for k y
    using map_of_eq_Some_iff [OF d] map_of_eq_Some_iff [OF d'] by simp
  then show ?thesis by (metis not_None_eq ext)
qed

lemma sn_key_update [simp]:
  "(\<lambda>(p, n). if p = q \<and> n = j then r else m (sn_key p n)) = (\<lambda>(p, n). m (sn_key p n))((q, j) := r)"
  by (auto simp: fun_eq_iff)

lemma set_map_filter_conv: "set (List.map_filter f xs) = {y. \<exists>x\<in>set xs. f x = Some y}"
  by (induction xs) (auto simp: List.map_filter_simps split: option.splits)

lemma kel_entries:
  assumes wf: "\<And>k x. (k, x) \<in> set items \<Longrightarrow> \<exists>q n. k = sn_key q n \<and> CHR ''.'' \<notin> set q"
    and d: "distinct (map fst items)" and p: "CHR ''.'' \<notin> set p"
  shows "distinct (map fst (List.map_filter (kel_entry (p @ ''.'')) items)) \<and>
    map_of (List.map_filter (kel_entry (p @ ''.'')) items) = (\<lambda>n. map_of items (sn_key p n))"
  using wf d
proof (induction items)
  case Nil
  then show ?case by (simp add: List.map_filter_simps)
next
  case (Cons item items)
  obtain k x where item: "item = (k, x)" by (cases item)
  then obtain q n where k: "k = sn_key q n" "CHR ''.'' \<notin> set q" using Cons.prems(1) [of k x] by auto
  let ?rest = "List.map_filter (kel_entry (p @ ''.'')) items"
  have IH: "distinct (map fst ?rest)" "map_of ?rest = (\<lambda>n. map_of items (sn_key p n))"
    using Cons by auto
  have entry: "kel_entry (p @ ''.'') (sn_key q n, x) = (if p = q then Some (n, x) else None)"
    using k p by (simp add: kel_entry_def starts_with_sn_key)
  show ?case
  proof (cases "p = q")
    case True
    have "map_of items (sn_key p n) = None"
      using Cons.prems(2) True by (auto simp: item k map_of_eq_None_iff)
    then have "n \<notin> fst ` set ?rest" using IH(2) by (metis map_of_eq_None_iff)
    with IH True entry show ?thesis
      by (auto simp: List.map_filter_simps item k fun_eq_iff)
  next
    case False
    with IH show ?thesis by (auto simp: List.map_filter_simps entry item k fun_eq_iff)
  qed
qed

lemma lmdb_get_kel_laws:
  assumes g: "lmdb_get_kel h e p = Inr es" and wf: "lmdb_wf h e" and p: "CHR ''.'' \<notin> set p"
  shows "sorted (map fst es) \<and> distinct (map fst es) \<and>
    map_of es = (\<lambda>n. h_content (Rep_heed h) e ''kels'' (sn_key p n))"
proof -
  from g obtain t items where t: "h_read_txn (Rep_heed h) e = Inr t"
    and items: "h_iter (Rep_heed h) t ''kels'' = Inr items"
    and es: "es = sort_key fst (List.map_filter (kel_entry (p @ ''.'')) items)"
    by (auto simp: lmdb_get_kel_def res_simps)
  have d: "distinct (map fst items)" and m: "map_of items = h_content (Rep_heed h) e ''kels''"
    using heed_lawsD(7) [OF items] heed_lawsD(2) [OF t] by simp_all
  have "\<exists>q n. k = sn_key q n \<and> CHR ''.'' \<notin> set q" if "(k, x) \<in> set items" for k x
    using that wf m d unfolding lmdb_wf_def by (metis domI map_of_is_SomeI)
  from kel_entries [OF this d p]
  have "distinct (map fst (List.map_filter (kel_entry (p @ ''.'')) items))"
    "map_of (List.map_filter (kel_entry (p @ ''.'')) items) = (\<lambda>n. h_content (Rep_heed h) e ''kels'' (sn_key p n))"
    by (simp_all add: m)
  then show ?thesis
    unfolding es by (simp add: map_of_sort_key distinct_map)
qed

interpretation lmdb: store_laws "lmdb_store h" "lmdb_view h" "lmdb_wf h" for h :: "'e heed"
proof (unfold_locales, goal_cases)
  case (1 s k x s')
  then have "txn_put h s ''evts'' k x = Inr s'" by (simp add: lmdb_store_def lmdb_put_event_def)
  from txn_put_content [OF this] show ?case by (simp add: lmdb_view_def Let_def lmdb_wf_def)
next
  case (2 s p n x s')
  then have "txn_put h s ''kels'' (sn_key p n) x = Inr s'" by (simp add: lmdb_store_def lmdb_append_kel_def)
  from txn_put_content [OF this] show ?case by (auto simp: lmdb_view_def Let_def lmdb_wf_def)
next
  case (3 s p n x s')
  then have "txn_put h s ''fels'' (sn_key p n) x = Inr s'" by (simp add: lmdb_store_def lmdb_put_first_seen_def)
  from txn_put_content [OF this] show ?case by (auto simp: lmdb_view_def Let_def lmdb_wf_def)
next
  case (4 s k x s')
  then have "txn_put h s ''dtss'' k x = Inr s'" by (simp add: lmdb_store_def lmdb_put_datetime_def)
  from txn_put_content [OF this] show ?case by (simp add: lmdb_view_def Let_def lmdb_wf_def)
next
  case (5 s k x s')
  then have "txn_put h s ''sigs'' k x = Inr s'" by (simp add: lmdb_store_def lmdb_put_signatures_def)
  from txn_put_content [OF this] show ?case by (simp add: lmdb_view_def Let_def lmdb_wf_def)
next
  case (6 s k x s')
  then have "txn_put h s ''wigs'' k x = Inr s'" by (simp add: lmdb_store_def lmdb_put_witness_sigs_def)
  from txn_put_content [OF this] show ?case by (simp add: lmdb_view_def Let_def lmdb_wf_def)
next
  case (7 s k x s')
  then have "txn_put h s ''rcts'' k x = Inr s'" by (simp add: lmdb_store_def lmdb_put_receipts_def)
  from txn_put_content [OF this] show ?case by (simp add: lmdb_view_def Let_def lmdb_wf_def)
next
  case (8 s k x s')
  then have "txn_put h s ''states'' k x = Inr s'" by (simp add: lmdb_store_def lmdb_put_state_def)
  from txn_put_content [OF this] show ?case by (simp add: lmdb_view_def Let_def lmdb_wf_def)
next
  case (9 s p n x s')
  then have "txn_put h s ''ooes'' (sn_key p n) x = Inr s'" by (simp add: lmdb_store_def lmdb_put_escrow_ooo_def)
  from txn_put_content [OF this] show ?case by (auto simp: lmdb_view_def Let_def lmdb_wf_def)
next
  case (10 s p n s')
  then have "txn_delete h s ''ooes'' (sn_key p n) = Inr s'" by (simp add: lmdb_store_def lmdb_del_escrow_ooo_def)
  from txn_delete_content [OF this] show ?case by (auto simp: lmdb_view_def Let_def lmdb_wf_def)
next
  case (11 s p n x s')
  then have "txn_put h s ''pses'' (sn_key p n) x = Inr s'" by (simp add: lmdb_store_def lmdb_put_escrow_ps_def)
  from txn_put_content [OF this] show ?case by (auto simp: lmdb_view_def Let_def lmdb_wf_def)
next
  case (12 s p n s')
  then have "txn_delete h s ''pses'' (sn_key p n) = Inr s'" by (simp add: lmdb_store_def lmdb_del_escrow_ps_def)
  from txn_delete_content [OF this] show ?case by (auto simp: lmdb_view_def Let_def lmdb_wf_def)
next
  case (13 s k x s')
  then have "txn_put h s ''habs'' k x = Inr s'" by (simp add: lmdb_store_def lmdb_put_hab_def)
  from txn_put_content [OF this] show ?case by (simp add: lmdb_view_def Let_def lmdb_wf_def)
next
  case (14 s k s')
  then have "txn_delete h s ''habs'' k = Inr s'" by (simp add: lmdb_store_def lmdb_del_hab_def)
  from txn_delete_content [OF this] show ?case by (simp add: lmdb_view_def Let_def lmdb_wf_def)
next
  case (15 s said ev p n sigs s')
  then obtain t t' where "h_content (Rep_heed h) t = h_content (Rep_heed h) s"
    "put_event_records h t said ev p n sigs = Inr t'" "h_content (Rep_heed h) s' = h_content (Rep_heed h) t'"
    using store_event_content [of h s said ev p n sigs s'] by (auto simp: lmdb_store_def)
  then show ?case
    using put_event_records_content [of h t said ev p n sigs t'] lmdb_wf_put [of h s' s p n said]
    by (cases sigs) (auto simp: lmdb_view_def with_event_def Let_def)
next
  case (16 s said ev p n sigs k x s')
  then obtain t t' where "h_content (Rep_heed h) t = h_content (Rep_heed h) s"
    "put_event_records h t said ev p n sigs = Inr t'"
    "h_content (Rep_heed h) s' = (h_content (Rep_heed h) t')(''habs'' := (h_content (Rep_heed h) t' ''habs'')(k \<mapsto> x))"
    using store_event_with_hab_content [of h s said ev p n sigs k x s'] by (auto simp: lmdb_store_def)
  then show ?case
    using put_event_records_content [of h t said ev p n sigs t'] lmdb_wf_put [of h s' s p n said]
    by (cases sigs) (auto simp: lmdb_view_def with_event_def Let_def)
next
  case (17 s k r)
  then have "txn_get h s ''evts'' k = Inr r" by (simp add: lmdb_store_def lmdb_get_event_def)
  from txn_get_content [OF this] show ?case by (simp add: lmdb_view_def Let_def)
next
  case (18 s p n r)
  then have "txn_get h s ''kels'' (sn_key p n) = Inr r" by (simp add: lmdb_store_def lmdb_get_kel_said_def)
  from txn_get_content [OF this] show ?case by (simp add: lmdb_view_def Let_def)
next
  case (19 s p n r)
  then have "txn_get h s ''fels'' (sn_key p n) = Inr r" by (simp add: lmdb_store_def lmdb_get_first_seen_def)
  from txn_get_content [OF this] show ?case by (simp add: lmdb_view_def Let_def)
next
  case (20 s k r)
  then have "txn_get h s ''dtss'' k = Inr r" by (simp add: lmdb_store_def lmdb_get_datetime_def)
  from txn_get_content [OF this] show ?case by (simp add: lmdb_view_def Let_def)
next
  case (21 s k r)
  then have "txn_get h s ''sigs'' k = Inr r" by (simp add: lmdb_store_def lmdb_get_signatures_def)
  from txn_get_content [OF this] show ?case by (simp add: lmdb_view_def Let_def)
next
  case (22 s k r)
  then have "txn_get h s ''wigs'' k = Inr r" by (simp add: lmdb_store_def lmdb_get_witness_sigs_def)
  from txn_get_content [OF this] show ?case by (simp add: lmdb_view_def Let_def)
next
  case (23 s k r)
  then have "txn_get h s ''rcts'' k = Inr r" by (simp add: lmdb_store_def lmdb_get_receipts_def)
  from txn_get_content [OF this] show ?case by (simp add: lmdb_view_def Let_def)
next
  case (24 s k r)
  then have "txn_get h s ''states'' k = Inr r" by (simp add: lmdb_store_def lmdb_get_state_def)
  from txn_get_content [OF this] show ?case by (simp add: lmdb_view_def Let_def)
next
  case (25 s p n r)
  then have "txn_get h s ''ooes'' (sn_key p n) = Inr r" by (simp add: lmdb_store_def lmdb_get_escrow_ooo_def)
  from txn_get_content [OF this] show ?case by (simp add: lmdb_view_def Let_def)
next
  case (26 s p n r)
  then have "txn_get h s ''pses'' (sn_key p n) = Inr r" by (simp add: lmdb_store_def lmdb_get_escrow_ps_def)
  from txn_get_content [OF this] show ?case by (simp add: lmdb_view_def Let_def)
next
  case (27 s k r)
  then have "txn_get h s ''habs'' k = Inr r" by (simp add: lmdb_store_def lmdb_get_hab_def)
  from txn_get_content [OF this] show ?case by (simp add: lmdb_view_def Let_def)
next
  case (28 s ks)
  then obtain t kvs where t: "h_read_txn (Rep_heed h) s = Inr t" and kvs: "h_iter (Rep_heed h) t ''habs'' = Inr kvs"
    and ks: "ks = map fst kvs"
    by (auto simp: lmdb_store_def lmdb_list_habs_def res_simps)
  from heed_lawsD(7) [OF kvs] heed_lawsD(2) [OF t] have "distinct ks" "map_of kvs = h_content (Rep_heed h) s ''habs''"
    by (simp_all add: ks)
  moreover from this(2) have "dom (h_content (Rep_heed h) s ''habs'') = set ks"
    unfolding ks by (metis dom_map_of_conv_image_fst list.set_map)
  ultimately show ?case by (simp add: lmdb_view_def Let_def)
next
  case (29 s p es)
  then show ?case
    using lmdb_get_kel_laws [of h s p es] by (simp add: lmdb_store_def lmdb_view_def Let_def)
next
  case (30 s p lt)
  then have "bindR (lmdb_get_kel h s p) (\<lambda>kel. Inr (if kel = [] then None else Some (fst (last kel)))) = Inr lt"
    by (simp add: lmdb_store_def lmdb_latest_sn_def)
  then obtain kel where "lmdb_get_kel h s p = Inr kel" "lt = (if kel = [] then None else Some (fst (last kel)))"
    unfolding bindR_eq_Inr by blast
  then show ?case by (intro exI [of _ kel]) (simp add: lmdb_store_def)
qed

end
