(* ===== verification/Keri_Escrow.thy ===== *)
theory Keri_Escrow
  imports Keri_Serder "HOL-Library.AList"
begin

section \<open>Escrow\<close>

text \<open>
  \<open>affinidi-keri-core/src/escrow.rs\<close>. A \<open>HashMap\<close> is an association list with distinct
  keys, a method with \<open>&mut self\<close> returns the new escrow, and the clock
  (\<open>chrono::Utc::now()\<close>) is an argument. \<open>escrow_step\<close> is the relation of all operations;
  the invariant \<open>escrow_ok\<close> holds of every escrow they reach and bounds what an attacker
  can make it hold.
\<close>

record escrowed_event =
  ee_serder :: serder
  ee_signatures :: bytes
  ee_escrowed_at :: int

record partially_witnessed_entry =
  pw_serder :: serder
  pw_signatures :: bytes
  pw_receipts :: "(string \<times> bytes) list"
  pw_backer_threshold :: nat
  pw_escrowed_at :: int

type_synonym escrow_key = "string \<times> u64"
type_synonym event_map = "(escrow_key \<times> escrowed_event list) list"

record escrow =
  es_out_of_order :: event_map
  es_partially_signed :: event_map
  es_partially_witnessed :: "(escrow_key \<times> partially_witnessed_entry) list"

definition MAX_ESCROW_ENTRIES :: "nat" where "MAX_ESCROW_ENTRIES = 10000"
definition MAX_ENTRIES_PER_KEY :: "nat" where "MAX_ENTRIES_PER_KEY = 16"
definition MAX_RECEIPTS :: "nat" where "MAX_RECEIPTS = 4096"


subsection \<open>Operations\<close>

definition escrow_new :: "escrow" where
  "escrow_new = \<lparr>es_out_of_order = [], es_partially_signed = [], es_partially_witnessed = []\<rparr>"

definition event_count :: "event_map \<Rightarrow> nat" where
  "event_count m = sum_list (map (\<lambda>(_, v). length v) m)"

definition out_of_order_count :: "escrow \<Rightarrow> nat" where
  "out_of_order_count es = event_count (es_out_of_order es)"

definition partially_signed_count :: "escrow \<Rightarrow> nat" where
  "partially_signed_count es = event_count (es_partially_signed es)"

definition partially_witnessed_count :: "escrow \<Rightarrow> nat" where
  "partially_witnessed_count es = length (es_partially_witnessed es)"

definition total_count :: "escrow \<Rightarrow> nat" where
  "total_count es = out_of_order_count es + partially_signed_count es + partially_witnessed_count es"

text \<open>\<open>entry(key).or_default()\<close>, the length check and the \<open>push\<close>.\<close>

definition queued :: "event_map \<Rightarrow> escrow_key \<Rightarrow> escrowed_event list" where
  "queued m key = (case map_of m key of None \<Rightarrow> [] | Some entries \<Rightarrow> entries)"

definition push_entry :: "escrow_key \<Rightarrow> escrowed_event \<Rightarrow> event_map \<Rightarrow> event_map" where
  "push_entry key ev m =
     (if MAX_ENTRIES_PER_KEY \<le> length (queued m key) then AList.update key (queued m key) m
      else AList.update key (queued m key @ [ev]) m)"

definition escrow_out_of_order :: "int \<Rightarrow> string \<Rightarrow> u64 \<Rightarrow> serder \<Rightarrow> bytes \<Rightarrow> escrow \<Rightarrow> escrow" where
  "escrow_out_of_order now prefix' sn s sigs es =
     (if MAX_ESCROW_ENTRIES \<le> total_count es then es
      else es\<lparr>es_out_of_order := push_entry (prefix', sn)
        \<lparr>ee_serder = s, ee_signatures = sigs, ee_escrowed_at = now\<rparr> (es_out_of_order es)\<rparr>)"

definition escrow_partially_signed :: "int \<Rightarrow> string \<Rightarrow> u64 \<Rightarrow> serder \<Rightarrow> bytes \<Rightarrow> escrow \<Rightarrow> escrow" where
  "escrow_partially_signed now prefix' sn s sigs es =
     (if MAX_ESCROW_ENTRIES \<le> total_count es then es
      else es\<lparr>es_partially_signed := push_entry (prefix', sn)
        \<lparr>ee_serder = s, ee_signatures = sigs, ee_escrowed_at = now\<rparr> (es_partially_signed es)\<rparr>)"

definition process_escrow :: "string \<Rightarrow> u64 \<Rightarrow> escrow \<Rightarrow> escrowed_event list \<times> escrow" where
  "process_escrow prefix' current_sn es =
     (let key = (prefix', current_sn + 1) in
      (queued (es_out_of_order es) key, es\<lparr>es_out_of_order := AList.delete key (es_out_of_order es)\<rparr>))"

definition escrow_partially_witnessed ::
    "int \<Rightarrow> string \<Rightarrow> u64 \<Rightarrow> serder \<Rightarrow> bytes \<Rightarrow> nat \<Rightarrow> escrow \<Rightarrow> escrow" where
  "escrow_partially_witnessed now prefix' sn s sigs backer_threshold es =
     es\<lparr>es_partially_witnessed := AList.update (prefix', sn)
       \<lparr>pw_serder = s, pw_signatures = sigs, pw_receipts = [], pw_backer_threshold = backer_threshold,
        pw_escrowed_at = now\<rparr> (es_partially_witnessed es)\<rparr>"

definition add_witness_receipt :: "string \<Rightarrow> u64 \<Rightarrow> string \<Rightarrow> bytes \<Rightarrow> escrow \<Rightarrow> bool \<times> escrow" where
  "add_witness_receipt prefix' sn witness_prefix sig_raw es =
     (case map_of (es_partially_witnessed es) (prefix', sn) of
        Some entry \<Rightarrow>
          if MAX_RECEIPTS \<le> length (pw_receipts entry) then (False, es)
          else (True, es\<lparr>es_partially_witnessed := AList.update (prefix', sn)
            (entry\<lparr>pw_receipts := pw_receipts entry @ [(witness_prefix, sig_raw)]\<rparr>) (es_partially_witnessed es)\<rparr>)
      | None \<Rightarrow> (False, es))"

text \<open>The loop that keeps the first occurrence of every witness prefix.\<close>

fun unique_loop :: "string list \<Rightarrow> (string \<times> bytes) list \<Rightarrow> string list" where
  "unique_loop unique [] = unique"
| "unique_loop unique ((wp, _) # receipts) =
     unique_loop (if wp \<notin> set unique then unique @ [wp] else unique) receipts"

definition unique_witnesses :: "(string \<times> bytes) list \<Rightarrow> string list" where
  "unique_witnesses receipts = unique_loop [] receipts"

definition check_and_promote_witnessed ::
    "string \<Rightarrow> u64 \<Rightarrow> escrow \<Rightarrow> partially_witnessed_entry option \<times> escrow" where
  "check_and_promote_witnessed prefix' sn es =
     (case map_of (es_partially_witnessed es) (prefix', sn) of
        Some entry \<Rightarrow>
          if pw_backer_threshold entry \<le> length (unique_witnesses (pw_receipts entry)) then
            (Some entry, es\<lparr>es_partially_witnessed := AList.delete (prefix', sn) (es_partially_witnessed es)\<rparr>)
          else (None, es)
      | None \<Rightarrow> (None, es))"

definition prune_map :: "int \<Rightarrow> event_map \<Rightarrow> event_map" where
  "prune_map cutoff m =
     filter (\<lambda>(_, events). events \<noteq> [])
       (map (\<lambda>(k, events). (k, filter (\<lambda>e. cutoff \<le> ee_escrowed_at e) events)) m)"

definition prune :: "int \<Rightarrow> int \<Rightarrow> escrow \<Rightarrow> escrow" where
  "prune now max_age es =
     (let cutoff = now - max_age in
      \<lparr>es_out_of_order = prune_map cutoff (es_out_of_order es),
       es_partially_signed = prune_map cutoff (es_partially_signed es),
       es_partially_witnessed = filter (\<lambda>(_, entry). cutoff \<le> pw_escrowed_at entry) (es_partially_witnessed es)\<rparr>)"


subsection \<open>All operations as one relation\<close>

inductive escrow_step :: "escrow \<Rightarrow> escrow \<Rightarrow> bool" where
  step_ooo: "escrow_step es (escrow_out_of_order now p sn s sigs es)"
| step_ps: "escrow_step es (escrow_partially_signed now p sn s sigs es)"
| step_process: "escrow_step es (snd (process_escrow p sn es))"
| step_pw: "escrow_step es (escrow_partially_witnessed now p sn s sigs bt es)"
| step_receipt: "escrow_step es (snd (add_witness_receipt p sn w sig es))"
| step_promote: "escrow_step es (snd (check_and_promote_witnessed p sn es))"
| step_prune: "escrow_step es (prune now max_age es)"

inductive escrow_reachable :: "escrow \<Rightarrow> bool" where
  start: "escrow_reachable escrow_new"
| step: "escrow_reachable es \<Longrightarrow> escrow_step es es' \<Longrightarrow> escrow_reachable es'"

definition map_ok :: "event_map \<Rightarrow> bool" where
  "map_ok m \<longleftrightarrow> distinct (map fst m) \<and> list_all (\<lambda>(_, v). v \<noteq> [] \<and> length v \<le> MAX_ENTRIES_PER_KEY) m"

definition witnessed_ok :: "(escrow_key \<times> partially_witnessed_entry) list \<Rightarrow> bool" where
  "witnessed_ok m \<longleftrightarrow> distinct (map fst m) \<and> list_all (\<lambda>(_, e). length (pw_receipts e) \<le> MAX_RECEIPTS) m"

definition escrow_ok :: "escrow \<Rightarrow> bool" where
  "escrow_ok es \<longleftrightarrow>
     map_ok (es_out_of_order es) \<and> map_ok (es_partially_signed es) \<and> witnessed_ok (es_partially_witnessed es) \<and>
     out_of_order_count es + partially_signed_count es \<le> MAX_ESCROW_ENTRIES"


subsection \<open>Maps\<close>

lemma event_count_Cons [simp]: "event_count ((k, v) # m) = length v + event_count m" "event_count [] = 0"
  by (simp_all add: event_count_def)

lemma event_count_update:
  "distinct (map fst m) \<Longrightarrow> event_count (AList.update k v m) + length (queued m k) = event_count m + length v"
proof (induction m)
  case (Cons e m)
  obtain k' v' where e: "e = (k', v')" by (cases e)
  show ?case
  proof (cases "k = k'")
    case False
    with Cons e show ?thesis by (simp add: queued_def)
  qed (simp add: e queued_def)
qed (simp add: queued_def)

lemma event_count_delete_le: "event_count (AList.delete k m) \<le> event_count m"
  by (induction m) (auto simp: AList.delete_eq)

lemma event_count_prune_le: "event_count (prune_map c m) \<le> event_count m"
proof (induction m)
  case (Cons e m)
  obtain k v where e: "e = (k, v)" by (cases e)
  have "length (filter (\<lambda>x. c \<le> ee_escrowed_at x) v) \<le> length v" by simp
  with Cons show ?case by (auto simp: e prune_map_def intro: add_mono trans_le_add2)
qed (simp add: prune_map_def)

lemma map_ok_update: "map_ok m \<Longrightarrow> v \<noteq> [] \<Longrightarrow> length v \<le> MAX_ENTRIES_PER_KEY \<Longrightarrow> map_ok (AList.update k v m)"
proof (induction m)
  case (Cons e m)
  obtain k' v' where "e = (k', v')" by (cases e)
  with Cons show ?case by (cases "k = k'") (auto simp: map_ok_def dom_update)
qed (simp add: map_ok_def)

lemma map_ok_queued: "map_ok m \<Longrightarrow> length (queued m k) \<le> MAX_ENTRIES_PER_KEY"
  by (auto simp: map_ok_def queued_def list_all_iff split: option.splits dest!: map_of_SomeD)

lemma map_ok_push: "map_ok m \<Longrightarrow> map_ok (push_entry k e m)"
  using map_ok_queued [of m k]
  by (cases "queued m k = []") (auto simp: push_entry_def MAX_ENTRIES_PER_KEY_def intro!: map_ok_update)

lemma event_count_push: "map_ok m \<Longrightarrow> event_count (push_entry k e m) \<le> event_count m + 1"
  using event_count_update [of m k "queued m k"] event_count_update [of m k "queued m k @ [e]"]
  by (simp add: push_entry_def map_ok_def)

lemma map_ok_delete: "map_ok m \<Longrightarrow> map_ok (AList.delete k m)"
  by (auto simp: map_ok_def AList.delete_eq list_all_iff distinct_map_filter)

lemma map_ok_prune: "map_ok m \<Longrightarrow> map_ok (prune_map c m)"
proof (induction m)
  case (Cons e m)
  obtain k v where e: "e = (k, v)" by (cases e)
  let ?v = "filter (\<lambda>x. c \<le> ee_escrowed_at x) v"
  have "length ?v \<le> MAX_ENTRIES_PER_KEY"
    using Cons.prems by (intro order_trans [OF length_filter_le]) (simp add: e map_ok_def)
  moreover have "k \<notin> fst ` set (prune_map c m)"
    using Cons.prems by (force simp: e prune_map_def map_ok_def)
  moreover have "map_ok (prune_map c m)" using Cons by (simp add: e map_ok_def)
  moreover have "prune_map c (e # m) = (if ?v \<noteq> [] then [(k, ?v)] else []) @ prune_map c m"
    by (simp add: e prune_map_def)
  ultimately show ?case by (simp add: map_ok_def)
qed (simp add: map_ok_def prune_map_def)

lemma witnessed_ok_update:
  "witnessed_ok m \<Longrightarrow> length (pw_receipts e) \<le> MAX_RECEIPTS \<Longrightarrow> witnessed_ok (AList.update k e m)"
proof (induction m)
  case (Cons x m)
  obtain k' v' where "x = (k', v')" by (cases x)
  with Cons show ?case by (cases "k = k'") (auto simp: witnessed_ok_def dom_update)
qed (simp add: witnessed_ok_def)

lemma witnessed_ok_filter: "witnessed_ok m \<Longrightarrow> witnessed_ok (filter P m)"
  by (auto simp: witnessed_ok_def list_all_iff distinct_map_filter)


subsection \<open>The invariant\<close>

lemma escrow_ok_new: "escrow_ok escrow_new"
  by (simp add: escrow_ok_def escrow_new_def map_ok_def witnessed_ok_def out_of_order_count_def
      partially_signed_count_def MAX_ESCROW_ENTRIES_def)

lemmas count_defs = total_count_def out_of_order_count_def partially_signed_count_def partially_witnessed_count_def

lemma escrow_ok_step: "escrow_step es es' \<Longrightarrow> escrow_ok es \<Longrightarrow> escrow_ok es'"
proof (induction rule: escrow_step.induct)
  case (step_ooo es now p sn s sigs)
  then show ?case
    using event_count_push [of "es_out_of_order es" "(p, sn)" "\<lparr>ee_serder = s, ee_signatures = sigs, ee_escrowed_at = now\<rparr>"]
    by (auto simp: escrow_ok_def escrow_out_of_order_def count_defs map_ok_push)
next
  case (step_ps es now p sn s sigs)
  then show ?case
    using event_count_push [of "es_partially_signed es" "(p, sn)" "\<lparr>ee_serder = s, ee_signatures = sigs, ee_escrowed_at = now\<rparr>"]
    by (auto simp: escrow_ok_def escrow_partially_signed_def count_defs map_ok_push)
next
  case (step_process es p sn)
  then show ?case
    using event_count_delete_le [of "(p, sn + 1)" "es_out_of_order es"]
    by (auto simp: escrow_ok_def process_escrow_def Let_def count_defs map_ok_delete)
next
  case (step_pw es now p sn s sigs bt)
  then show ?case by (simp add: escrow_ok_def escrow_partially_witnessed_def count_defs witnessed_ok_update)
next
  case (step_receipt es p sn w sig)
  then show ?case
    by (auto simp: escrow_ok_def add_witness_receipt_def count_defs split: option.splits intro!: witnessed_ok_update)
next
  case (step_promote es p sn)
  then show ?case
    by (auto simp: escrow_ok_def check_and_promote_witnessed_def count_defs AList.delete_eq witnessed_ok_filter
        split: option.splits)
next
  case (step_prune es now max_age)
  then show ?case
    using event_count_prune_le [of "now - max_age" "es_out_of_order es"]
      event_count_prune_le [of "now - max_age" "es_partially_signed es"]
    by (simp add: escrow_ok_def prune_def Let_def count_defs map_ok_prune witnessed_ok_filter)
qed

lemma escrow_reachable_ok: "escrow_reachable es \<Longrightarrow> escrow_ok es"
  by (induction rule: escrow_reachable.induct) (auto intro: escrow_ok_new escrow_ok_step)


subsection \<open>What the queues do\<close>

lemma queued_push:
  "queued (push_entry k e m) k' =
     (if k' = k \<and> length (queued m k) < MAX_ENTRIES_PER_KEY then queued m k @ [e] else queued m k')"
  by (auto simp: push_entry_def queued_def update_conv')

lemma queued_delete: "queued (AList.delete k m) k' = (if k' = k then [] else queued m k')"
  by (simp add: queued_def delete_conv')

lemma unique_loop_set:
  "distinct acc \<Longrightarrow> distinct (unique_loop acc rs) \<and> set (unique_loop acc rs) = set acc \<union> fst ` set rs"
proof (induction acc rs rule: unique_loop.induct)
  case (2 acc wp x rs)
  then have "distinct (if wp \<notin> set acc then acc @ [wp] else acc)" by simp
  from "2.IH" [OF this] show ?case by auto
qed simp

lemma length_unique_witnesses: "length (unique_witnesses rs) = card (fst ` set rs)"
  using unique_loop_set [of "[]" rs] distinct_card [of "unique_witnesses rs"]
  by (simp add: unique_witnesses_def)

lemma queued_prune:
  "map_ok m \<Longrightarrow> queued (prune_map c m) k = filter (\<lambda>e. c \<le> ee_escrowed_at e) (queued m k)"
proof (induction m)
  case (Cons x m)
  obtain k' v where x: "x = (k', v)" by (cases x)
  have IH: "queued (prune_map c m) k = filter (\<lambda>e. c \<le> ee_escrowed_at e) (queued m k)"
    using Cons by (simp add: map_ok_def)
  have "map_of m k' = None" using Cons.prems by (simp add: x map_ok_def map_of_eq_None_iff)
  then have "queued m k' = []" by (simp add: queued_def)
  with IH show ?case
    by (cases "k = k'"; cases "filter (\<lambda>e. c \<le> ee_escrowed_at e) v = []")
       (auto simp: x prune_map_def queued_def split: if_splits)
qed (simp add: queued_def prune_map_def)

end
