(* ===== verification/Keri_Escrow_Spec.thy ===== *)
theory Keri_Escrow_Spec
  imports Keri_Escrow
begin

section \<open>The escrow as queues\<close>

text \<open>
  What the escrow promises, without its hash maps: a queue of events for every key and kind,
  and one entry for every key that waits for witnesses. \<open>escrow_op\<close> are the calls,
  \<open>escrow_apply\<close> is the code's answer to each and \<open>queues_apply\<close> the specification's; the
  locale \<open>data_refinement\<close> carries the agreement of the answers from one call to any number.
\<close>

subsection \<open>Runs of calls\<close>

fun outcomes :: "('op \<Rightarrow> 's \<Rightarrow> 'out \<times> 's) \<Rightarrow> 's \<Rightarrow> 'op list \<Rightarrow> 'out list" where
  "outcomes apply' s [] = []"
| "outcomes apply' s (c # cs) = (let (out, s') = apply' c s in out # outcomes apply' s' cs)"

locale data_refinement =
  fixes concrete :: "'op \<Rightarrow> 'c \<Rightarrow> 'out \<times> 'c" and abstract :: "'op \<Rightarrow> 'a \<Rightarrow> 'out \<times> 'a"
    and abs :: "'c \<Rightarrow> 'a" and inv :: "'c \<Rightarrow> bool"
  assumes keeps: "inv c \<Longrightarrow> inv (snd (concrete x c))"
    and refines: "inv c \<Longrightarrow> abstract x (abs c) = (fst (concrete x c), abs (snd (concrete x c)))"
begin

lemma outcomes_agree: "inv c \<Longrightarrow> outcomes concrete c xs = outcomes abstract (abs c) xs"
  by (induction xs arbitrary: c) (simp_all add: refines keeps split_beta Let_def)

end


subsection \<open>Calls and answers\<close>

datatype escrow_op =
    Out_Of_Order int string u64 serder bytes
  | Partially_Signed int string u64 serder bytes
  | Process string u64
  | Partially_Witnessed int string u64 serder bytes nat
  | Add_Receipt string u64 string bytes
  | Promote string u64
  | Prune int int
  | Counts

datatype escrow_outcome =
    Quiet
  | Released "escrowed_event list"
  | Added bool
  | Promoted "partially_witnessed_entry option"
  | Counted nat nat nat

fun escrow_apply :: "escrow_op \<Rightarrow> escrow \<Rightarrow> escrow_outcome \<times> escrow" where
  "escrow_apply (Out_Of_Order now p sn s sigs) es = (Quiet, escrow_out_of_order now p sn s sigs es)"
| "escrow_apply (Partially_Signed now p sn s sigs) es = (Quiet, escrow_partially_signed now p sn s sigs es)"
| "escrow_apply (Process p sn) es = map_prod Released id (process_escrow p sn es)"
| "escrow_apply (Partially_Witnessed now p sn s sigs bt) es =
     (Quiet, escrow_partially_witnessed now p sn s sigs bt es)"
| "escrow_apply (Add_Receipt p sn w sig) es = map_prod Added id (add_witness_receipt p sn w sig es)"
| "escrow_apply (Promote p sn) es = map_prod Promoted id (check_and_promote_witnessed p sn es)"
| "escrow_apply (Prune now max_age) es = (Quiet, prune now max_age es)"
| "escrow_apply Counts es =
     (Counted (out_of_order_count es) (partially_signed_count es) (partially_witnessed_count es), es)"


subsection \<open>The specification\<close>

record queues =
  qs_out_of_order :: "escrow_key \<Rightarrow> escrowed_event list"
  qs_partially_signed :: "escrow_key \<Rightarrow> escrowed_event list"
  qs_waiting :: "escrow_key \<rightharpoonup> partially_witnessed_entry"

definition no_queues :: "queues" where
  "no_queues = \<lparr>qs_out_of_order = (\<lambda>_. []), qs_partially_signed = (\<lambda>_. []), qs_waiting = (\<lambda>_. None)\<rparr>"

text \<open>The number of events in all queues, and whether another is let in.\<close>

definition held :: "(escrow_key \<Rightarrow> escrowed_event list) \<Rightarrow> nat" where
  "held q = (\<Sum>k \<in> {k. q k \<noteq> []}. length (q k))"

definition has_room :: "queues \<Rightarrow> bool" where
  "has_room qs \<longleftrightarrow> held (qs_out_of_order qs) + held (qs_partially_signed qs) + card (dom (qs_waiting qs)) < 10000"

definition enqueue :: "escrow_key \<Rightarrow> escrowed_event \<Rightarrow> (escrow_key \<Rightarrow> escrowed_event list) \<Rightarrow> (escrow_key \<Rightarrow> escrowed_event list)" where
  "enqueue k e q = (if length (q k) < 16 then q(k := q k @ [e]) else q)"

fun queues_apply :: "escrow_op \<Rightarrow> queues \<Rightarrow> escrow_outcome \<times> queues" where
  "queues_apply (Out_Of_Order now p sn s sigs) qs =
     (Quiet, if has_room qs then qs\<lparr>qs_out_of_order := enqueue (p, sn) \<lparr>ee_serder = s, ee_signatures = sigs, ee_escrowed_at = now\<rparr>
       (qs_out_of_order qs)\<rparr> else qs)"
| "queues_apply (Partially_Signed now p sn s sigs) qs =
     (Quiet, if has_room qs then qs\<lparr>qs_partially_signed := enqueue (p, sn) \<lparr>ee_serder = s, ee_signatures = sigs, ee_escrowed_at = now\<rparr>
       (qs_partially_signed qs)\<rparr> else qs)"
| "queues_apply (Process p sn) qs =
     (Released (qs_out_of_order qs (p, sn + 1)), qs\<lparr>qs_out_of_order := (qs_out_of_order qs)((p, sn + 1) := [])\<rparr>)"
| "queues_apply (Partially_Witnessed now p sn s sigs bt) qs =
     (Quiet, qs\<lparr>qs_waiting := (qs_waiting qs)((p, sn) \<mapsto> \<lparr>pw_serder = s, pw_signatures = sigs, pw_receipts = [],
       pw_backer_threshold = bt, pw_escrowed_at = now\<rparr>)\<rparr>)"
| "queues_apply (Add_Receipt p sn w sig) qs =
     (case qs_waiting qs (p, sn) of
        Some entry \<Rightarrow>
          if length (pw_receipts entry) < 4096
          then (Added True, qs\<lparr>qs_waiting := (qs_waiting qs)((p, sn) \<mapsto> entry\<lparr>pw_receipts := pw_receipts entry @ [(w, sig)]\<rparr>)\<rparr>)
          else (Added False, qs)
      | None \<Rightarrow> (Added False, qs))"
| "queues_apply (Promote p sn) qs =
     (case qs_waiting qs (p, sn) of
        Some entry \<Rightarrow>
          if pw_backer_threshold entry \<le> card (fst ` set (pw_receipts entry))
          then (Promoted (Some entry), qs\<lparr>qs_waiting := (qs_waiting qs)((p, sn) := None)\<rparr>)
          else (Promoted None, qs)
      | None \<Rightarrow> (Promoted None, qs))"
| "queues_apply (Prune now max_age) qs =
     (let young = (\<lambda>t. now - max_age \<le> t) in
      (Quiet, \<lparr>qs_out_of_order = (\<lambda>k. filter (\<lambda>e. young (ee_escrowed_at e)) (qs_out_of_order qs k)),
         qs_partially_signed = (\<lambda>k. filter (\<lambda>e. young (ee_escrowed_at e)) (qs_partially_signed qs k)),
         qs_waiting = (\<lambda>k. Option.bind (qs_waiting qs k) (\<lambda>e. if young (pw_escrowed_at e) then Some e else None))\<rparr>))"
| "queues_apply Counts qs = (Counted (held (qs_out_of_order qs)) (held (qs_partially_signed qs)) (card (dom (qs_waiting qs))), qs)"


subsection \<open>The escrow keeps the specification\<close>

definition queues_of :: "escrow \<Rightarrow> queues" where
  "queues_of es = \<lparr>qs_out_of_order = queued (es_out_of_order es), qs_partially_signed = queued (es_partially_signed es),
     qs_waiting = map_of (es_partially_witnessed es)\<rparr>"

lemma queued_Cons: "queued ((k, v) # m) k' = (if k' = k then v else queued m k')"
  by (simp add: queued_def)

lemma held_queued: "map_ok m \<Longrightarrow> held (queued m) = event_count m"
proof (induction m)
  case (Cons x m)
  obtain k v where x: "x = (k, v)" by (cases x)
  have v: "v \<noteq> []" and fresh: "queued m k = []" and ok: "map_ok m"
    using Cons.prems by (force simp: x map_ok_def queued_def split: option.split dest!: map_of_SomeD)+
  have keys: "{k'. queued ((k, v) # m) k' \<noteq> []} = insert k {k'. queued m k' \<noteq> []}" using v fresh by (auto simp: queued_Cons)
  have fin: "finite {k'. queued m k' \<noteq> []}"
    by (rule finite_subset [of _ "fst ` set m"]) (auto simp: queued_def split: option.splits dest: map_of_SomeD intro: rev_image_eqI)
  have "(\<Sum>k' \<in> {k'. queued m k' \<noteq> []}. length (queued ((k, v) # m) k')) = (\<Sum>k' \<in> {k'. queued m k' \<noteq> []}. length (queued m k'))"
    using fresh by (intro sum.cong) (auto simp: queued_Cons)
  with Cons.IH [OF ok] fin fresh show ?case unfolding x held_def keys by (simp add: queued_Cons)
qed (simp add: held_def queued_def)

lemma card_dom_map_of: "distinct (map fst m) \<Longrightarrow> card (dom (map_of m)) = length m"
  using distinct_card [of "map fst m"] by (simp add: dom_map_of_conv_image_fst)

lemma queues_counts:
  assumes "escrow_ok es"
  shows "held (qs_out_of_order (queues_of es)) = out_of_order_count es"
    "held (qs_partially_signed (queues_of es)) = partially_signed_count es"
    "card (dom (qs_waiting (queues_of es))) = partially_witnessed_count es"
    "has_room (queues_of es) \<longleftrightarrow> \<not> MAX_ESCROW_ENTRIES \<le> total_count es"
  using assms
  by (auto simp: escrow_ok_def queues_of_def held_queued card_dom_map_of witnessed_ok_def has_room_def count_defs
      MAX_ESCROW_ENTRIES_def)

lemma enqueue_queued: "enqueue k e (queued m) = queued (push_entry k e m)"
  by (auto simp: fun_eq_iff enqueue_def queued_push MAX_ENTRIES_PER_KEY_def)

lemma map_of_filter_entries:
  "distinct (map fst m) \<Longrightarrow>
     map_of (filter (\<lambda>(_, e). P e) m) k = Option.bind (map_of m k) (\<lambda>e. if P e then Some e else None)"
  by (induction m) (auto simp: map_of_eq_None_iff image_iff split: option.split bind_splits)

lemma escrow_apply_step: "snd (escrow_apply x es) = es \<or> escrow_step es (snd (escrow_apply x es))"
  by (cases x) (auto intro: escrow_step.intros)

interpretation escrow: data_refinement escrow_apply queues_apply queues_of escrow_ok
proof
  fix es x
  assume ok: "escrow_ok es"
  then show "escrow_ok (snd (escrow_apply x es))" using escrow_apply_step [of x es] escrow_ok_step by auto
  note counts = queues_counts [OF ok]
  show "queues_apply x (queues_of es) = (fst (escrow_apply x es), queues_of (snd (escrow_apply x es)))"
  proof (cases x)
    case Out_Of_Order
    with counts(4) show ?thesis by (simp add: queues_of_def escrow_out_of_order_def enqueue_queued)
  next
    case Partially_Signed
    with counts(4) show ?thesis by (simp add: queues_of_def escrow_partially_signed_def enqueue_queued)
  next
    case Process
    then show ?thesis by (simp add: queues_of_def process_escrow_def Let_def queued_delete fun_eq_iff)
  next
    case Partially_Witnessed
    then show ?thesis by (simp add: queues_of_def escrow_partially_witnessed_def update_conv')
  next
    case Add_Receipt
    then show ?thesis
      by (simp add: queues_of_def add_witness_receipt_def update_conv' MAX_RECEIPTS_def not_less split: option.split)
  next
    case Promote
    then show ?thesis
      by (simp add: queues_of_def check_and_promote_witnessed_def length_unique_witnesses delete_conv' split: option.split)
  next
    case Prune
    with ok show ?thesis
      by (simp add: queues_of_def prune_def Let_def escrow_ok_def witnessed_ok_def queued_prune map_of_filter_entries fun_eq_iff)
  next
    case Counts
    with counts show ?thesis by simp
  qed
qed

end
