(* ===== verification/Node_Properties.thy ===== *)
theory Node_Properties
  imports Keri_Lmdb Keri_Judge Keri_Escrow_Spec Keri_Scenario
begin

section \<open>Properties of store, direct mode, judge and escrow\<close>

text \<open>
  What the components that keep state promise, over the LMDB implementation of the store
  (\<open>lmdb_store h\<close> for any \<open>heed\<close> that satisfies its documentation) and any sequence of
  messages. The witnesses run the log of \<open>Keri_Scenario\<close> through a node on the store
  \<open>demo_heed\<close>, whose databases are association lists.
\<close>

definition demo_heed :: "(string \<Rightarrow> (string \<times> bytes) list) heed" where
  "demo_heed = Abs_heed alist_heed"

lemma Rep_demo_heed: "Rep_heed demo_heed = alist_heed"
  by (simp add: demo_heed_def Abs_heed_inverse alist_heed_laws)

definition demo_empty :: "string \<Rightarrow> (string \<times> bytes) list" where
  "demo_empty = (\<lambda>_. [])"

definition demo_msg :: "serder \<Rightarrow> siger \<Rightarrow> parsed_message" where
  "demo_msg s sig = \<lparr>pm_serder = s, pm_attachments = [ControllerSigs [sig]]\<rparr>"

lemma demo_store_event:
  "\<exists>e'. lmdb_store_event demo_heed e said ev p sn sigs = Inr e'"
  by (cases sigs) (simp_all add: lmdb_store_event_def put_event_records_def Rep_demo_heed alist_heed_def)

lemma demo_gets:
  "st_get_first_seen (lmdb_store demo_heed) e p n = Inr (sv_fels (lmdb_view demo_heed e) (p, n))"
  "st_get_event (lmdb_store demo_heed) e k = Inr (sv_evts (lmdb_view demo_heed e) k)"
  by (simp_all add: lmdb_store_def lmdb_get_first_seen_def lmdb_get_event_def txn_get_def lmdb_view_def Let_def
      Rep_demo_heed alist_heed_def)

lemma demo_empty_view: "lmdb_view demo_heed demo_empty = \<lparr>sv_evts = Map.empty, sv_kels = (\<lambda>_. None), sv_fels = (\<lambda>_. None),
    sv_dtss = Map.empty, sv_sigs = Map.empty, sv_wigs = Map.empty, sv_rcts = Map.empty, sv_states = Map.empty,
    sv_ooes = (\<lambda>_. None), sv_pses = (\<lambda>_. None), sv_habs = Map.empty\<rparr>"
  by (simp add: lmdb_view_def Let_def Rep_demo_heed alist_heed_def demo_empty_def fun_eq_iff)

lemma demo_sigs_text:
  "separate no_docs [ControllerSigs [sig_of sk s]] = Inr ([], ''A0'' @ idx_raw (sg_indexer (sig_of sk s)))"
  "separate no_docs [ControllerSigs [evil_sig]] = Inr ([], ''A1'' @ idx_raw (sg_indexer evil_sig))"
  by (simp_all add: siger_qb64_def sig_of_def evil_sig_def no_docs_def demo_prims_def demo_indexer_qb64_def)

text \<open>The inception of the log, accepted by a fresh node.\<close>

lemma icp_fields:
  "serder_prefix icp_serder = Inr key_a" "serder_sn icp_serder = Inr 0" "serder_said icp_serder = Inr (said_of icp_body)"
  "serder_ilk icp_serder = Inr ''icp''"
  "serder_prefix evil_serder = Inr key_a" "serder_sn evil_serder = Inr 0" "serder_said evil_serder = Inr (said_of evil_body)"
  "serder_ilk evil_serder = Inr ''icp''"
  by (simp_all add: serder_prefix_def serder_sn_def serder_said_def serder_ilk_def icp_serder_def evil_serder_def
      serder_of_def icp_body_def evil_body_def get_str_def)

lemma demo_verfers:
  "verfers_from_serder no_docs icp_serder = Inr [verfer_of sk_a]"
  "verfers_from_serder no_docs evil_serder = Inr [verfer_of sk_a, verfer_of sk_b]"
  by (simp_all add: verfers_from_serder_def icp_serder_def evil_serder_def serder_of_def icp_body_def evil_body_def
      jstrings_def List.map_filter_simps)

lemma demo_process_icp:
  "\<exists>s'. process_parsed no_docs (lmdb_store demo_heed) (demo_msg icp_serder (sig_of sk_a icp_serder)) demo_empty (\<lambda>_. None)
     = Inr (\<lparr>pr_prefix = key_a, pr_sn = 0, pr_said = said_of icp_body, pr_ilk = ''icp''\<rparr>, s', [key_a \<mapsto> kever_0])"
proof -
  have "kever_new_from_parts no_docs (serder_raw icp_serder) (serder_sad icp_serder) [sig_of sk_a icp_serder] [verfer_of sk_a]
      = Inr kever_0"
    using kever_new_from_parts_eq [of icp_serder no_docs "[sig_of sk_a icp_serder]" "[verfer_of sk_a]"] demo_icp
    by (simp add: icp_fields) (simp add: icp_serder_def serder_of_def)
  moreover obtain s' where "lmdb_store_event demo_heed demo_empty (said_of icp_body) (serder_raw icp_serder) key_a 0
      (opt_bytes (''A0'' @ idx_raw (sg_indexer (sig_of sk_a icp_serder)))) = Inr s'"
    using demo_store_event by blast
  ultimately show ?thesis
    by (simp add: process_parsed_def demo_msg_def icp_fields demo_sigs_text demo_verfers Let_def
        extract_controller_sigs_def serder_take_sad_def lmdb_store_def kever_0_def state_0_def del: separate.simps)
qed

text \<open>Its rotation and interaction, and the node that has read all three.\<close>

lemma demo_update_fields:
  "serder_prefix rot_serder = Inr key_a" "serder_sn rot_serder = Inr 1" "serder_said rot_serder = Inr (said_of rot_body)"
  "serder_ilk rot_serder = Inr ''rot''" "serder_kind rot_serder = JsonKind"
  "serder_prefix ixn_serder = Inr key_a" "serder_sn ixn_serder = Inr 2" "serder_said ixn_serder = Inr (said_of ixn_body)"
  "serder_ilk ixn_serder = Inr ''ixn''" "serder_kind ixn_serder = JsonKind"
  by (simp_all add: serder_prefix_def serder_sn_def serder_said_def serder_ilk_def rot_serder_def ixn_serder_def
      serder_of_def rot_body_def ixn_body_def get_str_def)

lemma demo_process_update:
  assumes "serder_prefix s = Inr key_a" "serder_sn s = Inr n" "serder_said s = Inr d"
    "serder_ilk s = Inr ''rot'' \<or> serder_ilk s = Inr ''ixn''" "serder_kind s = JsonKind"
    and v: "verify_update no_docs kv s [sig_of sk s] = Inr ks'" "ks_backer_threshold ks' = 0"
  shows "\<exists>res e'. process_parsed no_docs (lmdb_store demo_heed) (demo_msg s (sig_of sk s)) e [key_a \<mapsto> kv]
    = Inr (res, e', [key_a \<mapsto> apply_verified_update kv ks'])"
proof -
  have "verify_update_owned no_docs kv (serder_raw s) (serder_sad s) [sig_of sk s] = Inr ks'"
    using verify_update_owned_eq [of s no_docs kv "[sig_of sk s]"] assms by simp
  moreover obtain e' where "lmdb_store_event demo_heed e d (serder_raw s) key_a n
      (opt_bytes (''A0'' @ idx_raw (sg_indexer (sig_of sk s)))) = Inr e'"
    using demo_store_event by blast
  ultimately show ?thesis
    using assms by (auto simp: process_parsed_def demo_msg_def demo_sigs_text Let_def extract_controller_sigs_def
        serder_take_sad_def lmdb_store_def simp del: separate.simps)
qed

definition demo_log :: "parsed_message list" where
  "demo_log = [demo_msg icp_serder (sig_of sk_a icp_serder), demo_msg rot_serder (sig_of sk_b rot_serder),
     demo_msg ixn_serder (sig_of sk_b ixn_serder)]"

lemma demo_log_run:
  "\<exists>e'. direct_run no_docs (lmdb_store demo_heed) (demo_empty, \<lambda>_. None) demo_log = Some (e', [key_a \<mapsto> kever_2])"
proof -
  obtain r0 e0 where "process_parsed no_docs (lmdb_store demo_heed) (demo_msg icp_serder (sig_of sk_a icp_serder)) demo_empty (\<lambda>_. None)
      = Inr (r0, e0, [key_a \<mapsto> kever_0])" using demo_process_icp by blast
  moreover obtain r1 e1 where "process_parsed no_docs (lmdb_store demo_heed) (demo_msg rot_serder (sig_of sk_b rot_serder)) e0 [key_a \<mapsto> kever_0]
      = Inr (r1, e1, [key_a \<mapsto> kever_1])"
    using demo_process_update [OF demo_update_fields(1-3) _ demo_update_fields(5) demo_rot, of e0] demo_update_fields(4)
    by (auto simp: apply_verified_update_def kever_0_def kever_1_def state_1_def)
  moreover obtain r2 e2 where "process_parsed no_docs (lmdb_store demo_heed) (demo_msg ixn_serder (sig_of sk_b ixn_serder)) e1 [key_a \<mapsto> kever_1]
      = Inr (r2, e2, [key_a \<mapsto> kever_2])"
    using demo_process_update [OF demo_update_fields(6-8) _ demo_update_fields(10) demo_ixn, of e1] demo_update_fields(9)
    by (auto simp: apply_verified_update_def kever_1_def kever_2_def state_1_def state_2_def)
  ultimately show ?thesis by (simp add: demo_log_def)
qed

lemma demo_log_bodies: "one_body (set demo_log)"
  using demo_saids_of_log demo_saids_of_log [symmetric]
  by (auto simp: one_body_def demo_log_def demo_msg_def icp_fields demo_update_fields)

text \<open>C26: Storing an event is one transaction. When \<open>store_event\<close> returns, the event, its entry in the log of the
  prefix, its first-seen entry and (if given) its signatures are all there and nothing else
  has changed; reading the log entry or the event gives what was stored.\<close>

theorem store_event_effect:
  assumes "lmdb_store_event h e said ev p sn sigs = Inr e'"
  shows "lmdb_view h e' = with_event said ev p sn sigs (lmdb_view h e) \<and>
    (\<forall>k r. lmdb_get_event h e' k = Inr r \<longrightarrow> r = (if k = said then Some ev else sv_evts (lmdb_view h e) k)) \<and>
    (\<forall>q n r. lmdb_get_kel_said h e' q n = Inr r \<longrightarrow>
       r = (if (q, n) = (p, sn) then Some said else sv_kels (lmdb_view h e) (q, n)))"
  using lmdb.store_event [of h e said ev p sn sigs e'] lmdb.read_event [of h e said ev p sn sigs e'] assms
  by (simp add: lmdb_store_def)

theorem store_event_effect_witness:
  "\<exists>e'. lmdb_store_event demo_heed demo_empty ''E1'' ''raw'' ''D0'' 0 None = Inr e' \<and>
     sv_kels (lmdb_view demo_heed e') (''D0'', 0) = Some ''E1'' \<and> lmdb_get_event demo_heed e' ''E1'' = Inr (Some ''raw'')"
proof -
  obtain e' where e': "lmdb_store_event demo_heed demo_empty ''E1'' ''raw'' ''D0'' 0 None = Inr e'"
    using demo_store_event by blast
  note eff = store_event_effect [OF e']
  then have v: "lmdb_view demo_heed e' = with_event ''E1'' ''raw'' ''D0'' 0 None (lmdb_view demo_heed demo_empty)" by blast
  have "lmdb_get_event demo_heed e' ''E1'' = Inr (Some ''raw'')"
    using demo_gets(2) [of e' "''E1''"] by (simp add: lmdb_store_def v with_event_def)
  with e' v show ?thesis by (simp add: with_event_def)
qed

text \<open>C27: The latest sequence number. On a log database of keys of prefixes without a dot, \<open>latest_sn\<close> of such a prefix is
  the greatest sequence number its log holds, and nothing exactly when the log is empty.\<close>

theorem latest_sn_is_maximum:
  assumes "lmdb_latest_sn h e p = Inr r" "lmdb_wf h e" "CHR ''.'' \<notin> set p"
  shows "case r of None \<Rightarrow> \<forall>n. sv_kels (lmdb_view h e) (p, n) = None
    | Some n \<Rightarrow> sv_kels (lmdb_view h e) (p, n) \<noteq> None \<and> (\<forall>m. sv_kels (lmdb_view h e) (p, m) \<noteq> None \<longrightarrow> m \<le> n)"
  using lmdb.latest_is_max [of h e p r] assms by (simp add: lmdb_store_def)

theorem latest_sn_is_maximum_witness:
  "\<exists>e r. lmdb_append_kel demo_heed demo_empty ''D0'' 7 ''E1'' = Inr e \<and> lmdb_latest_sn demo_heed e ''D0'' = Inr (Some 7)"
proof -
  let ?e = "demo_empty(''kels'' := [(sn_key ''D0'' 7, ''E1'')])"
  have e: "lmdb_append_kel demo_heed demo_empty ''D0'' 7 ''E1'' = Inr ?e"
    by (simp add: lmdb_append_kel_def txn_put_def Rep_demo_heed alist_heed_def demo_empty_def)
  obtain r where r: "lmdb_latest_sn demo_heed ?e ''D0'' = Inr r"
    by (simp add: lmdb_latest_sn_def lmdb_get_kel_def Rep_demo_heed alist_heed_def)
  have wf: "lmdb_wf demo_heed ?e" by (auto simp: lmdb_wf_def Rep_demo_heed alist_heed_def split: if_splits)
  have kels: "sv_kels (lmdb_view demo_heed ?e) (''D0'', n) = (if n = 7 then Some ''E1'' else None)" for n
    by (simp add: lmdb_view_def Let_def Rep_demo_heed alist_heed_def)
  from latest_sn_is_maximum [OF r wf] have "r = Some 7"
    unfolding kels by (auto split: option.splits if_splits)
  with e r show ?thesis by blast
qed

lemma demo_never_full: "never_full (lmdb_store demo_heed)"
  using demo_store_event by (simp add: never_full_def lmdb_store_def)

lemma direct_mode_in_step:
  assumes "direct_run pr (lmdb_store h) (e, \<lambda>_. None) ms = Some (e', kevers)" "kevers p = Some kv"
  shows "ks_prefix (kv_state kv) = p \<and> reachable pr kv \<and> \<not> ks_delegated (kv_state kv) \<and>
    sv_kels (lmdb_view h e') (p, ks_sn (kv_state kv)) = Some (ks_last_event_digest (kv_state kv))"
  using lmdb.direct_run_in_step [OF assms(1) in_step_empty] assms(2)
  by (auto simp: in_step_def verified_def keyed_def)

text \<open>C28: A node has the logs it verified, all of each. Send a fresh direct-mode node any messages in any order, of which no
  two claim one digest for different bodies. Then for every prefix there is one list of messages, taken from
  those sent in their order, such that the verifier the node keeps is what replaying the list from its inception gives (none if
  it is empty); the log of the prefix in the store has the messages of the list at the sequence numbers 0, 1, ... with
  their bytes, first-seen entries and signatures, and nothing else. Where the store does not fail the list is
  exactly what the messages amount to: each message of the prefix is taken that verifies, with its receipts, as the continuation of those
  taken before it (\<open>accepted\<close>), so nothing valid is refused either. The verifier stands under its own prefix, is not delegated, and
  the log entry at its sequence number, the last one, is the event it stands at.\<close>

theorem store_holds_the_logs:
  assumes "direct_run pr (lmdb_store h) (e, \<lambda>_. None) ms = Some (e', kevers)"
    and "sv_kels (lmdb_view h e) = (\<lambda>_. None)" "one_body (set ms)" "length ms \<le> 2 ^ 64"
  shows "\<exists>L. (\<forall>p. subseq (L p) ms \<and> replay pr (L p) = kevers p \<and> (kevers p = None \<longrightarrow> L p = []) \<and>
    (\<forall>n. if unat n < length (L p) then logged_at pr (lmdb_view h e') p n (L p ! unat n)
         else sv_kels (lmdb_view h e') (p, n) = None) \<and>
    (\<forall>kv. kevers p = Some kv \<longrightarrow> ks_prefix (kv_state kv) = p \<and> reachable pr kv \<and> \<not> ks_delegated (kv_state kv) \<and>
       ks_sn (kv_state kv) + 1 = of_nat (length (L p)) \<and>
       sv_kels (lmdb_view h e') (p, ks_sn (kv_state kv)) = Some (ks_last_event_digest (kv_state kv)))) \<and>
    (never_full (lmdb_store h) \<longrightarrow> (\<forall>p. L p = accepted pr p ms))"
proof -
  from lmdb.fresh_node_logs [OF assms] obtain L where exact: "never_full (lmdb_store h) \<longrightarrow> (\<forall>p. L p = accepted pr p ms)"
    and L: "holds_log pr (lmdb_view h e') kevers p (L p) \<and> subseq (L p) ms" for p by blast
  show ?thesis
    using L direct_mode_in_step [OF assms(1)] replay_sn [of pr "L p" for p] exact
    by (intro exI [of _ L] allI conjI impI) (simp_all add: holds_log_def)
qed

theorem store_holds_the_logs_witness:
  "\<exists>e' kevers. direct_run no_docs (lmdb_store demo_heed) (demo_empty, \<lambda>_. None) demo_log = Some (e', kevers) \<and>
     kevers key_a = Some kever_2 \<and> replay no_docs demo_log = Some kever_2 \<and> accepted no_docs key_a demo_log = demo_log \<and>
     logged_at no_docs (lmdb_view demo_heed e') key_a 1 (demo_log ! 1) \<and>
     sv_kels (lmdb_view demo_heed e') (key_a, 3) = None \<and> sv_kels (lmdb_view demo_heed e') (key_b, 0) = None"
proof -
  obtain e' where run: "direct_run no_docs (lmdb_store demo_heed) (demo_empty, \<lambda>_. None) demo_log = Some (e', [key_a \<mapsto> kever_2])"
    using demo_log_run by blast
  have "sv_kels (lmdb_view demo_heed demo_empty) = (\<lambda>_. None)" "length demo_log \<le> 2 ^ 64"
    by (simp_all add: demo_empty_view demo_log_def)
  from store_holds_the_logs [OF run this(1) demo_log_bodies this(2)] demo_never_full obtain L where
    "\<forall>p. subseq (L p) demo_log \<and> replay no_docs (L p) = [key_a \<mapsto> kever_2] p \<and> ([key_a \<mapsto> kever_2] p = None \<longrightarrow> L p = []) \<and>
      (\<forall>n. if unat n < length (L p) then logged_at no_docs (lmdb_view demo_heed e') p n (L p ! unat n)
         else sv_kels (lmdb_view demo_heed e') (p, n) = None)" "\<forall>p. L p = accepted no_docs p demo_log"
    by blast
  then have L: "subseq (L p) demo_log" "replay no_docs (L p) = [key_a \<mapsto> kever_2] p" "[key_a \<mapsto> kever_2] p = None \<longrightarrow> L p = []"
      "if unat n < length (L p) then logged_at no_docs (lmdb_view demo_heed e') p n (L p ! unat n)
       else sv_kels (lmdb_view demo_heed e') (p, n) = None" "L p = accepted no_docs p demo_log" for p n
    by blast+
  have len: "(3 :: u64) = of_nat (length (L key_a))" "length (L key_a) \<le> 3"
    using replay_sn [of no_docs "L key_a" kever_2] L(2) [of key_a] list_emb_length [OF L(1) [of key_a]]
    by (simp_all add: kever_2_def state_2_def demo_log_def)
  then have "length (L key_a) = 3" by (auto simp: le_Suc_eq numeral_3_eq_3)
  moreover from this have "L key_a = demo_log"
    using subseq_same_length [OF L(1) [of key_a]] by (simp add: demo_log_def)
  moreover have "L key_b = []" using L(3) [of key_b] by simp
  ultimately show ?thesis
    using run L(2,5) [of key_a] L(4) [of 1 key_a] L(4) [of 3 key_a] L(4) [of 0 key_b] by simp
qed

text \<open>A log grows by verified events only: a message a node accepts leaves all logs and verifiers alone, or exactly its entry is added.\<close>

lemma log_grows_by_verified_events:
  assumes "process_parsed pr (lmdb_store h) m e kevers = Inr (res, e', kevers')" "keyed kevers"
  shows "kevers' = kevers \<and> sv_kels (lmdb_view h e') = sv_kels (lmdb_view h e) \<or>
    (\<exists>kv' couples. (incepts pr m kevers kv' \<or> continues pr m kevers kv') \<and>
       witnessed pr (serder_raw (pm_serder m)) couples (kv_state kv') \<and>
       kevers' = kevers(ks_prefix (kv_state kv') \<mapsto> kv') \<and>
       sv_kels (lmdb_view h e') = (sv_kels (lmdb_view h e))((ks_prefix (kv_state kv'), ks_sn (kv_state kv')) \<mapsto>
         ks_last_event_digest (kv_state kv')))"
  using lmdb.process_parsed_log [OF assms] by blast

lemma demo_about [simp]:
  "about key_a (demo_msg icp_serder sig)" "about key_a (demo_msg rot_serder sig)" "about key_a (demo_msg ixn_serder sig)"
  "\<not> about key_a (demo_msg dip_serder sig)"
  using not_self_addressing [of "said_of dip_body"]
  by (simp_all add: about_def demo_msg_def icp_fields demo_update_fields)
    (simp add: serder_prefix_def dip_serder_def serder_of_def dip_body_def get_str_def said_of_def)

text \<open>C29: Identifiers do not interfere. Two nodes that start without verifiers on the same store (which does not fail) and are sent
  the same messages of an identifier in the same order have the same verifier and the same log of it,
  whatever messages of other identifiers, receipts or unreadable ones stand between and however they are interleaved.\<close>

theorem interleaving_is_irrelevant:
  assumes "never_full (lmdb_store h)" "filter (about p) ms = filter (about p) ms'"
    and "direct_run pr (lmdb_store h) (e, \<lambda>_. None) ms = Some (e1, kevers1)"
    and "direct_run pr (lmdb_store h) (e, \<lambda>_. None) ms' = Some (e2, kevers2)"
  shows "kevers1 p = kevers2 p \<and> (\<forall>n. sv_kels (lmdb_view h e1) (p, n) = sv_kels (lmdb_view h e2) (p, n))"
  using lmdb.interleaved_runs [OF assms] by blast

theorem interleaving_is_irrelevant_witness:
  "\<exists>e2 kevers2. direct_run no_docs (lmdb_store demo_heed) (demo_empty, \<lambda>_. None)
      (demo_msg dip_serder (sig_of sk_b dip_serder) # demo_log) = Some (e2, kevers2) \<and> kevers2 key_a = Some kever_2"
proof -
  obtain e1 where r1: "direct_run no_docs (lmdb_store demo_heed) (demo_empty, \<lambda>_. None) demo_log = Some (e1, [key_a \<mapsto> kever_2])"
    using demo_log_run by blast
  obtain e2 kevers2 where r2: "direct_run no_docs (lmdb_store demo_heed) (demo_empty, \<lambda>_. None)
      (demo_msg dip_serder (sig_of sk_b dip_serder) # demo_log) = Some (e2, kevers2)"
    unfolding direct_run_steps by (metis surj_pair)
  have "filter (about key_a) demo_log = filter (about key_a) (demo_msg dip_serder (sig_of sk_b dip_serder) # demo_log)"
    by (simp add: demo_log_def)
  from interleaving_is_irrelevant [OF demo_never_full this r1 r2] r2 show ?thesis by auto
qed

lemma direct_mode_delegated:
  "serder_ilk (pm_serder m) = Inr ''dip'' \<Longrightarrow> \<not> is_ok (process_parsed pr st m s kevers)"
  "serder_ilk (pm_serder m) = Inr ''drt'' \<Longrightarrow> serder_prefix (pm_serder m) = Inr p \<Longrightarrow> kevers p \<noteq> None \<Longrightarrow>
    \<not> is_ok (process_parsed pr st m s kevers)"
proof -
  assume dip: "serder_ilk (pm_serder m) = Inr ''dip''"
  then have "get_str (serder_sad (pm_serder m)) ''t'' = Some ''dip''" by (simp add: serder_ilk_def)
  then have "kever_new_from_parts pr raw (serder_sad (pm_serder m)) sigs vs \<noteq> Inr kv" for raw sigs vs kv
    by (auto dest: kever_new_from_parts_facts)
  with dip show "\<not> is_ok (process_parsed pr st m s kevers)"
    by (auto simp: is_ok_iff process_parsed_def Let_def bindR_eq_Inr serder_take_sad_def if_Inl_eq_Inr simp del: not_None_eq)
next
  assume drt: "serder_ilk (pm_serder m) = Inr ''drt''" and p: "serder_prefix (pm_serder m) = Inr p" and "kevers p \<noteq> None"
  then obtain kv where kv: "kevers p = Some kv" by blast
  from drt have "get_str (serder_sad (pm_serder m)) ''t'' = Some ''drt''" by (simp add: serder_ilk_def)
  then have "verify_update_owned pr kv raw (serder_sad (pm_serder m)) sigs \<noteq> Inr ks'" for raw sigs ks'
    using verify_update_owned_facts(3) by fastforce
  with drt p kv show "\<not> is_ok (process_parsed pr st m s kevers)"
    by (auto simp: is_ok_iff process_parsed_def Let_def bindR_eq_Inr serder_take_sad_def)
qed

text \<open>C30: Direct mode takes no delegated events: a delegated inception is always refused, and so is a delegated rotation
  of a known identifier, so a delegated identifier never has a verifier there.\<close>

theorem direct_mode_refuses_delegated:
  assumes "serder_ilk (pm_serder m) = Inr ''dip'' \<or>
    serder_ilk (pm_serder m) = Inr ''drt'' \<and> serder_prefix (pm_serder m) = Inr p \<and> kevers p \<noteq> None"
  shows "\<not> is_ok (process_parsed pr st m s kevers)"
  using assms by (elim disjE conjE) (rule direct_mode_delegated, assumption+)+

theorem direct_mode_refuses_delegated_witness:
  "\<not> is_ok (process_parsed no_docs (lmdb_store demo_heed) (demo_msg dip_serder (sig_of sk_b dip_serder)) demo_empty (\<lambda>_. None)) \<and>
   \<not> is_ok (process_parsed no_docs (lmdb_store demo_heed) (demo_msg drt_serder (sig_of sk_a drt_serder)) demo_empty
      [said_of dip_body \<mapsto> kever_d0])"
proof -
  have "serder_ilk dip_serder = Inr ''dip''" "serder_ilk drt_serder = Inr ''drt''" "serder_prefix drt_serder = Inr (said_of dip_body)"
    by (simp_all add: serder_ilk_def serder_prefix_def dip_serder_def drt_serder_def serder_of_def dip_body_def drt_body_def get_str_def)
  then show ?thesis
    by (intro conjI direct_mode_refuses_delegated [of _ "said_of dip_body"]) (simp_all add: demo_msg_def)
qed

text \<open>C31: First seen, always seen. Whatever messages a judge is sent, its store and verifiers stay in step, its duplicitous
  event log keeps its invariant (one piece of evidence per prefix, every prefix with evidence
  flagged, flags and evidence equal until the log is full), no entry of the first-seen log
  is ever replaced, and no flag is ever lifted.\<close>

theorem judge_first_seen_policy:
  "judge_inv pr (lmdb_view h) (judge_run pr (lmdb_store h) (judge_new e) ms) \<and>
   sv_fels (lmdb_view h e) \<subseteq>\<^sub>m sv_fels (lmdb_view h (jd_store (judge_run pr (lmdb_store h) (judge_new e) ms))) \<and>
   sv_fels (lmdb_view h (jd_store (judge_run pr (lmdb_store h) (judge_new e) ms))) \<subseteq>\<^sub>m
     sv_fels (lmdb_view h (jd_store (judge_run pr (lmdb_store h) (judge_new e) (ms @ ms')))) \<and>
   jd_duplicitous (judge_run pr (lmdb_store h) (judge_new e) ms) \<subseteq>
     jd_duplicitous (judge_run pr (lmdb_store h) (judge_new e) (ms @ ms'))"
proof -
  have append: "judge_run pr st j (ms @ ms') = judge_run pr st (judge_run pr st j ms) ms'" for st and j :: "'e judge"
    by (induction ms arbitrary: j) simp_all
  from lmdb.judge_run_inv [OF judge_inv_new, of pr h e ms]
  show ?thesis
    unfolding append using lmdb.judge_run_inv [of pr h "judge_run pr (lmdb_store h) (judge_new e) ms" ms']
    by (simp add: judge_new_def)
qed

text \<open>C32: Evidence of duplicity is genuine. When a judge reports duplicity for a message, the evidence names the prefix, sequence number
  and digest of the message and holds its bytes, beside another digest, which the first-seen log has at that
  place, and the bytes on record for it. The message is an inception that verifies with its own keys and signatures and gives
  a verifier of that prefix and digest, or it is a rotation or interaction that carries a quorum of the keys the
  judge's verifier of the prefix holds. The prefix was not flagged and is from then on; the store and the verifiers stay; while
  the log of evidence has room, this is the one entry of the prefix.\<close>

theorem duplicity_is_genuine:
  assumes "judge_message pr (lmdb_store h) m j = Inr (DuplicityDetected ev, j')"
  shows "serder_prefix (pm_serder m) = Inr (de_prefix ev) \<and> serder_sn (pm_serder m) = Inr (de_sn ev) \<and>
    serder_said (pm_serder m) = Inr (de_duplicitous_said ev) \<and> de_duplicitous_event ev = serder_raw (pm_serder m) \<and>
    sv_fels (lmdb_view h (jd_store j)) (de_prefix ev, de_sn ev) = Some (de_first_seen_said ev) \<and>
    sv_evts (lmdb_view h (jd_store j)) (de_first_seen_said ev) = Some (de_first_seen_event ev) \<and>
    de_duplicitous_said ev \<noteq> de_first_seen_said ev \<and>
    (serder_ilk (pm_serder m) = Inr ''icp'' \<and>
       (\<exists>vs kv. verfers_from_serder pr (pm_serder m) = Inr vs \<and>
          kever_new pr (pm_serder m) (extract_controller_sigs (pm_attachments m)) vs = Inr kv \<and>
          ks_prefix (kv_state kv) = de_prefix ev \<and> ks_sn (kv_state kv) = de_sn ev \<and>
          ks_last_event_digest (kv_state kv) = de_duplicitous_said ev) \<or>
     serder_ilk (pm_serder m) \<in> {Inr ''rot'', Inr ''ixn'', Inr ''drt''} \<and>
       (\<exists>kv. jd_kevers j (de_prefix ev) = Some kv \<and>
          signed_by pr (serder_raw (pm_serder m)) (extract_controller_sigs (pm_attachments m)) (kv_state kv))) \<and>
    verdict_of j (de_prefix ev) \<noteq> Duplicitous \<and> verdict_of j' (de_prefix ev) = Duplicitous \<and>
    jd_store j' = jd_store j \<and> jd_kevers j' = jd_kevers j \<and>
    (del_inv j \<and> length (jd_del j) < MAX_DEL_TOTAL \<longrightarrow> evidence_for j' (de_prefix ev) = [ev])"
proof -
  note e = lmdb.duplicity_evidence_sound [OF assms]
  from e(8) obtain ilk where ilk: "serder_ilk (pm_serder m) = Inr ilk" "trial_verify pr (jd_kevers j) m (de_prefix ev) ilk = Inr ()" by blast
  have "evidence_for j' (de_prefix ev) = [ev]" if "del_inv j" "length (jd_del j) < MAX_DEL_TOTAL"
    using record_duplicity_evidence [of j ev] that e(9,10) by (auto simp: del_inv_def)
  moreover have "ks_prefix (kv_state kv) = de_prefix ev \<and> ks_sn (kv_state kv) = de_sn ev \<and>
      ks_last_event_digest (kv_state kv) = de_duplicitous_said ev"
    if "kever_new pr (pm_serder m) sigs vs = Inr kv" for sigs vs kv
    using kever_new_fields [OF that] e(1-3) by simp
  with trial_verify_Inr [OF ilk(2,1)] ilk(1)
  have "serder_ilk (pm_serder m) = Inr ''icp'' \<and>
       (\<exists>vs kv. verfers_from_serder pr (pm_serder m) = Inr vs \<and>
          kever_new pr (pm_serder m) (extract_controller_sigs (pm_attachments m)) vs = Inr kv \<and>
          ks_prefix (kv_state kv) = de_prefix ev \<and> ks_sn (kv_state kv) = de_sn ev \<and>
          ks_last_event_digest (kv_state kv) = de_duplicitous_said ev) \<or>
     serder_ilk (pm_serder m) \<in> {Inr ''rot'', Inr ''ixn'', Inr ''drt''} \<and>
       (\<exists>kv. jd_kevers j (de_prefix ev) = Some kv \<and>
          signed_by pr (serder_raw (pm_serder m)) (extract_controller_sigs (pm_attachments m)) (kv_state kv))"
    by auto
  moreover have "verdict_of j (de_prefix ev) \<noteq> Duplicitous" "verdict_of j' (de_prefix ev) = Duplicitous"
    "jd_store j' = jd_store j" "jd_kevers j' = jd_kevers j"
    using e(9) by (simp_all add: e(10) verdict_of_def)
  ultimately show ?thesis using e(1-7) by blast
qed

text \<open>A judge that has seen the inception of the log is sent the other inception of the same prefix.\<close>

lemma demo_judge:
  "\<exists>j ev j'. judge_message no_docs (lmdb_store demo_heed) (demo_msg icp_serder (sig_of sk_a icp_serder)) (judge_new demo_empty)
       = Inr (Accepted \<lparr>pr_prefix = key_a, pr_sn = 0, pr_said = said_of icp_body, pr_ilk = ''icp''\<rparr>, j) \<and>
     judge_message no_docs (lmdb_store demo_heed) (demo_msg evil_serder evil_sig) j = Inr (DuplicityDetected ev, j') \<and>
     de_prefix ev = key_a"
proof -
  obtain s' where r: "process_parsed no_docs (lmdb_store demo_heed) (demo_msg icp_serder (sig_of sk_a icp_serder)) demo_empty
      (\<lambda>_. None) = Inr (\<lparr>pr_prefix = key_a, pr_sn = 0, pr_said = said_of icp_body, pr_ilk = ''icp''\<rparr>, s', [key_a \<mapsto> kever_0])"
    using demo_process_icp by blast
  from lmdb.process_parsed_logged [OF r] have v: "sv_fels (lmdb_view demo_heed s') (key_a, 0) = Some (said_of icp_body)"
    "sv_evts (lmdb_view demo_heed s') (said_of icp_body) = Some (serder_raw icp_serder)"
    by (simp_all add: keyed_def demo_msg_def fun_eq_iff)
  let ?j = "\<lparr>jd_store = s', jd_kevers = [key_a \<mapsto> kever_0], jd_duplicitous = {}, jd_del = []\<rparr>"
  let ?ev = "\<lparr>de_prefix = key_a, de_sn = 0, de_first_seen_said = said_of icp_body, de_duplicitous_said = said_of evil_body,
     de_first_seen_event = serder_raw icp_serder, de_duplicitous_event = serder_raw evil_serder\<rparr>"
  have a: "judge_message no_docs (lmdb_store demo_heed) (demo_msg icp_serder (sig_of sk_a icp_serder)) (judge_new demo_empty)
       = Inr (Accepted \<lparr>pr_prefix = key_a, pr_sn = 0, pr_said = said_of icp_body, pr_ilk = ''icp''\<rparr>, ?j)"
    using r by (simp add: judge_message_def judge_new_def pass_on_def demo_gets demo_empty_view demo_msg_def icp_fields)
  have t: "trial_verify no_docs [key_a \<mapsto> kever_0] (demo_msg evil_serder evil_sig) key_a ''icp'' = Inr ()"
    using demo_evil by (simp add: trial_verify_def demo_msg_def demo_verfers extract_controller_sigs_def)
  have "judge_message no_docs (lmdb_store demo_heed) (demo_msg evil_serder evil_sig) ?j =
      Inr (DuplicityDetected ?ev, snd (record_duplicity ?ev ?j))"
    using t v demo_saids_differ
    by (simp add: judge_message_def verify_for_duplicity_def demo_gets case_prod_beta demo_msg_def icp_fields)
  with a show ?thesis by (intro exI [of _ ?j] exI [of _ ?ev] exI conjI) simp_all
qed

theorem duplicity_is_genuine_witness:
  "\<exists>j ev j'. judge_message no_docs (lmdb_store demo_heed) (demo_msg evil_serder evil_sig) j = Inr (DuplicityDetected ev, j') \<and>
     verdict_of j' key_a = Duplicitous"
proof -
  from demo_judge obtain j ev j' where
    r: "judge_message no_docs (lmdb_store demo_heed) (demo_msg evil_serder evil_sig) j = Inr (DuplicityDetected ev, j')"
    and p: "de_prefix ev = key_a" by blast
  have "verdict_of j' key_a = Duplicitous" using duplicity_is_genuine [OF r] unfolding p by (elim conjE)
  with r show ?thesis by (intro exI conjI)
qed

text \<open>A duplicitous prefix is dead: every further event of it but a receipt is refused.\<close>

lemma duplicitous_prefix_is_dead:
  assumes "verdict_of j p = Duplicitous" "serder_prefix (pm_serder m) = Inr p" "serder_ilk (pm_serder m) \<noteq> Inr ''rct''"
  shows "\<not> is_ok (judge_message pr st m j)"
  using judge_message_duplicitous [of m p j pr st] assms by (simp add: verdict_of_def split: if_splits)

lemma duplicitous_prefix_is_dead_witness:
  "\<not> is_ok (judge_message no_docs (lmdb_store demo_heed) (demo_msg icp_serder (sig_of sk_a icp_serder))
     ((judge_new demo_empty)\<lparr>jd_duplicitous := {key_a}\<rparr>))"
  by (rule duplicitous_prefix_is_dead [of _ key_a]) (simp_all add: verdict_of_def demo_msg_def icp_fields)

text \<open>C34: Escrow is bounded. Whatever operations it goes through, an escrow holds at most 10000 out-of-order and partially
  signed events together, at most 16 of each kind under one key, and at most 4096 receipts
  for each partially witnessed event.\<close>

theorem escrow_bounded:
  assumes "escrow_reachable es"
  shows "out_of_order_count es + partially_signed_count es \<le> 10000 \<and>
    length (queued (es_out_of_order es) k) \<le> 16 \<and> length (queued (es_partially_signed es) k) \<le> 16 \<and>
    (\<forall>e. map_of (es_partially_witnessed es) k = Some e \<longrightarrow> length (pw_receipts e) \<le> 4096)"
proof -
  have ok: "escrow_ok es" by (rule escrow_reachable_ok [OF assms])
  then have "length (pw_receipts e) \<le> 4096" if "map_of (es_partially_witnessed es) k = Some e" for e
    using that by (auto simp: escrow_ok_def witnessed_ok_def list_all_iff MAX_RECEIPTS_def dest!: map_of_SomeD)
  with ok show ?thesis
    using map_ok_queued [of "es_out_of_order es" k] map_ok_queued [of "es_partially_signed es" k]
    by (simp add: escrow_ok_def MAX_ESCROW_ENTRIES_def MAX_ENTRIES_PER_KEY_def)
qed

theorem escrow_bounded_witness:
  "length (queued (es_out_of_order (escrow_out_of_order 0 ''D0'' 1 icp_serder [] escrow_new)) (''D0'', 1)) \<le> 16"
  using escrow_bounded [OF escrow_reachable.step [OF escrow_reachable.start escrow_step.step_ooo]] by blast

text \<open>C35: The escrow is a set of queues. Whatever calls it gets, in whatever order, the escrow answers each as its specification does:
  an event waits at the end of the queue of its key and kind unless that has 16 or all of them together 10000;
  the events after a sequence number are released together in the order they came, once; a receipt is added to the entry of its key
  while that has less than 4096; an entry is promoted, and leaves, exactly when its receipts name at
  least as many distinct witnesses as its threshold; pruning drops what is older than the age given and nothing else;
  and the three counts are the numbers of what waits.\<close>

theorem escrow_is_queues:
  "outcomes escrow_apply escrow_new ops = outcomes queues_apply no_queues ops"
proof -
  have "queues_of escrow_new = no_queues" by (simp add: queues_of_def escrow_new_def no_queues_def queued_def fun_eq_iff)
  with escrow.outcomes_agree [OF escrow_ok_new, of ops] show ?thesis by simp
qed

text \<open>A witness that receipts twice counts once; two witnesses promote the event.\<close>

lemma demo_promotion:
  "outcomes escrow_apply escrow_new [Partially_Witnessed 0 ''D0'' 1 icp_serder [] 2, Add_Receipt ''D0'' 1 ''B1'' ''t'',
      Add_Receipt ''D0'' 1 ''B1'' ''s'', Promote ''D0'' 1, Add_Receipt ''D0'' 1 ''B2'' ''u'', Promote ''D0'' 1, Promote ''D0'' 1]
    = [Quiet, Added True, Added True, Promoted None, Added True,
       Promoted (Some \<lparr>pw_serder = icp_serder, pw_signatures = [],
         pw_receipts = [(''B1'', ''t''), (''B1'', ''s''), (''B2'', ''u'')], pw_backer_threshold = 2, pw_escrowed_at = 0\<rparr>),
       Promoted None]"
  by (simp add: escrow_partially_witnessed_def escrow_new_def add_witness_receipt_def check_and_promote_witnessed_def
      unique_witnesses_def MAX_RECEIPTS_def)

end
