(* ===== verification/Keri_Hab_Demo.thy ===== *)
theory Keri_Hab_Demo
  imports Keri_Witness Keri_Hab_Log Keri_Habery Keri_Demo_Wire
begin

section \<open>A hab on a concrete instance\<close>

text \<open>
  The instance of \<open>Keri_Demo\<close>, with a digest that tells how long the message is, with
  primitives, signatures and digests that are texts without escapes, and with a reader of
  the JSON it prints. It satisfies the laws that the hab properties assume, and the hab
  \<open>bob\<close> is incepted, rotated and used on it.
\<close>

definition hab_hash :: "bytes \<Rightarrow> bytes" where
  "hab_hash m = replicate (length m mod 44) (CHR ''a'') @ replicate (43 - length m mod 44) (CHR ''b'')"

definition hab_sign :: "bytes \<Rightarrow> bytes \<Rightarrow> bytes" where
  "hab_sign sk m = take 64 (sk @ filter (\<lambda>c. plain [c]) m @ replicate 64 (CHR ''s''))"

definition hab_verify :: "bytes \<Rightarrow> bytes \<Rightarrow> bytes \<Rightarrow> bool" where
  "hab_verify pk m sig = (sig = hab_sign pk m)"

definition hab_matter_new :: "string \<Rightarrow> bytes \<Rightarrow> string + matter" where
  "hab_matter_new c r = (if plain r then demo_matter_new c r else Inl ''alphabet'')"

definition hab_indexer_new :: "string \<Rightarrow> nat \<Rightarrow> nat option \<Rightarrow> bytes \<Rightarrow> string + indexer" where
  "hab_indexer_new c i o' r =
     (if plain (c @ r) then demo_indexer_new c i o' r else Inl ''alphabet'')"

definition hab_read :: "json list \<Rightarrow> bytes \<Rightarrow> string + json" where
  "hab_read docs bs = (case demo_read docs bs of Inr v \<Rightarrow> Inr v | Inl _ \<Rightarrow> demo_parse bs)"

definition hab_demo :: "json list \<Rightarrow> prims" where
  "hab_demo docs =
     (demo_prims docs)\<lparr>matter_new := hab_matter_new, indexer_new := hab_indexer_new, ed25519_sign := hab_sign,
       ed25519_verify := hab_verify, h_blake3_256 := hab_hash, json_from_slice := hab_read docs\<rparr>"

lemma hab_demo_sel [simp]:
  "matter_new (hab_demo docs) = hab_matter_new"
  "matter_from_qb64 (hab_demo docs) = demo_matter_from_qb64"
  "matter_qb64 (hab_demo docs) = demo_matter_qb64"
  "matter_fs (hab_demo docs) = demo_matter_fs"
  "indexer_new (hab_demo docs) = hab_indexer_new"
  "indexer_from_qb64 (hab_demo docs) = demo_indexer_from_qb64"
  "indexer_qb64 (hab_demo docs) = demo_indexer_qb64"
  "indexer_fs (hab_demo docs) = (\<lambda>_. Some 66)"
  "counter_new (hab_demo docs) = demo_counter_new"
  "counter_qb64 (hab_demo docs) = demo_counter_qb64"
  "ed25519_public (hab_demo docs) = (\<lambda>sk. sk)"
  "ed25519_sign (hab_demo docs) = hab_sign"
  "argon2id (hab_demo docs) = (\<lambda>_ _ _ n pw s. Inr (demo_hash n (pw @ s)))"
  "json_to_vec (hab_demo docs) = (\<lambda>v. Inr (demo_print v))"
  "json_from_slice (hab_demo docs) = hab_read docs"
  "h_blake3_256 (hab_demo docs) = hab_hash"
  "hardage (hab_demo docs) = (\<lambda>c. if c = CHR ''-'' then None else Some (if c = CHR ''0'' then 2 else if c = CHR ''1'' then 4 else 1))"
  by (simp_all add: hab_demo_def demo_prims_def)

lemma length_hab_hash [simp]: "length (hab_hash m) = 43"
  by (simp add: hab_hash_def)

lemma plain_hab_hash [simp]: "plain (hab_hash m)" "plain (CHR ''E'' # hab_hash m)"
  by (auto simp: hab_hash_def plain_def list_all_iff byte_def)

lemma length_hab_sign: "length (hab_sign sk m) = 64"
  by (simp add: hab_sign_def)

lemma plain_take: "plain s \<Longrightarrow> plain (take n s)"
  by (auto simp: plain_def list_all_iff dest: in_set_takeD)

lemma plain_hab_sign: "plain sk \<Longrightarrow> plain (hab_sign sk m)"
  unfolding hab_sign_def by (rule plain_take) (auto simp: plain_def list_all_iff byte_def)

lemma hab_matter_newD: "hab_matter_new c r = Inr m \<Longrightarrow> plain r \<and> demo_matter_new c r = Inr m"
  by (simp add: hab_matter_new_def split: if_splits)


subsection \<open>The laws\<close>

lemma length_demo_join: "ss \<noteq> [] \<Longrightarrow> length (demo_join ss) + 1 = sum_list (map (\<lambda>s. length s + 1) ss)"
  by (induction ss rule: demo_join.induct) auto

lemma length_demo_quote [simp]: "length (demo_quote s) = length s + 2"
  by (simp add: demo_quote_def)

lemma length_demo_object:
  "ps \<noteq> [] \<Longrightarrow>
     length (demo_print (JObject ps)) = sum_list (map (\<lambda>(k, v). length k + length (demo_print v) + 4) ps) + 1"
  using length_demo_join [of "map (\<lambda>(k, v). demo_quote k @ '':'' @ demo_print v) ps"]
  by (simp add: case_prod_beta' comp_def eval_nat_numeral)

lemma sum_list_update:
  "sum_list (map (\<lambda>(k, v). f k v) (AList.update k x ps)) + f k y =
   sum_list (map (\<lambda>(k, v). f k v) (AList.update k y ps)) + (f k x :: nat)"
  by (induction ps) auto

lemma hab_demo_width: "width_laws (hab_demo docs)"
proof -
  have "length (demo_print (JObject (AList.update k (JString t) obj))) + length s =
      length (demo_print (JObject (AList.update k (JString s) obj))) + length t" for k s t obj
  proof -
    have ne: "AList.update k v obj \<noteq> []" for v by (cases obj) auto
    show ?thesis
      using sum_list_update [of "\<lambda>k v. length k + length (demo_print v) + 4" k "JString t" obj "JString s"]
      by (simp add: length_demo_object [OF ne] del: demo_print.simps(8))
  qed
  then show ?thesis by (simp add: width_laws_def del: demo_print.simps)
qed

lemma hab_demo_laws: "hab_laws (hab_demo docs)"
proof -
  have "matter_laws (hab_demo docs)"
    using demo_matter_laws [of docs] unfolding matter_laws_def by (fastforce dest: hab_matter_newD)
  moreover have "signature_laws (hab_demo docs)"
    using demo_signature_laws [of docs]
    by (simp add: signature_laws_def hab_demo_def demo_prims_def length_hab_sign hab_verify_def)
  moreover have "indexer_laws (hab_demo docs)" by (simp add: indexer_laws_def hab_indexer_new_def demo_indexer_new_def)
  moreover have "matter_fs (hab_demo docs) ''E'' = Some 44"
    by (simp add: demo_matter_fs_def demo_sizes_def)
  ultimately show ?thesis using hab_demo_width by (simp add: hab_laws_def)
qed


lemma plain_ascii: "plain s \<Longrightarrow> is_ascii s"
  by (auto simp: plain_def is_ascii_def list_all_iff)

lemma hab_matter_text:
  assumes "hab_matter_new c r = Inr m" "demo_matter_qb64 m = Inr q"
  shows "plain q" "matter_reads (hab_demo docs) q"
proof -
  from hab_matter_newD [OF assms(1)] have r: "plain r" "m = \<lparr>mat_code = c, mat_raw = r\<rparr>" "(c, length r) \<in> set demo_sizes"
    "map_of demo_sizes c = Some (length r)"
    by (auto simp: demo_matter_new_def dest: map_of_SomeD split: if_splits)
  with assms(2) have q: "q = c @ r" by (simp add: demo_matter_qb64_def)
  from r(3) have "plain c" "\<exists>n. hardage (hab_demo docs) (hd q) = Some n \<and> n = length c" "4 \<le> length q"
    unfolding demo_sizes_def list.set insert_iff empty_iff Pair_inject q
    by (elim disjE conjE; simp add: plain_code byte_def)+
  then show "plain q" "matter_reads (hab_demo docs) q"
    using r q by (auto simp: matter_reads_def plain_ascii MIN_PRIMITIVE_SIZE_def demo_matter_fs_def)
qed

lemma hab_indexer_text:
  assumes "hab_indexer_new (siger_current_code alg) i None r = Inr x" "demo_indexer_qb64 x = Inr q"
  shows "sig_reads (hab_demo docs) \<lparr>sg_indexer = x, sg_verfer = None\<rparr> q"
proof -
  obtain a where a: "siger_current_code alg = [a]" "plain [a]" "a \<noteq> CHR ''-''" "a \<noteq> CHR ''0''" "a \<noteq> CHR ''1''"
    by (cases alg) (auto simp: plain_code byte_def)
  from assms(1) have x: "x = \<lparr>idx_code = [a], idx_index = i, idx_ondex = None, idx_raw = r\<rparr>" "i < 64" "length r = 64" "plain r"
    by (auto simp: hab_indexer_new_def demo_indexer_new_def a plain_code split: if_splits)
  have q: "q = a # char_of (48 + i) # r" using assms(2) by (simp add: x(1) demo_indexer_qb64_def)
  have n: "byte (char_of (48 + i)) = 48 + i" using x(2) by simp
  have "byte a < 128" "is_ascii r" using a(2) x(4) plain_ascii by (auto simp: plain_code)
  then have "is_ascii q" using n x(2) by (simp add: q is_ascii_def)
  then show ?thesis
    using x n a assms(1) by (simp add: sig_reads_def demo_indexer_qb64_def demo_indexer_from_qb64_def MIN_PRIMITIVE_SIZE_def q)
qed

text \<open>
  The instance makes signatures of the both-codes too, with a second index, and its text of
  them loses that index, as a text of 88 characters must: the laws ask nothing of them.
\<close>

lemma hab_demo_both_code:
  "\<exists>x q. hab_indexer_new ''B'' 1 (Some 2) (replicate 64 (CHR ''s'')) = Inr x \<and> idx_ondex x = Some 2 \<and>
     demo_indexer_qb64 x = Inr q \<and> demo_indexer_from_qb64 q = Inr (x\<lparr>idx_ondex := None\<rparr>)"
  by (simp add: hab_indexer_new_def demo_indexer_new_def demo_indexer_qb64_def demo_indexer_from_qb64_def plain_def
      list_all_iff byte_def)

lemma hab_demo_wire: "wire_laws (hab_demo [])"
proof -
  have "text_laws (hab_demo [])" using hab_matter_text(1) by (simp add: text_laws_def)
  moreover have "json_text_laws (hab_demo [])"
  proof -
    have "\<exists>tail. demo_print (JObject ((''v'', JString t) # rest)) = json_head @ t @ tail" for t rest
      by (cases rest) (simp_all add: json_head_def demo_quote_def demo_join_Cons)
    then show ?thesis
      using demo_parse_print by (simp add: json_text_laws_def hab_read_def demo_read_def del: demo_print.simps)
  qed
  moreover have "counter_reads (hab_demo []) code n q" "n < 64"
    if "group_code kind V1 = Some code" "demo_counter_new code n = Inr c" "demo_counter_qb64 c = Inr q" for kind code n c q
  proof -
    have "hd code = CHR ''-''" "is_ascii code" using that(1) by (cases kind; auto simp: is_ascii_def byte_def)+
    with that demo_counter_reads [of "[]" code n c q] show "counter_reads (hab_demo []) code n q"
      by (simp add: counter_reads_def hab_demo_def demo_prims_def)
    show "n < 64" using that(2) by (simp add: demo_counter_new_def split: if_splits)
  qed
  then have "cesr_text_laws (hab_demo [])"
    using hab_matter_text(2) hab_indexer_text by (simp add: cesr_text_laws_def) (fastforce dest: less_trans)
  ultimately show ?thesis by (simp add: wire_laws_def)
qed


subsection \<open>Its operations succeed\<close>

definition demo_signer :: "bytes \<Rightarrow> bool \<Rightarrow> signer" where
  "demo_signer seed tr =
     \<lparr>sn_raw = seed, sn_code = ''A'', sn_transferable = tr,
      sn_verfer = \<lparr>vf_matter = \<lparr>mat_code = if tr then ''D'' else ''B'', mat_raw = seed\<rparr>\<rparr>\<rparr>"

definition demo_seed :: "nat \<Rightarrow> bytes \<Rightarrow> bytes" where
  "demo_seed g salt = demo_hash 32 (dec g @ ''.'' @ dec 0 @ salt)"

definition demo_key :: "bytes \<Rightarrow> string" where
  "demo_key seed = CHR ''D'' # seed"

lemma length_demo_seed [simp]: "length (demo_seed g salt) = 32"
  by (simp add: demo_seed_def)

lemma demo_salter: "length salt = 16 \<Longrightarrow> plain salt \<Longrightarrow> salter_new (hab_demo docs) ''0A'' salt = Inr \<lparr>st_matter = \<lparr>mat_code = ''0A'', mat_raw = salt\<rparr>\<rparr>"
  by (simp add: salter_new_def hab_matter_new_def demo_matter_new_def demo_sizes_def)

lemma plain_demo_hash:
  assumes "plain m"
  shows "plain (demo_hash n m)"
proof -
  have "set (demo_hash n m) \<subseteq> insert (CHR ''h'') (set m)"
    unfolding demo_hash_def by (auto dest!: in_set_takeD split: if_splits)
  with assms show ?thesis by (auto simp: plain_def list_all_iff byte_def)
qed

lemma plain_demo_seed: "plain salt \<Longrightarrow> plain (demo_seed g salt)"
  unfolding demo_seed_def by (rule plain_demo_hash) (simp add: plain_code byte_def)

lemma demo_derive:
  assumes "plain salt"
  shows "derive_signers (hab_demo docs) \<lparr>st_matter = \<lparr>mat_code = c, mat_raw = salt\<rparr>\<rparr> ''A'' True g 1 = Inr [demo_signer (demo_seed g salt) True]"
proof -
  have "salter_signer (hab_demo docs) \<lparr>st_matter = \<lparr>mat_code = c, mat_raw = salt\<rparr>\<rparr> ''A'' (dec g @ ''.'' @ dec 0) ''low'' True
      = Inr (demo_signer (demo_seed g salt) True)"
    using plain_demo_seed [OF assms, of g]
    by (simp add: salter_signer_def stretch_def tier_params_def key_size_for_code_def signer_new_with_transferable_def
        derive_verfer_def algorithm_from_code_def verfer_new_def verfer_validate_code_def verfer_codes_def hab_matter_new_def
        demo_matter_new_def demo_sizes_def demo_signer_def demo_seed_def)
  then show ?thesis by (simp add: derive_signers_def)
qed

lemma demo_key_text: "verfer_qb64 (hab_demo docs) (sn_verfer (demo_signer seed True)) = Inr (demo_key seed)"
  by (simp add: verfer_qb64_def demo_signer_def demo_matter_qb64_def demo_key_def)

lemma hab_demo_digest: "digest_qb64 (hab_demo docs) ''E'' data = Inr (CHR ''E'' # hab_hash data)"
  by (simp add: digest_qb64_def diger_from_data_def compute_digest_def diger_qb64_def hab_matter_new_def demo_matter_new_def demo_sizes_def
      demo_matter_qb64_def)

lemma demo_next_digest:
  "next_digest (hab_demo docs) (demo_signer seed True) = Inr (CHR ''E'' # hab_hash (demo_key seed))"
  using hab_demo_digest [of docs "demo_key seed"] by (simp add: next_digest_def demo_key_text digest_qb64_def)

lemma demo_sign_loop:
  assumes "list_all (\<lambda>s. length (sn_raw s) = 32 \<and> plain (sn_raw s) \<and> sn_code s = ''A'') ss" "i + length ss \<le> 64"
  shows "\<exists>out. sign_loop (hab_demo docs) m i ss = Inr out"
  using assms
proof (induction ss arbitrary: i)
  case (Cons s ss)
  then have "\<exists>out. sign_loop (hab_demo docs) m (Suc i) ss = Inr out" by simp
  then show ?case
    using Cons.prems
    by (auto simp: signer_sign_indexed_def sign_raw_def algorithm_from_code_def signer_sign_ed25519_def siger_new_with_verfer_def
        hab_indexer_new_def demo_indexer_new_def length_hab_sign plain_hab_sign siger_current_code.simps plain_code byte_def siger_qb64_def demo_indexer_qb64_def)
qed simp

lemma demo_group_counter: "n < 64 \<Longrightarrow> \<exists>c. group_counter (hab_demo docs) s ControllerIdxSigs n = Inr c"
  by (cases "table_for s") (simp_all add: group_counter_def counter_code_for_def demo_counter_new_def demo_counter_qb64_def)

text \<open>Every template is built and signed, and its digest is the one of a message of the template's length.\<close>

lemma demo_built:
  assumes t: "template sad p"
  shows "\<exists>said s. built (hab_demo docs) sad said s"
proof -
  from template_object [OF t] obtain obj where obj: "sad = JObject obj" "json_ok (JObject obj)"
    "map_of obj ''v'' = Some (JString ''KERI10JSON000000_'')" "map_of obj ''d'' = Some (JString [])"
    "map_of obj ''i'' = Some (JString p)" by blast
  obtain n where f: "fix_version_string (hab_demo docs) sad = Inr (jinsert ''v'' (JString (version_text n)) (JObject obj))"
    using fix_version_string_Inr [OF obj(2) _ obj(4,5)] obj(1,3) by fastforce
  let ?sad1 = "jinsert ''v'' (JString (version_text n)) (JObject obj)"
  have "\<exists>said sad2. compute_said (hab_demo docs) ?sad1 ''d'' ''E'' JsonKind = Inr (said, sad2)"
    using obj(4)
    by (simp add: compute_said_Inr hab_demo_digest demo_matter_fs_def demo_sizes_def update_conv' del: map_of_eq_Some_iff)
  then obtain said sad2 where cs: "compute_said (hab_demo docs) ?sad1 ''d'' ''E'' JsonKind = Inr (said, sad2)" by blast
  obtain s where s: "serder_new (hab_demo docs) JsonKind sad2 = Inr s"
    by (cases "get_str sad2 ''v''") (simp_all add: serder_new_eq Let_def)
  with f cs show ?thesis unfolding built_def by blast
qed

lemma demo_sign_event:
  assumes t: "template sad p" and ss: "list_all (\<lambda>s. length (sn_raw s) = 32 \<and> plain (sn_raw s) \<and> sn_code s = ''A'') ss" "length ss < 64"
  shows "\<exists>ev. sign_event (hab_demo docs) ss sad = Inr ev"
proof -
  obtain said s where b: "built (hab_demo docs) sad said s" using demo_built [OF t] by blast
  obtain out c where "sign_loop (hab_demo docs) (serder_raw s) 0 ss = Inr out"
    "group_counter (hab_demo docs) s ControllerIdxSigs (length ss) = Inr c"
    using demo_sign_loop [OF ss(1), of 0] demo_group_counter [OF ss(2)] ss(2) by fastforce
  with b show ?thesis by (auto simp: sign_event_def built_def)
qed

lemma demo_event_facts:
  assumes t: "template sad p" and ev: "sign_event (hab_demo docs) ss sad = Inr ev"
    and len: "length (demo_print (put_said ''d'' (p = []) (replicate 44 (CHR ''#'')) sad)) = n" "n < 16 ^ 6"
  shows "plain (sd_said ev) \<and> length (sd_raw ev) = n \<and> sd_said ev = CHR ''E'' # hab_hash (replicate n (CHR ''x''))"
proof -
  have plain: "plain (sd_said ev)"
    using ev plain_hab_hash by (auto simp: sign_event_def res_simps compute_said_Inr hab_demo_digest)
  from sign_event_length [OF hab_demo_laws t ev plain, of "demo_print (put_said ''d'' (p = []) (replicate 44 (CHR ''#'')) sad)"] len
  obtain ser where "length (sd_raw ev) = n" "length ser = n" "digest_qb64 (hab_demo docs) ''E'' ser = Inr (sd_said ev)"
    by (auto simp del: demo_print.simps)
  then show ?thesis using plain hab_demo_digest [of docs ser] by (simp add: hab_hash_def)
qed


subsection \<open>Bob\<close>

definition bob_salt :: "bytes" where
  "bob_salt = replicate 16 (CHR ''r'')"

definition bob_config :: "inception_config" where
  "bob_config = builder_build (builder_salt bob_salt inception_config_new_builder)"

definition bob_signer :: "nat \<Rightarrow> signer" where
  "bob_signer g = demo_signer (demo_seed g bob_salt) True"

definition bob_key :: "nat \<Rightarrow> string" where
  "bob_key g = demo_key (demo_seed g bob_salt)"

definition bob_digest :: "nat \<Rightarrow> string" where
  "bob_digest g = CHR ''E'' # hab_hash (bob_key g)"

text \<open>The digest of a message of a given length.\<close>

definition said_of_length :: "nat \<Rightarrow> string" where
  "said_of_length n = CHR ''E'' # hab_hash (replicate n (CHR ''x''))"

lemma length_bob [simp]: "length (bob_key g) = 33" "length (bob_digest g) = 44" "length (said_of_length n) = 44"
  by (simp_all add: bob_key_def demo_key_def bob_digest_def said_of_length_def)

lemma dec_small [simp]: "dec 0 = ''0''" "dec 1 = ''1''" "dec (Suc 0) = ''1''"
  by (simp_all add: dec_def to_radix.simps digit_char_def char_of_digits)

lemma u64_hex_1: "u64_hex 1 = ''1''"
  by (simp add: u64_hex_def hex_def to_radix.simps digit_char_def char_of_digits)

lemmas bob_config_defs =
  bob_config_def builder_build_def builder_salt_def inception_config_new_builder_def inception_config_default_def

definition bob :: "hab" where
  "bob =
     \<lparr>hb_name = ''bob'', hb_prefix = said_of_length 288, hb_signers = [bob_signer 0], hb_next_signers = [bob_signer 1],
      hb_salter = \<lparr>st_matter = \<lparr>mat_code = ''0A'', mat_raw = bob_salt\<rparr>\<rparr>, hb_transferable = True, hb_code = ''A'',
      hb_last_said = said_of_length 288, hb_sn = 0, hb_key_gen = 2, hb_signer_gen = 0, hb_next_gen = 1,
      hb_backer_threshold = 0, hb_backers = []\<rparr>"

definition bob_rotated :: "hab" where
  "bob_rotated =
     bob\<lparr>hb_signers := [bob_signer 1], hb_next_signers := [bob_signer 3], hb_last_said := said_of_length 348,
         hb_sn := 1, hb_key_gen := 4, hb_signer_gen := 1, hb_next_gen := 3\<rparr>"

definition bob_interacted :: "hab" where
  "bob_interacted = bob\<lparr>hb_last_said := said_of_length 203, hb_sn := 1\<rparr>"

lemma plain_bob_salt: "plain bob_salt"
  by (simp add: bob_salt_def plain_def list_all_iff byte_def)

lemma bob_signer_ok: "length (sn_raw (bob_signer g)) = 32" "sn_code (bob_signer g) = ''A''" "plain (sn_raw (bob_signer g))"
  by (simp_all add: bob_signer_def demo_signer_def plain_demo_seed plain_bob_salt)

lemma bob_texts:
  "key_texts (hab_demo docs) [bob_signer g] = Inr [bob_key g]" "next_key_digests (hab_demo docs) [bob_signer g] = Inr [bob_digest g]"
  by (simp_all add: key_texts_def next_key_digests_def bob_signer_def bob_key_def bob_digest_def demo_key_text demo_next_digest)

lemma said_of_length_inject:
  "said_of_length 288 \<noteq> said_of_length 348" "said_of_length 288 \<noteq> said_of_length 203"
proof -
  have "length (filter (\<lambda>c. c = CHR ''a'') (said_of_length n)) = n mod 44" for n
    by (simp add: said_of_length_def hab_hash_def)
  then have "said_of_length n = said_of_length m \<Longrightarrow> n mod 44 = m mod 44" for n m by metis
  from this [of 288 348] this [of 288 203]
  show "said_of_length 288 \<noteq> said_of_length 348" "said_of_length 288 \<noteq> said_of_length 203" by auto
qed

lemma bob_event:
  assumes "template sad p" "length (demo_print (put_said ''d'' (p = []) (replicate 44 (CHR ''#'')) sad)) = n" "n < 16 ^ 6"
  shows "\<exists>ev. sign_event (hab_demo docs) [bob_signer g] sad = Inr ev \<and> sd_said ev = said_of_length n \<and>
    (p \<noteq> said_of_length n \<longrightarrow> event_fits ev p)"
proof -
  obtain ev where ev: "sign_event (hab_demo docs) [bob_signer g] sad = Inr ev"
    using demo_sign_event [OF assms(1), of "[bob_signer g]" docs] bob_signer_ok by auto
  from demo_event_facts [OF assms(1) ev assms(2,3)] ev assms(3) show ?thesis
    by (auto simp: said_of_length_def event_fits_def)
qed

lemma bob_inception: "\<exists>ev. hab_incept_event (hab_demo docs) [] ''bob'' bob_config = Inr (bob, ev) \<and> event_fits ev []"
proof -
  let ?sad = "icp_sad bob_config [bob_key 0] [bob_digest 1]"
  have "length (demo_print (put_said ''d'' ([] = []) (replicate 44 (CHR ''#'')) ?sad)) = 288"
    by (simp add: icp_sad_def bob_config_defs jstrings_def)
  from bob_event [OF template_icp this, of docs 0] obtain ev where
    ev: "sign_event (hab_demo docs) [bob_signer 0] ?sad = Inr ev" "sd_said ev = said_of_length 288" "event_fits ev []"
    by (auto simp: said_of_length_def)
  have "salter_new (hab_demo docs) ''0A'' bob_salt = Inr \<lparr>st_matter = \<lparr>mat_code = ''0A'', mat_raw = bob_salt\<rparr>\<rparr>"
    by (rule demo_salter) (simp_all add: bob_salt_def plain_bob_salt [unfolded bob_salt_def])
  then have "hab_incept_event (hab_demo docs) [] ''bob'' bob_config = Inr (bob, ev)"
    using ev demo_derive [OF plain_bob_salt, of docs "''0A''"] bob_texts [of docs]
    by (simp add: hab_incept_event_def incept_inner_def bob_config_defs bob_signer_def [symmetric] bob_def)
  with ev show ?thesis by blast
qed

lemma bob_rotation:
  "\<exists>ev. hab_rotate_event (hab_demo docs) rotation_config_default bob = (Inr ev, bob_rotated) \<and> event_fits ev (hb_prefix bob)"
proof -
  let ?sad = "rot_sad bob rotation_config_default 1 [bob_key 1] [bob_digest 3]"
  have "length (demo_print (put_said ''d'' (hb_prefix bob = []) (replicate 44 (CHR ''#'')) ?sad)) = 348"
    by (simp add: rot_sad_def bob_def rotation_config_default_def jstrings_def u64_hex_1 said_of_length_def [of 288])
  from bob_event [OF template_rot this, of docs 1] obtain ev where
    ev: "sign_event (hab_demo docs) [bob_signer 1] ?sad = Inr ev" "sd_said ev = said_of_length 348" "event_fits ev (hb_prefix bob)"
    using said_of_length_inject by (auto simp: bob_def)
  have "hab_rotate_event (hab_demo docs) rotation_config_default bob = (Inr ev, bob_rotated)"
    using ev(1,2) demo_derive [OF plain_bob_salt, of docs "''0A''"] bob_texts [of docs]
    by (simp add: hab_rotate_event_def rotate_inner_def rotation_steps_def persist_def bob_signer_def [symmetric] bob_def bob_rotated_def
        rotation_config_default_def new_backers_def)
  with ev show ?thesis by blast
qed

lemma bob_interaction:
  "\<exists>ev. hab_interact_event (hab_demo docs) [] bob = Inr (ev, bob_interacted) \<and> event_fits ev (hb_prefix bob)"
proof -
  let ?sad = "ixn_sad bob 1 []"
  have "length (demo_print (put_said ''d'' (hb_prefix bob = []) (replicate 44 (CHR ''#'')) ?sad)) = 203"
    by (simp add: ixn_sad_def bob_def u64_hex_1 said_of_length_def [of 288])
  from bob_event [OF template_ixn this, of docs 0] obtain ev where
    ev: "sign_event (hab_demo docs) [bob_signer 0] ?sad = Inr ev" "sd_said ev = said_of_length 203" "event_fits ev (hb_prefix bob)"
    using said_of_length_inject by (auto simp: bob_def)
  have "hab_interact_event (hab_demo docs) [] bob = Inr (ev, bob_interacted)"
    using ev(1,2) by (simp add: hab_interact_event_def interact_inner_def persist_def bob_def bob_interacted_def)
  with ev show ?thesis by blast
qed

end
