(* ===== verification/Keri_Receipt.thy ===== *)
theory Keri_Receipt
  imports Keri_Witness
begin

section \<open>Receipt messages\<close>

text \<open>
  \<open>Hab::receipt_message\<close> of a witness: the bytes are parsed to an \<open>rct\<close> message that names the
  receipted event's prefix and sequence number, with one couple of the witness's key and its
  signature over the event.
\<close>

lemma template_rct: "template (rct_sad p sn) p"
  by (simp add: template_def rct_sad_def)

text \<open>The steps of \<open>receipt_message\<close> for a witness.\<close>

lemma receipt_message_steps:
  assumes w: "witness_hab pr w" and r: "receipt_message pr st s w other = Some (Inr (msg, s'))"
  obtains p n said rsaid m key cg ct q where "serder_prefix other = Inr p" "serder_sn other = Inr n" "serder_said other = Inr said"
    "built pr (rct_sad p n) rsaid m" "signer_sign pr (hd (hb_signers w)) (serder_raw other) = Inr cg"
    "verfer_qb64 pr (sn_verfer (hd (hb_signers w))) = Inr key" "cigar_qb64 pr cg = Inr ct"
    "counter_for pr other NonTransReceiptCouples 1 = Inr q" "msg = serder_raw m @ q @ key @ ct"
    "st_put_receipts st s said (q @ key @ ct) = Inr s'"
proof -
  from w obtain s0 ss where s0: "hb_signers w = s0 # ss" "\<not> hb_transferable w"
    by (auto simp: witness_hab_def neq_Nil_conv)
  from r obtain p n said rsaid sad1 sad2 m att where f: "serder_prefix other = Inr p" "serder_sn other = Inr n" "serder_said other = Inr said"
    "fix_version_string pr (rct_sad p n) = Inr sad1" "compute_said pr sad1 ''d'' ''E'' JsonKind = Inr (rsaid, sad2)"
    "serder_new pr JsonKind sad2 = Inr m" and att: "hab_receipt pr w other = Some (Inr att)"
    and out: "st_put_receipts st s said att = Inr s'" "msg = serder_raw m @ att"
    by (auto simp: receipt_message_def res_simps)
  from att s0 obtain cg key ct q where "signer_sign pr s0 (serder_raw other) = Inr cg" "verfer_qb64 pr (sn_verfer s0) = Inr key"
    "cigar_qb64 pr cg = Inr ct" "group_counter pr other NonTransReceiptCouples 1 = Inr q" "att = q @ key @ ct"
    by (auto simp: hab_receipt_def res_simps)
  with f out s0 show thesis by (intro that [of p n said rsaid m cg key ct q]) (auto simp: built_def group_counter_Inr)
qed

text \<open>A witness's signature as a couple.\<close>

lemma witness_couple:
  assumes laws: "matter_laws pr" "signature_laws pr" and w: "witness_hab pr w"
    and cg: "signer_sign pr (hd (hb_signers w)) raw = Inr cg" and k: "verfer_qb64 pr (sn_verfer (hd (hb_signers w))) = Inr key"
  shows "receipt_of pr raw w (key, cigar_raw cg)"
proof -
  let ?s = "hd (hb_signers w)"
  have ok: "signer_ok pr ?s" using w by (simp add: witness_hab_def)
  from signer_verfer_qb64 [OF laws(1) ok] k have "verfer_from_qb64 pr key = Inr (sn_verfer ?s)" by auto
  with sign_raw_verifies [OF laws ok] signer_sign_raw [OF laws(1) cg] k show ?thesis by (simp add: receipt_of_def Let_def)
qed

lemma receipt_message_parses:
  assumes laws: "hab_laws pr" "wire_laws pr" and w: "witness_hab pr w" and table: "table_for other = V1"
    and p: "serder_prefix other = Inr p" "plain p" "p \<noteq> []"
    and r: "receipt_message pr st s w other = Some (Inr (msg, s'))" and len: "length msg < 16 ^ 6"
  obtains m key sig n said where "parse_next pr msg = Some (Inr (\<lparr>pm_serder = m, pm_attachments = [ReceiptCouples [(key, sig)]]\<rparr>, length msg))"
    "serder_ilk m = Inr ''rct''" "serder_prefix m = Inr p" "serder_sn other = Inr n" "serder_sn m = Inr n"
    "receipt_of pr (serder_raw other) w (key, sig)" "serder_said other = Inr said"
    "st_put_receipts st s said (drop (length (serder_raw m)) msg) = Inr s'"
proof -
  obtain n said rsaid m key cg ct q where n: "serder_sn other = Inr n" "serder_said other = Inr said"
    and b: "built pr (rct_sad p n) rsaid m" and cg: "signer_sign pr (hd (hb_signers w)) (serder_raw other) = Inr cg"
    and key: "verfer_qb64 pr (sn_verfer (hd (hb_signers w))) = Inr key" and ct: "cigar_qb64 pr cg = Inr ct"
    and q: "counter_for pr other NonTransReceiptCouples 1 = Inr q" and msg: "msg = serder_raw m @ q @ key @ ct"
    and put: "st_put_receipts st s said (q @ key @ ct) = Inr s'"
    by (rule receipt_message_steps [OF w r]) (use p(1) in auto)
  have ml: "matter_laws pr" "signature_laws pr" and t: "text_laws pr" using laws by (simp_all add: hab_laws_def wire_laws_def)
  have rs: "plain rsaid"
    using b t by (auto simp: built_def compute_said_Inr digest_qb64_def diger_qb64_def diger_from_data_def text_laws_def res_simps)
  have "length (serder_raw m) < 16 ^ 6" using len by (simp add: msg)
  note bm = built_message [OF laws(1) template_rct b rs this]
  have sad: "serder_sad m = put_said ''d'' False rsaid (jinsert ''v'' (JString (version_text (length (serder_raw m)))) (rct_sad p n))"
    using bm(2) p(3) by simp
  have wt: "wire_text pr m"
    using bm filled_head [OF template_rct] \<open>length (serder_raw m) < 16 ^ 6\<close> by (auto simp: wire_text_def)
  have tj: "text_json 127 (serder_sad m)"
    unfolding sad using rs p(2) by (intro filled_text) (simp_all add: rct_sad_def plain_code byte_def)
  have compose: "compose_receipt pr m key cg = Inr msg"
    using q ct by (simp add: compose_receipt_def counter_for_def counter_code_for_def table wire_table [OF wt] msg)
  have keyr: "matter_reads pr key"
  proof -
    have "signer_ok pr (hd (hb_signers w))" using w by (simp add: witness_hab_def)
    then show ?thesis using key wire_matter [OF laws(2)] unfolding verfer_qb64_def by (elim signer_ok_matter) auto
  qed
  have cgr: "matter_reads pr q' \<and> matter_from_qb64 pr q' = Inr (cg_matter cg)" if "cigar_qb64 pr cg = Inr q'" for q'
  proof -
    from cg obtain alg sig where new: "matter_new pr (cigar_code alg) sig = Inr (cg_matter cg)"
      by (auto simp: signer_sign_def cigar_new_with_verfer_def res_simps)
    moreover have "cigar_code alg \<in> set ([''0B'', ''0C'', ''0I''] @ verfer_codes)" by (cases alg) simp_all
    ultimately show ?thesis using wire_matter [OF laws(2) new] matter_laws_qb64 [OF ml(1) new] that by (auto simp: cigar_qb64_def)
  qed
  have ctr: "counter_reads pr code 1 q'"
    if "group_code NonTransReceiptCouples (table_for m) = Some code" "counter_new pr code 1 = Inr c" "counter_qb64 pr c = Inr q'" for code c q'
    using wire_counter [OF laws(2) _ that(2,3)] that(1) unfolding wire_table [OF wt] by blast
  have "parse_next pr (msg @ []) = Some (Inr (\<lparr>pm_serder = m, pm_attachments = [ReceiptCouples [(key, cigar_raw cg)]]\<rparr>, length msg))"
    using wire_reads [OF laws(2) wt tj] by (intro compose_receipt_parse [OF compose _ _ _ keyr cgr ctr]) simp_all
  moreover have "serder_ilk m = Inr ''rct''" "serder_prefix m = Inr p" "serder_sn m = Inr n"
    using next_sn_hex by (simp_all add: sad serder_ilk_def serder_prefix_def serder_sn_def rct_sad_def get_str_def)
  ultimately show thesis
    using witness_couple [OF ml w cg key] n put by (intro that [of m key "cigar_raw cg" n said]) (simp_all add: msg)
qed

text \<open>Such a couple counts for the event exactly when the key is a backer.\<close>

lemma single_receipt_counts:
  assumes r: "receipt_of pr raw w (key, sig)"
  shows "verify_witness_receipts_static pr raw [(key, sig)] backers n = Inr () \<longleftrightarrow> n \<le> card (set backers \<inter> {key})"
proof -
  have c: "list_all2 (receipt_of pr raw) [w] [(key, sig)]" using r by simp
  have "witness_prefixes pr [w] = {key}" using r by (auto simp: witness_prefixes_def receipt_of_def Let_def)
  then show ?thesis
    using verify_witness_receipts_static_complete [OF collected_vouch(1) [OF c]] collected_vouch(2) [OF c, of backers]
      verify_witness_receipts_static_sound [of pr raw "[(key, sig)]" backers n] by metis
qed

end
