(* ===== verification/Keri_Witness_Demo.thy ===== *)
theory Keri_Witness_Demo
  imports Keri_Hab_Demo Keri_Hab_Direct Keri_Receipt
begin

section \<open>A hab with witnesses on the concrete instance\<close>

text \<open>
  The hab \<open>carol\<close>: like \<open>bob\<close> of \<open>Keri_Hab_Demo\<close>, with three witnesses of which two must
  sign every event. Her inception and her first interaction are fed with the receipts of two
  of the three; with one receipt the interaction is a message too.
\<close>

definition watcher :: "char \<Rightarrow> hab" where
  "watcher c = bob\<lparr>hb_transferable := False, hb_signers := [demo_signer (replicate 32 c) False]\<rparr>"

definition watcher_key :: "char \<Rightarrow> string" where
  "watcher_key c = CHR ''B'' # replicate 32 c"

definition carol_config :: "inception_config" where
  "carol_config =
     builder_build (builder_backer_threshold 2 (builder_backers (map watcher_key ''pqr'')
       (builder_salt bob_salt inception_config_new_builder)))"

definition carol :: "hab" where
  "carol =
     bob\<lparr>hb_name := ''carol'', hb_prefix := said_of_length 395, hb_last_said := said_of_length 395,
       hb_backer_threshold := 2, hb_backers := map watcher_key ''pqr''\<rparr>"

definition carol_interacted :: "hab" where
  "carol_interacted = carol\<lparr>hb_last_said := said_of_length 203, hb_sn := 1\<rparr>"

lemmas carol_config_defs = carol_config_def builder_backer_threshold_def builder_backers_def bob_config_defs

lemma length_watcher_key [simp]: "length (watcher_key c) = 33"
  by (simp add: watcher_key_def)

lemma carol_inception:
  "\<exists>ev. hab_incept_event (hab_demo docs) [] ''carol'' carol_config = Inr (carol, ev) \<and> event_fits ev []"
proof -
  let ?sad = "icp_sad carol_config [bob_key 0] [bob_digest 1]"
  have "length (demo_print (put_said ''d'' ([] = []) (replicate 44 (CHR ''#'')) ?sad)) = 395"
    by (simp add: icp_sad_def carol_config_defs jstrings_def dec_def to_radix.simps)
  from bob_event [OF template_icp this, of docs 0] obtain ev where
    ev: "sign_event (hab_demo docs) [bob_signer 0] ?sad = Inr ev" "sd_said ev = said_of_length 395" "event_fits ev []"
    by (auto simp: said_of_length_def)
  have "salter_new (hab_demo docs) ''0A'' bob_salt = Inr \<lparr>st_matter = \<lparr>mat_code = ''0A'', mat_raw = bob_salt\<rparr>\<rparr>"
    by (rule demo_salter) (simp_all add: bob_salt_def plain_bob_salt [unfolded bob_salt_def])
  then have "hab_incept_event (hab_demo docs) [] ''carol'' carol_config = Inr (carol, ev)"
    using ev demo_derive [OF plain_bob_salt, of docs "''0A''"] bob_texts [of docs]
    by (simp add: hab_incept_event_def incept_inner_def carol_config_defs bob_signer_def [symmetric] carol_def bob_def)
  with ev show ?thesis by blast
qed

lemma carol_interaction:
  "\<exists>ev. hab_interact_event (hab_demo docs) [] carol = Inr (ev, carol_interacted) \<and> event_fits ev (hb_prefix carol)"
proof -
  let ?sad = "ixn_sad carol 1 []"
  have len: "length (demo_print (put_said ''d'' (hb_prefix carol = []) (replicate 44 (CHR ''#'')) ?sad)) = 203"
    by (simp add: ixn_sad_def carol_def bob_def u64_hex_1 said_of_length_def [of 395])
  have "length (filter (\<lambda>c. c = CHR ''a'') (said_of_length n)) = n mod 44" for n
    by (simp add: said_of_length_def hab_hash_def)
  from this [of 395] this [of 203] have "said_of_length 395 \<noteq> said_of_length 203" by auto
  with bob_event [OF template_ixn len, of docs 0] obtain ev where
    ev: "sign_event (hab_demo docs) [bob_signer 0] ?sad = Inr ev" "sd_said ev = said_of_length 203" "event_fits ev (hb_prefix carol)"
    by (auto simp: carol_def)
  have "hab_interact_event (hab_demo docs) [] carol = Inr (ev, carol_interacted)"
    using ev(1,2) by (simp add: hab_interact_event_def interact_inner_def persist_def carol_def bob_def carol_interacted_def)
  with ev show ?thesis by blast
qed


subsection \<open>The receipts\<close>

lemma watcher_sel [simp]:
  "hb_transferable (watcher c) = False" "hb_signers (watcher c) = [demo_signer (replicate 32 c) False]"
  by (simp_all add: watcher_def)

lemma watcher_verfer: "verfer_qb64 (hab_demo docs) (sn_verfer (demo_signer (replicate 32 c) False)) = Inr (watcher_key c)"
  by (simp add: demo_signer_def verfer_qb64_def demo_matter_qb64_def watcher_key_def)

lemma watcher_prefixes: "witness_prefixes (hab_demo docs) (map watcher cs) = watcher_key ` set cs"
  by (auto simp: witness_prefixes_def watcher_verfer)

lemma watcher_witnesses:
  assumes "plain [c]"
  shows "witness_hab (hab_demo docs) (watcher c)"
proof -
  have "plain (replicate 32 c)" using assms by (simp add: plain_def list_all_iff)
  then have "signer_ok (hab_demo docs) (demo_signer (replicate 32 c) False)"
    by (simp add: signer_ok_def demo_signer_def derive_verfer_def algorithm_from_code_def verfer_new_def
        verfer_validate_code_def verfer_codes_def hab_matter_new_def demo_matter_new_def demo_sizes_def)
  then show ?thesis by (simp add: witness_hab_def)
qed

lemma watchers_collect:
  assumes "plain cs"
  shows "\<exists>couples. collect_witness_receipts (hab_demo docs) m (map watcher cs) = Some (Inr couples) \<and> length couples = length cs \<and>
    list_all (\<lambda>c. plain (snd c) \<and> length (snd c) = 64) couples"
  using assms
proof (induction cs)
  case (Cons c cs)
  from Cons.prems have c: "plain (replicate 32 c)" "plain cs" by (simp_all add: plain_def list_all_iff)
  from Cons.IH [OF c(2)] obtain couples where
    "collect_witness_receipts (hab_demo docs) m (map watcher cs) = Some (Inr couples)" "length couples = length cs"
    "list_all (\<lambda>c. plain (snd c) \<and> length (snd c) = 64) couples" by blast
  moreover have "plain (hab_sign (replicate 32 c) (serder_raw m))" using plain_hab_sign c(1) .
  ultimately show ?case
    using watcher_verfer [of docs c, unfolded demo_signer_def]
    by (simp add: demo_signer_def signer_sign_def sign_raw_def algorithm_from_code_def signer_sign_ed25519_def
        cigar_new_with_verfer_def hab_matter_new_def demo_matter_new_def demo_sizes_def length_hab_sign cigar_raw_def)
qed simp

lemma demo_couple_texts:
  "list_all (\<lambda>c. plain (snd c) \<and> length (snd c) = 64) couples \<Longrightarrow> \<exists>t. couple_texts (hab_demo docs) couples = Inr t"
  by (induction couples) (auto simp: cigar_new_def cigar_qb64_def hab_matter_new_def demo_matter_new_def demo_sizes_def demo_matter_qb64_def)

lemma watchers_attachment:
  assumes "plain cs" "length cs < 64"
  shows "\<exists>att. compose_witness_receipt_attachment (hab_demo docs) m (map watcher cs) = Some (Inr att)"
proof -
  obtain couples where c: "collect_witness_receipts (hab_demo docs) m (map watcher cs) = Some (Inr couples)" "length couples = length cs"
    "list_all (\<lambda>c. plain (snd c) \<and> length (snd c) = 64) couples"
    using watchers_collect [OF assms(1)] by blast
  obtain t where t: "couple_texts (hab_demo docs) couples = Inr t" using demo_couple_texts [OF c(3)] by blast
  obtain q where "group_counter (hab_demo docs) m NonTransReceiptCouples (length couples) = Inr q"
    using assms(2) c(2)
    by (cases "table_for m") (auto simp: group_counter_def counter_code_for_def demo_counter_new_def demo_counter_qb64_def)
  with c t show ?thesis by (simp add: compose_witness_receipt_attachment_def)
qed

lemma watchers_receipt:
  assumes "plain cs" "length cs < 64" "serder_from_raw (hab_demo docs) (sd_raw ev) = Inr m"
  shows "\<exists>msg. with_receipts (hab_demo docs) ev (map watcher cs) msg"
proof -
  have "list_all (witness_hab (hab_demo docs)) (map watcher cs)"
    using assms(1) watcher_witnesses by (auto simp: list_all_iff plain_def)
  with watchers_attachment [OF assms(1,2), of docs m] assms(3) show ?thesis unfolding with_receipts_def by blast
qed

lemma carol_witnesses:
  assumes "set cs \<subseteq> set ''pqr''"
  shows "enough_witnesses (hab_demo docs) carol (map watcher cs) \<longleftrightarrow> 2 \<le> card (set cs)"
    "enough_witnesses (hab_demo docs) carol_interacted (map watcher cs) \<longleftrightarrow> 2 \<le> card (set cs)"
proof -
  have inj: "inj watcher_key" by (auto simp: inj_def watcher_key_def)
  have "set (map watcher_key ''pqr'') \<inter> watcher_key ` set cs = watcher_key ` set cs" using assms by auto
  moreover have "card (watcher_key ` set cs) = card (set cs)" using inj by (auto intro: card_image inj_on_subset)
  ultimately show "enough_witnesses (hab_demo docs) carol (map watcher cs) \<longleftrightarrow> 2 \<le> card (set cs)"
    "enough_witnesses (hab_demo docs) carol_interacted (map watcher cs) \<longleftrightarrow> 2 \<le> card (set cs)"
    unfolding enough_witnesses_def watcher_prefixes by (simp_all add: carol_def carol_interacted_def)
qed


subsection \<open>The feed\<close>

lemma hab_demo_text: "text_laws (hab_demo docs)"
  using hab_matter_text(1) by (simp add: text_laws_def)

lemma sent_message:
  assumes "sent_as (hab_demo []) p m sigs ev" "text_json 127 (serder_sad m)"
  shows "serder_from_raw (hab_demo []) (sd_raw ev) = Inr m"
  using wire_reads(1) [OF hab_demo_wire _ assms(2), of "[]"] assms(1) by (simp add: sent_as_def on_wire_def)

lemma carol_incepted: "\<exists>msg. hab_feed (hab_demo []) carol [msg]"
proof -
  obtain ev where ev: "hab_incept_event (hab_demo []) [] ''carol'' carol_config = Inr (carol, ev)" "event_fits ev []"
    using carol_inception by blast
  then obtain s' where inc: "incept_inner (hab_demo []) [] ''carol'' carol_config None () = Inr (carol, ev, s')"
    by (auto simp: hab_incept_event_def res_simps)
  have ok: "inception_ok carol_config" "list_all plain (ic_backers carol_config @ ic_config_traits carol_config)"
    by (simp_all add: inception_ok_def carol_config_defs watcher_key_def plain_def list_all_iff byte_def)
  from hab_inception [OF hab_demo_laws ok(1) inc ev(2)] ok(2) hab_demo_text obtain m sigs where
    "sent_as (hab_demo []) (hb_prefix carol) m sigs ev" "text_json 127 (serder_sad m)" by blast
  from watchers_receipt [OF _ _ sent_message [OF this], of "''pq''"] obtain msg where
    "with_receipts (hab_demo []) ev (map watcher ''pq'') msg" by (auto simp: plain_code byte_def)
  with hab_feed.incepted [OF ok ev] carol_witnesses(1) [of "''pq''"] show ?thesis by fastforce
qed

text \<open>The interaction, with one and with two receipts.\<close>

lemma carol_messages:
  assumes "hab_feed (hab_demo []) carol msgs"
  shows "\<exists>ev msg1 msg2. hab_makes (hab_demo []) carol ev carol_interacted \<and>
    with_receipts (hab_demo []) ev (map watcher ''p'') msg1 \<and> with_receipts (hab_demo []) ev (map watcher ''qr'') msg2"
proof -
  obtain ev where ev: "hab_interact_event (hab_demo []) [] carol = Inr (ev, carol_interacted)" "event_fits ev (hb_prefix carol)"
    using carol_interaction by blast
  then have made: "hab_makes (hab_demo []) carol ev carol_interacted"
    unfolding hab_makes_def by (intro conjI disjI2 exI [of _ "[]"]) simp_all
  let ?st = "(undefined :: unit keri_store)\<lparr>st_store_event := \<lambda>_ _ _ _ _ _. Inr ()\<rparr>"
  have "never_full ?st" by (simp add: never_full_def)
  then obtain kv where "fed (hab_demo []) ?st () Map.empty carol msgs kv"
    using feed_accepted [OF hab_demo_laws hab_demo_wire assms, of Map.empty ?st "()"] by auto
  then have "hab_follows (hab_demo []) carol kv" "plain (hb_prefix carol)" "plain (hb_last_said carol)" by (auto simp: fed_def)
  from made_verifies [OF hab_demo_laws hab_demo_wire this made] obtain m sigs where
    "sent_as (hab_demo []) (hb_prefix carol) m sigs ev" "text_json 127 (serder_sad m)" by blast
  note receipt = watchers_receipt [OF _ _ sent_message [OF this]]
  from receipt [of "''p''"] receipt [of "''qr''"] made show ?thesis by (auto simp: plain_code byte_def)
qed

subsection \<open>Two interactions of one state\<close>

definition bob_twin :: "hab" where
  "bob_twin = bob\<lparr>hb_last_said := said_of_length 206, hb_sn := 1\<rparr>"

lemma bob_other_interaction:
  "\<exists>ev. hab_interact_event (hab_demo docs) [JString ''x''] bob = Inr (ev, bob_twin) \<and> event_fits ev (hb_prefix bob) \<and>
     sd_said ev = said_of_length 206"
proof -
  let ?sad = "ixn_sad bob 1 [JString ''x'']"
  have t: "template ?sad (hb_prefix bob)" by (rule template_ixn) simp
  have len: "length (demo_print (put_said ''d'' (hb_prefix bob = []) (replicate 44 (CHR ''#'')) ?sad)) = 206"
    by (simp add: ixn_sad_def bob_def u64_hex_1 said_of_length_def [of 288])
  have "length (filter (\<lambda>c. c = CHR ''a'') (said_of_length n)) = n mod 44" for n
    by (simp add: said_of_length_def hab_hash_def)
  from this [of 288] this [of 206] have "said_of_length 288 \<noteq> said_of_length 206" by auto
  with bob_event [OF t len, of docs 0] obtain ev where
    ev: "sign_event (hab_demo docs) [bob_signer 0] ?sad = Inr ev" "sd_said ev = said_of_length 206" "event_fits ev (hb_prefix bob)"
    by (auto simp: bob_def)
  have "hab_interact_event (hab_demo docs) [JString ''x''] bob = Inr (ev, bob_twin)"
    using ev(1,2) by (simp add: hab_interact_event_def interact_inner_def persist_def bob_def bob_twin_def)
  with ev show ?thesis by blast
qed

text \<open>Bob has no backers, so what he composed is the message.\<close>

lemma bob_unwitnessed: "with_receipts pr ev [] (sd_composed ev)" "enough_witnesses pr bob []" "enough_witnesses pr bob_interacted []"
  by (simp_all add: with_receipts_def enough_witnesses_def bob_def bob_interacted_def)

lemma bob_feed: "\<exists>msg. hab_feed (hab_demo docs) bob [msg]"
proof -
  obtain ev where ev: "hab_incept_event (hab_demo docs) [] ''bob'' bob_config = Inr (bob, ev)" "event_fits ev []"
    using bob_inception by blast
  have "inception_ok bob_config" "list_all plain (ic_backers bob_config @ ic_config_traits bob_config)"
    by (simp_all add: inception_ok_def bob_config_defs)
  from hab_feed.incepted [OF this ev bob_unwitnessed(1,2)] show ?thesis by blast
qed

lemma bob_equivocates:
  "\<exists>ev1 ev2. hab_makes (hab_demo docs) bob ev1 bob_interacted \<and> hab_makes (hab_demo docs) bob ev2 bob_twin \<and>
     sd_said ev1 \<noteq> sd_said ev2"
proof -
  obtain ev1 where ev1: "hab_interact_event (hab_demo docs) [] bob = Inr (ev1, bob_interacted)" "event_fits ev1 (hb_prefix bob)"
    using bob_interaction by blast
  then have "bob\<lparr>hb_last_said := sd_said ev1, hb_sn := hb_sn bob + 1\<rparr> = bob_interacted"
    by (auto simp: hab_interact_event_def interact_inner_def res_simps)
  from arg_cong [OF this, of hb_last_said] have "hb_last_said bob_interacted = sd_said ev1" by simp
  then have said1: "sd_said ev1 = said_of_length 203" by (simp add: bob_interacted_def)
  obtain ev2 where ev2: "hab_interact_event (hab_demo docs) [JString ''x''] bob = Inr (ev2, bob_twin)" "event_fits ev2 (hb_prefix bob)"
    "sd_said ev2 = said_of_length 206"
    using bob_other_interaction by blast
  have "length (filter (\<lambda>c. c = CHR ''a'') (said_of_length n)) = n mod 44" for n
    by (simp add: said_of_length_def hab_hash_def)
  from this [of 203] this [of 206] have "said_of_length 203 \<noteq> said_of_length 206" by auto
  moreover have "hab_makes (hab_demo docs) bob ev1 bob_interacted"
    unfolding hab_makes_def using ev1 by (intro conjI disjI2 exI [of _ "[]"]) simp_all
  moreover have "hab_makes (hab_demo docs) bob ev2 bob_twin"
    unfolding hab_makes_def using ev2 by (intro conjI disjI2 exI [of _ "[JString ''x'']"]) (simp_all add: plain_code byte_def)
  ultimately show ?thesis using said1 ev2(3) by metis
qed


subsection \<open>A receipt message\<close>

lemma bob_message:
  "\<exists>m. table_for m = V1 \<and> serder_prefix m = Inr (hb_prefix bob) \<and> is_ok (serder_sn m) \<and> is_ok (serder_said m)"
proof -
  obtain ev where "hab_interact_event (hab_demo []) [] bob = Inr (ev, bob_interacted)" and fits: "event_fits ev (hb_prefix bob)"
    using bob_interaction by blast
  then have ev: "sign_event (hab_demo []) (hb_signers bob) (ixn_sad bob (hb_sn bob + 1) []) = Inr ev"
    by (auto simp: hab_interact_event_def interact_inner_def res_simps)
  have t: "template (ixn_sad bob (hb_sn bob + 1) []) (hb_prefix bob)" by (rule template_ixn) simp
  obtain m :: serder where "serder_version m = Some (version_default_v1 JsonKind (length (sd_raw ev)))"
    and sad: "serder_sad m = put_said ''d'' (hb_prefix bob = []) (sd_said ev)
      (jinsert ''v'' (JString (version_text (length (sd_raw ev)))) (ixn_sad bob (hb_sn bob + 1) []))"
    by (rule sign_event_message [OF hab_demo_laws t ev fits]) blast
  moreover have "hb_prefix bob \<noteq> []" by (simp add: bob_def said_of_length_def)
  ultimately show ?thesis
    by (intro exI [of _ m]) (simp add: serder_prefix_def serder_sn_def serder_said_def ixn_sad_def get_str_def next_sn_hex is_ok_iff
        table_for_def version_default_v1_def version_new_def table_from_major_def)
qed

lemma watcher_receipt_message:
  assumes other: "serder_prefix other = Inr p" "is_ok (serder_sn other)" "is_ok (serder_said other)"
    and st: "\<And>s k x. \<exists>s'. st_put_receipts st s k x = Inr s'" and c: "plain [c]"
  shows "\<exists>msg s'. receipt_message (hab_demo docs) st s (watcher c) other = Some (Inr (msg, s'))"
proof -
  obtain n said where n: "serder_sn other = Inr n" "serder_said other = Inr said" using other by (auto simp: is_ok_iff)
  obtain rsaid m where b: "built (hab_demo docs) (rct_sad p n) rsaid m" using demo_built [OF template_rct] by blast
  have ml: "matter_laws (hab_demo docs)" using hab_demo_laws by (simp add: hab_laws_def)
  have "sn_code (hd (hb_signers (watcher c))) = ''A''" by (simp add: demo_signer_def)
  from receipt_is_attachment [OF ml watcher_witnesses [OF c] this] watchers_attachment [of "[c]" docs other] c
  obtain att where "hab_receipt (hab_demo docs) (watcher c) other = Some (Inr att)" by auto
  moreover obtain s' where "st_put_receipts st s said att = Inr s'" using st by blast
  ultimately show ?thesis using other(1) n b by (auto simp: receipt_message_def built_def)
qed

lemma watcher_receipt_length:
  assumes w: "witness_hab (hab_demo docs) (watcher c)" and r: "receipt_message (hab_demo docs) st s (watcher c) other = Some (Inr (msg, s'))"
    and p: "serder_prefix other = Inr p" "plain p" "p \<noteq> []" "length p = 44"
  shows "length msg < 16 ^ 6"
proof -
  obtain n said rsaid m key cg ct q where b: "built (hab_demo docs) (rct_sad p n) rsaid m"
    and cg: "signer_sign (hab_demo docs) (hd (hb_signers (watcher c))) (serder_raw other) = Inr cg"
    and key: "verfer_qb64 (hab_demo docs) (sn_verfer (hd (hb_signers (watcher c)))) = Inr key" and ct: "cigar_qb64 (hab_demo docs) cg = Inr ct"
    and q: "counter_for (hab_demo docs) other NonTransReceiptCouples 1 = Inr q" and msg: "msg = serder_raw m @ q @ key @ ct"
    by (rule receipt_message_steps [OF w r]) (use p(1) in auto)
  have "plain rsaid" using b by (auto simp: built_def compute_said_Inr hab_demo_digest)
  have "length (u64_hex n) \<le> 16" unfolding u64_hex_def hex_def by (rule length_to_radix_le) (use unsigned_less [of n] in simp_all)
  then have len: "length (demo_print (put_said ''d'' (p = []) (replicate 44 (CHR ''#'')) (rct_sad p n))) \<le> 200"
    using p(3,4) by (simp add: rct_sad_def)
  then have "length (demo_print (put_said ''d'' (p = []) (replicate 44 (CHR ''#'')) (rct_sad p n))) < 16 ^ 6" by (rule le_less_trans) simp
  from built_length [OF hab_demo_laws template_rct b \<open>plain rsaid\<close> _ this] len have "length (serder_raw m) \<le> 200"
    by (simp del: demo_print.simps put_said_object)
  moreover have "key = watcher_key c" using key watcher_verfer [of docs c] by simp
  moreover have "length ct = 66" using cg ct
    by (auto simp: demo_signer_def signer_sign_def sign_raw_def algorithm_from_code_def signer_sign_ed25519_def cigar_new_with_verfer_def
        hab_matter_new_def demo_matter_new_def demo_sizes_def length_hab_sign cigar_qb64_def demo_matter_qb64_def split: if_splits)
  moreover have "length q = 3" using q
    by (cases "table_for other") (auto simp: counter_for_def counter_code_for_def demo_counter_new_def demo_counter_qb64_def)
  ultimately show ?thesis by (simp add: msg)
qed

end
