(* ===== verification/Keri_Hab_Read.thy ===== *)
theory Keri_Hab_Read
  imports Keri_Hab_Log
begin

section \<open>The events a hab makes, as they are read\<close>

text \<open>
  \<open>hab.rs\<close> writes its events as JSON literals, \<open>event.rs\<close> reads them into structs by field
  names of its own. The value whose text \<open>sign_event\<close> signs is the template with a version
  string and the digest filled in (\<open>signed_value\<close>), and each template filled in is what the
  struct of its ilk serialises to. No assumption on third-party code is used.
\<close>

text \<open>What a \<open>Serder\<close> built from a template holds.\<close>

lemma built_value:
  assumes t: "template sad p" and b': "built pr sad said s"
  shows "\<exists>k. serder_sad s = filled sad (p = []) said k"
proof -
  from template_object [OF t] obtain obj where obj: "sad = JObject obj" "json_ok (JObject obj)"
    "map_of obj ''v'' = Some (JString ''KERI10JSON000000_'')" "map_of obj ''d'' = Some (JString [])"
    "map_of obj ''i'' = Some (JString p)" by blast
  let ?b = "p = []" and ?V = "\<lambda>n. jinsert ''v'' (JString (version_text n)) (JObject obj)"
  have bv: "is_self_addressing (?V n) ''d'' \<longleftrightarrow> ?b" "is_self_addressing (JObject obj) ''d'' \<longleftrightarrow> ?b" for n
    using obj by (auto simp: is_self_addressing_def update_conv' simp del: map_of_eq_Some_iff)
  from b' obtain sad1 sad2 where f: "fix_version_string pr sad = Inr sad1"
    and cs: "compute_said pr sad1 ''d'' ''E'' JsonKind = Inr (said, sad2)" and n: "serder_new pr JsonKind sad2 = Inr s"
    by (auto simp: built_def)
  from f obj fix_version_string_Inr [OF obj(2) _ obj(4,5), of pr sad1] obtain k where "sad1 = ?V k" by auto
  with cs have sad2: "sad2 = put_said ''d'' ?b said (?V k)" unfolding compute_said_Inr using bv by auto
  have pv: "put_version (version_default_v1 JsonKind m) sad2 = put_said ''d'' ?b said (?V m)" for m
    unfolding put_version_def sad2 version_text_eq [symmetric] using obj
    by (cases ?b; simp; intro alist_ext) (auto simp: keys_update update_conv' fun_eq_iff distinct_update)
  have "get_str sad2 ''v'' = Some (version_text k)" by (simp add: sad2 get_str_eq_Some update_conv')
  with n show ?thesis by (auto simp: serder_new_eq base_version_text pv res_simps Let_def obj(1) filled_def simp del: put_said_object)
qed

lemma signed_value:
  assumes "template sad p" "sign_event pr ss sad = Inr ev"
  shows "\<exists>k. json_to_vec pr (filled sad (p = []) (sd_said ev) k) = Inr (sd_raw ev)"
proof -
  obtain s where s: "built pr sad (sd_said ev) s" "serder_raw s = sd_raw ev" by (rule sign_event_built [OF assms(2)])
  then have "json_to_vec pr (serder_sad s) = Inr (sd_raw ev)"
    by (auto simp: built_def map_err_eq_Inr dest: serder_new_Inr(2))
  with built_value [OF assms(1) s(1)] show ?thesis by auto
qed


subsection \<open>Templates and structs\<close>

lemma filled_icp:
  "filled (icp_sad c keys ds) True said k = icp_to_value
     \<lparr>icp_version = version_text k, icp_ilk = ''icp'', icp_said = said, icp_prefix = said, icp_sn = ''0'',
      icp_keys_threshold = Simple (ic_threshold c), icp_keys = keys, icp_next_threshold = Simple (ic_next_threshold c),
      icp_next_keys = ds, icp_backer_threshold = dec (ic_backer_threshold c), icp_backers = ic_backers c,
      icp_config = ic_config_traits c, icp_anchors = []\<rparr>"
  by (simp add: filled_def icp_sad_def icp_to_value_def)

lemma filled_rot:
  "filled (rot_sad h c sn keys ds) False said k = rot_to_value
     \<lparr>rot_version = version_text k, rot_ilk = ''rot'', rot_said = said, rot_prefix = hb_prefix h, rot_sn = u64_hex sn,
      rot_prior_said = hb_last_said h, rot_keys_threshold = Simple (rc_threshold c), rot_keys = keys,
      rot_next_threshold = Simple (rc_next_threshold c), rot_next_keys = ds, rot_backer_threshold = dec (hb_backer_threshold h),
      rot_backers_remove = rc_backers_remove c, rot_backers_add = rc_backers_add c, rot_config = [], rot_anchors = []\<rparr>"
  by (simp add: filled_def rot_sad_def rot_to_value_def jstrings_def)

lemma filled_ixn:
  "filled (ixn_sad h sn anchors) False said k = ixn_to_value
     \<lparr>ixn_version = version_text k, ixn_ilk = ''ixn'', ixn_said = said, ixn_prefix = hb_prefix h, ixn_sn = u64_hex sn,
      ixn_prior_said = hb_last_said h, ixn_anchors = anchors\<rparr>"
  by (simp add: filled_def ixn_sad_def ixn_to_value_def)


subsection \<open>The operations\<close>

text \<open>A threshold as a message can state it.\<close>

definition statable :: "nat \<Rightarrow> bool" where
  "statable n \<longleftrightarrow> 0 < n \<and> n < 2 ^ 64"

lemma made_inception_reads:
  assumes i: "incept_inner pr rand16 name' c store s = Inr (h, ev, s')"
    and c: "statable (ic_threshold c)" "statable (ic_next_threshold c)" "ic_backer_threshold c < 2 ^ 64"
  shows "\<exists>sad e. json_to_vec pr sad = Inr (sd_raw ev) \<and> icp_from_value sad = Some e \<and> icp_to_value e = sad \<and>
    icp_ilk e = ''icp'' \<and> icp_said e = sd_said ev \<and> icp_prefix e = hb_prefix h \<and> u64_from_hex (icp_sn e) = Some (hb_sn h) \<and>
    icp_keys_threshold e = Simple (ic_threshold c) \<and> key_texts pr (hb_signers h) = Inr (icp_keys e) \<and>
    icp_next_threshold e = Simple (ic_next_threshold c) \<and> next_key_digests pr (hb_next_signers h) = Inr (icp_next_keys e) \<and>
    usize_from_dec (icp_backer_threshold e) = Some (hb_backer_threshold h) \<and> icp_backers e = hb_backers h \<and>
    icp_config e = ic_config_traits c \<and> icp_anchors e = []"
proof -
  obtain keys ds where k: "key_texts pr (hb_signers h) = Inr keys" "next_key_digests pr (hb_next_signers h) = Inr ds"
    and ev: "sign_event pr (hb_signers h) (icp_sad c keys ds) = Inr ev"
    and h: "hb_prefix h = sd_said ev" "hb_sn h = 0" "hb_backer_threshold h = ic_backer_threshold c" "hb_backers h = ic_backers c"
    using i by (auto simp: incept_inner_def res_simps)
  from signed_value [OF template_icp ev] obtain n where
    n: "json_to_vec pr (filled (icp_sad c keys ds) True (sd_said ev) n) = Inr (sd_raw ev)" by auto
  let ?e = "\<lparr>icp_version = version_text n, icp_ilk = ''icp'', icp_said = sd_said ev, icp_prefix = sd_said ev, icp_sn = ''0'',
      icp_keys_threshold = Simple (ic_threshold c), icp_keys = keys, icp_next_threshold = Simple (ic_next_threshold c),
      icp_next_keys = ds, icp_backer_threshold = dec (ic_backer_threshold c), icp_backers = ic_backers c,
      icp_config = ic_config_traits c, icp_anchors = []\<rparr>"
  have "icp_from_value (icp_to_value ?e) = Some ?e"
    using c by (intro icp_codec.dec_enc) (simp add: icp_ok_def statable_def)
  then show ?thesis
    using n k h c zero_hex dec_codec.dec_enc [of "ic_backer_threshold c"]
    by (intro exI [of _ "icp_to_value ?e"] exI [of _ ?e]) (simp add: filled_icp)
qed

lemma made_rotation_reads:
  assumes r: "rotate_inner pr c store s h = (Inr (ev, s'), h')"
    and c: "statable (rc_threshold c)" "statable (rc_next_threshold c)" "hb_backer_threshold h < 2 ^ 64" "hb_prefix h \<noteq> []"
  shows "\<exists>sad e. json_to_vec pr sad = Inr (sd_raw ev) \<and> rot_from_value sad = Some e \<and> rot_to_value e = sad \<and>
    rot_ilk e = ''rot'' \<and> rot_said e = sd_said ev \<and> rot_prefix e = hb_prefix h \<and> u64_from_hex (rot_sn e) = Some (hb_sn h + 1) \<and>
    rot_prior_said e = hb_last_said h \<and>
    rot_keys_threshold e = Simple (rc_threshold c) \<and> key_texts pr (hb_signers h') = Inr (rot_keys e) \<and>
    rot_next_threshold e = Simple (rc_next_threshold c) \<and> next_key_digests pr (hb_next_signers h') = Inr (rot_next_keys e) \<and>
    usize_from_dec (rot_backer_threshold e) = Some (hb_backer_threshold h) \<and>
    rot_backers_remove e = rc_backers_remove c \<and> rot_backers_add e = rc_backers_add c \<and> rot_config e = [] \<and> rot_anchors e = []"
proof -
  from r obtain nss keys ds where k: "key_texts pr (hb_next_signers h) = Inr keys" "next_key_digests pr nss = Inr ds"
    and ev: "sign_event pr (hb_next_signers h) (rot_sad h c (hb_sn h + 1) keys ds) = Inr ev"
    and h': "hb_signers h' = hb_next_signers h" "hb_next_signers h' = nss"
    by (rule rotate_inner_Inr) simp
  from signed_value [OF template_rot ev] c(4) obtain n where
    n: "json_to_vec pr (filled (rot_sad h c (hb_sn h + 1) keys ds) False (sd_said ev) n) = Inr (sd_raw ev)" by auto
  let ?e = "\<lparr>rot_version = version_text n, rot_ilk = ''rot'', rot_said = sd_said ev, rot_prefix = hb_prefix h, rot_sn = u64_hex (hb_sn h + 1),
      rot_prior_said = hb_last_said h, rot_keys_threshold = Simple (rc_threshold c), rot_keys = keys,
      rot_next_threshold = Simple (rc_next_threshold c), rot_next_keys = ds, rot_backer_threshold = dec (hb_backer_threshold h),
      rot_backers_remove = rc_backers_remove c, rot_backers_add = rc_backers_add c, rot_config = [], rot_anchors = []\<rparr>"
  have "rot_from_value (rot_to_value ?e) = Some ?e"
    using c by (intro rot_codec.dec_enc) (simp add: rot_ok_def statable_def)
  then show ?thesis
    using n k h' c next_sn_hex dec_codec.dec_enc [of "hb_backer_threshold h"]
    by (intro exI [of _ "rot_to_value ?e"] exI [of _ ?e]) (simp add: filled_rot)
qed

lemma made_interaction_reads:
  assumes i: "interact_inner pr anchors store s h = Inr (ev, s', h')" and c: "list_all json_ok anchors" "hb_prefix h \<noteq> []"
  shows "\<exists>sad e. json_to_vec pr sad = Inr (sd_raw ev) \<and> ixn_from_value sad = Some e \<and> ixn_to_value e = sad \<and>
    ixn_ilk e = ''ixn'' \<and> ixn_said e = sd_said ev \<and> ixn_prefix e = hb_prefix h \<and> u64_from_hex (ixn_sn e) = Some (hb_sn h + 1) \<and>
    ixn_prior_said e = hb_last_said h \<and> ixn_anchors e = anchors"
proof -
  from i have ev: "sign_event pr (hb_signers h) (ixn_sad h (hb_sn h + 1) anchors) = Inr ev"
    by (auto simp: interact_inner_def res_simps)
  from signed_value [OF template_ixn [OF c(1)] ev] c(2) obtain n where
    n: "json_to_vec pr (filled (ixn_sad h (hb_sn h + 1) anchors) False (sd_said ev) n) = Inr (sd_raw ev)" by auto
  let ?e = "\<lparr>ixn_version = version_text n, ixn_ilk = ''ixn'', ixn_said = sd_said ev, ixn_prefix = hb_prefix h, ixn_sn = u64_hex (hb_sn h + 1),
      ixn_prior_said = hb_last_said h, ixn_anchors = anchors\<rparr>"
  show ?thesis
    using n next_sn_hex ixn_codec.dec_enc [of ?e]
    by (intro exI [of _ "ixn_to_value ?e"] exI [of _ ?e]) (simp add: filled_ixn)
qed


subsection \<open>A rotation without keys\<close>

text \<open>A rotation that lists no keys is refused whatever signatures are attached to it.\<close>

lemma rot_from_object_keys:
  assumes "rot_from_value sad = Some e" "jget sad ''k'' = Some (JArray [])"
  shows "rot_keys e = []"
proof -
  from assms(2) obtain obj where obj: "sad = JObject obj" using jget_eq_Some_object by blast
  from assms(1) obtain fs where "struct_fields rot_fields (JObject obj) = Some fs" "string_list (fs ! 7) = Some (rot_keys e)"
    by (auto simp: rot_from_value_def bind_eq_Some_conv strs_field_def obj)
  then show ?thesis
    using struct_fields_nth [of rot_fields obj fs 7] assms(2) by (simp add: rot_fields_def obj string_list_def)
qed

lemma keyless_rotation_refused:
  assumes "jget (serder_sad m) ''t'' = Some (JString ''rot'')" "jget (serder_sad m) ''k'' = Some (JArray [])"
  shows "verify_update pr kv m sigs \<noteq> Inr ks"
proof
  assume "verify_update pr kv m sigs = Inr ks"
  moreover have "serder_ilk m = Inr ''rot''" using assms(1) by (simp add: serder_ilk_def get_str_def)
  ultimately obtain e where "rot_from_value (serder_sad m) = Some e" "verify_sigs_static pr (serder_raw m) sigs [] (rot_keys_threshold e) = Inr ()"
    using rot_from_object_keys [OF _ assms(2)] by (auto simp: verify_update_Inr plain_rotation_def)
  then show False by (simp add: verify_sigs_static_iff quorum_def not_satisfied_by_none)
qed

lemma keyless_rotation_made:
  assumes "rotate_inner pr c store s h = (Inr (ev, s'), h')" "hb_next_signers h = []"
  shows "\<exists>sad. json_to_vec pr sad = Inr (sd_raw ev) \<and> jget sad ''t'' = Some (JString ''rot'') \<and> jget sad ''k'' = Some (JArray [])"
proof -
  from assms obtain keys ds where k: "key_texts pr [] = Inr keys" and ev: "sign_event pr [] (rot_sad h c (hb_sn h + 1) keys ds) = Inr ev"
    by (auto elim!: rotate_inner_Inr)
  from k have "keys = []" by (simp add: key_texts_def)
  moreover from signed_value [OF template_rot ev] obtain n where
    "json_to_vec pr (filled (rot_sad h c (hb_sn h + 1) keys ds) (hb_prefix h = []) (sd_said ev) n) = Inr (sd_raw ev)" by blast
  ultimately show ?thesis
    by (intro exI [of _ "filled (rot_sad h c (hb_sn h + 1) [] ds) (hb_prefix h = []) (sd_said ev) n"])
      (simp add: filled_def rot_sad_def jstrings_def put_said_def Let_def)
qed

end
