(* ===== verification/Keri_Hab_Live.thy ===== *)
theory Keri_Hab_Live
  imports Keri_Hab
begin

section \<open>A hab is never stuck\<close>

text \<open>
  The operations of a hab return errors from every call they make; a rotation that meets one
  is lost for good. Here no call fails: \<open>total_laws\<close> says for which inputs the code outside
  the repository is documented to succeed, \<open>sound_hab\<close> is the invariant that keeps a hab of
  Ed25519 keys within them, and \<open>hab_obeys\<close> gives a hab any sequence of commands.
\<close>

text \<open>
  Primitives of the right size are built, Argon2 derives a key from a 16 byte salt, an indexed
  signature has an index and a counter a count of up to \<open>limit\<close> (64 for one-character codes), and
  \<open>serde_json\<close> writes every value.
\<close>

definition total_laws :: "prims \<Rightarrow> nat \<Rightarrow> bool" where
  "total_laws pr limit \<longleftrightarrow>
     (\<forall>salt. length salt = 16 \<longrightarrow> is_ok (matter_new pr ''0A'' salt)) \<and>
     (\<forall>pk. length pk = 32 \<longrightarrow> is_ok (matter_new pr ''D'' pk) \<and> is_ok (matter_new pr ''B'' pk)) \<and>
     (\<forall>data. is_ok (matter_new pr ''E'' (h_blake3_256 pr data))) \<and>
     matter_fs pr ''E'' = Some 44 \<and>
     (\<forall>path salt. length salt = 16 \<longrightarrow> (\<exists>seed. argon2id pr 65536 2 1 32 path salt = Inr seed \<and> length seed = 32)) \<and>
     (\<forall>i sig. i < limit \<longrightarrow> length sig = 64 \<longrightarrow>
        (\<exists>x q. indexer_new pr ''A'' i None sig = Inr x \<and> indexer_qb64 pr x = Inr q)) \<and>
     (\<forall>table code n. group_code ControllerIdxSigs table = Some code \<longrightarrow> n \<le> limit \<longrightarrow>
        (\<exists>c q. counter_new pr code n = Inr c \<and> counter_qb64 pr c = Inr q)) \<and>
     (\<forall>v. is_ok (json_to_vec pr v))"

text \<open>A store that accepts every event.\<close>

definition accepting :: "'s keri_store \<Rightarrow> bool" where
  "accepting st \<longleftrightarrow> never_full st \<and>
     (\<forall>s said raw p sn sigs k x. \<exists>s'. st_store_event_with_hab st s said raw p sn sigs k x = Inr s')"

datatype hab_command = Rotate rotation_config | Interact "json list"

fun hab_obeys ::
    "prims \<Rightarrow> 's keri_store \<Rightarrow> 's \<times> hab \<Rightarrow> hab_command list \<Rightarrow> (bytes list \<times> 's \<times> hab) keri_result" where
  "hab_obeys pr st (s, h) [] = Inr ([], s, h)"
| "hab_obeys pr st (s, h) (Rotate config # cmds) =
     (case hab_rotate pr config st s h of (r, h') \<Rightarrow>
        bindR r (\<lambda>(msg, s'). bindR (hab_obeys pr st (s', h') cmds) (\<lambda>(msgs, end'). Inr (msg # msgs, end'))))"
| "hab_obeys pr st (s, h) (Interact anchors # cmds) =
     bindR (hab_interact pr anchors st s h) (\<lambda>(msg, s', h').
     bindR (hab_obeys pr st (s', h') cmds) (\<lambda>(msgs, end'). Inr (msg # msgs, end')))"

fun command_ok :: "nat \<Rightarrow> bool \<Rightarrow> hab_command \<Rightarrow> bool" where
  "command_ok limit transferable (Rotate config) = (transferable \<and> rc_next_count config \<le> limit)"
| "command_ok limit transferable (Interact anchors) = True"


subsection \<open>Making an event succeeds\<close>

definition sound_signer :: "prims \<Rightarrow> signer \<Rightarrow> bool" where
  "sound_signer pr s \<longleftrightarrow> sn_code s = ''A'' \<and> length (sn_raw s) = 32 \<and> is_ok (verfer_qb64 pr (sn_verfer s))"

lemma total_lawsD:
  assumes "total_laws pr limit"
  shows "length salt = 16 \<Longrightarrow> \<exists>m. matter_new pr ''0A'' salt = Inr m"
    and "length pk = 32 \<Longrightarrow> \<exists>m. matter_new pr (if tr then ''D'' else ''B'') pk = Inr m"
    and "\<exists>m. matter_new pr ''E'' (h_blake3_256 pr data) = Inr m"
    and "length salt = 16 \<Longrightarrow> \<exists>seed. argon2id pr 65536 2 1 32 path salt = Inr seed \<and> length seed = 32"
    and "i < limit \<Longrightarrow> length sig = 64 \<Longrightarrow> \<exists>x q. indexer_new pr ''A'' i None sig = Inr x \<and> indexer_qb64 pr x = Inr q"
    and "group_code ControllerIdxSigs table = Some code \<Longrightarrow> n \<le> limit \<Longrightarrow>
      \<exists>c q. counter_new pr code n = Inr c \<and> counter_qb64 pr c = Inr q"
    and "\<exists>bs. json_to_vec pr v = Inr bs"
  using assms unfolding total_laws_def is_ok_iff by (simp_all only: split: if_split) blast+

lemma mapR_ok: "(\<And>x. x \<in> set xs \<Longrightarrow> is_ok (f x)) \<Longrightarrow> is_ok (mapR f xs)"
proof (induction xs)
  case (Cons x xs)
  then obtain y ys where "f x = Inr y" "mapR f xs = Inr ys" by (force simp: is_ok_iff)
  then show ?case by simp
qed simp

lemma sign_loop_ok:
  assumes laws: "total_laws pr limit" "signature_laws pr"
  shows "list_all (sound_signer pr) ss \<Longrightarrow> i + length ss \<le> limit \<Longrightarrow> is_ok (sign_loop pr m i ss)"
proof (induction ss arbitrary: i)
  case (Cons s ss)
  have s: "sn_code s = ''A''" "length (sn_raw s) = 32" using Cons.prems(1) by (simp_all add: sound_signer_def)
  then have "length (ed25519_sign pr (sn_raw s) m) = 64" using laws(2) by (simp add: signature_laws_def)
  moreover have "i < limit" using Cons.prems(2) by simp
  ultimately obtain x q where "indexer_new pr ''A'' i None (ed25519_sign pr (sn_raw s) m) = Inr x" "indexer_qb64 pr x = Inr q"
    using total_lawsD(5) [OF laws(1)] by blast
  moreover from Cons.IH [of "i + 1"] Cons.prems obtain rest where "sign_loop pr m (i + 1) ss = Inr rest" by (auto simp: is_ok_iff)
  ultimately show ?case
    by (simp add: s signer_sign_indexed_def sign_raw_def algorithm_from_code_def signer_sign_ed25519_def
        siger_new_with_verfer_def siger_qb64_def)
qed simp

lemma group_counter_ok:
  assumes "total_laws pr limit" "n \<le> limit"
  shows "is_ok (group_counter pr s ControllerIdxSigs n)"
proof -
  obtain code where "group_code ControllerIdxSigs (table_for s) = Some code" by (cases "table_for s") auto
  moreover from this assms(2) obtain c q where "counter_new pr code n = Inr c" "counter_qb64 pr c = Inr q"
    using total_lawsD(6) [OF assms(1)] by blast
  ultimately show ?thesis by (simp add: group_counter_def counter_code_for_def)
qed

lemma serder_new_ok: "total_laws pr limit \<Longrightarrow> is_ok (serder_new pr JsonKind sad)"
proof -
  assume "total_laws pr limit"
  then obtain enc where "json_to_vec pr v = Inr (enc v)" for v using total_lawsD(7) by metis
  then show ?thesis by (simp add: is_ok_iff serder_new_eq Let_def split: option.split)
qed

lemma digest_ok:
  assumes "total_laws pr limit" "matter_laws pr"
  shows "is_ok (digest_qb64 pr ''E'' data)"
proof -
  obtain m where m: "matter_new pr ''E'' (h_blake3_256 pr data) = Inr m"
    using total_lawsD(3) [OF assms(1)] by blast
  from matter_laws_qb64 [OF assms(2) m] obtain q where "matter_qb64 pr m = Inr q" by blast
  with m show ?thesis by (simp add: digest_qb64_def diger_from_data_def compute_digest_def diger_qb64_def)
qed

lemma fix_version_string_ok:
  assumes "total_laws pr limit"
  shows "\<exists>obj'. fix_version_string pr (JObject obj) = Inr (JObject obj') \<and> map_of obj' ''d'' \<noteq> None"
proof -
  obtain enc where enc: "json_to_vec pr v = Inr (enc v)" for v using total_lawsD(7) [OF assms] by metis
  show ?thesis by (simp add: fix_version_string_def Let_def enc update_conv')
qed

lemma sign_event_ok:
  assumes laws: "total_laws pr limit" "matter_laws pr" "signature_laws pr"
    and ss: "list_all (sound_signer pr) ss" "length ss \<le> limit"
  shows "is_ok (sign_event pr ss (JObject obj))"
proof -
  obtain obj' where fixed: "fix_version_string pr (JObject obj) = Inr (JObject obj')" "map_of obj' ''d'' \<noteq> None"
    using fix_version_string_ok [OF laws(1)] by blast
  obtain enc where enc: "json_to_vec pr v = Inr (enc v)" for v using total_lawsD(7) [OF laws(1)] by metis
  obtain dig where dig: "digest_qb64 pr ''E'' data = Inr (dig data)" for data
    using digest_ok [OF laws(1,2)] unfolding is_ok_iff by metis
  have "matter_fs pr ''E'' = Some 44" using laws(1) by (simp add: total_laws_def)
  then obtain said sad2 where said: "compute_said pr (JObject obj') ''d'' ''E'' JsonKind = Inr (said, sad2)"
    using fixed(2) by (auto simp: compute_said_def Let_def enc dig)
  obtain msg where msg: "serder_new pr JsonKind sad2 = Inr msg" using serder_new_ok [OF laws(1)] by (auto simp: is_ok_iff)
  obtain sigs where sigs: "sign_loop pr (serder_raw msg) 0 ss = Inr sigs"
    using sign_loop_ok [OF laws(1,3) ss(1), of 0] ss(2) by (auto simp: is_ok_iff)
  obtain ctr where "group_counter pr msg ControllerIdxSigs (length ss) = Inr ctr"
    using group_counter_ok [OF laws(1) ss(2)] by (auto simp: is_ok_iff)
  with fixed(1) said msg sigs show ?thesis by (simp add: sign_event_def)
qed

lemma derive_signers_sound:
  assumes laws: "total_laws pr limit" "matter_laws pr" "signature_laws pr" and salt: "length (mat_raw (st_matter salter')) = 16"
  shows "\<exists>ss. derive_signers pr salter' ''A'' tr g n = Inr ss \<and> list_all (sound_signer pr) ss \<and> length ss = n"
proof -
  have one: "\<exists>s. salter_signer pr salter' ''A'' path ''low'' tr = Inr s \<and> sound_signer pr s" for path
  proof -
    obtain seed where seed: "argon2id pr 65536 2 1 32 path (mat_raw (st_matter salter')) = Inr seed" "length seed = 32"
      using total_lawsD(4) [OF laws(1) salt] by blast
    then have "length (ed25519_public pr seed) = 32" using laws(3) by (simp add: signature_laws_def)
    then obtain m where m: "matter_new pr (if tr then ''D'' else ''B'') (ed25519_public pr seed) = Inr m"
      using total_lawsD(2) [OF laws(1)] by blast
    from matter_laws_qb64 [OF laws(2) m] obtain q where "matter_qb64 pr m = Inr q" by blast
    with seed m show ?thesis
      by (cases tr) (auto simp: salter_signer_def key_size_for_code_def stretch_def tier_params_def signer_new_with_transferable_def
          derive_verfer_def algorithm_from_code_def verfer_new_def verfer_validate_code_def verfer_codes_def sound_signer_def verfer_qb64_def)
  qed
  then obtain key where key: "salter_signer pr salter' ''A'' path ''low'' tr = Inr (key path)" "sound_signer pr (key path)" for path
    by metis
  show ?thesis by (simp add: derive_signers_def key mapR_all_Inr list_all_iff)
qed

lemma key_texts_ok: "list_all (sound_signer pr) ss \<Longrightarrow> is_ok (key_texts pr ss)"
  by (auto simp: key_texts_def list_all_iff sound_signer_def is_ok_iff intro!: mapR_ok [unfolded is_ok_iff])

lemma next_key_digests_ok:
  assumes "total_laws pr limit" "matter_laws pr" "list_all (sound_signer pr) ss"
  shows "is_ok (next_key_digests pr ss)"
proof -
  have "is_ok (next_digest pr s)" if "sound_signer pr s" for s
  proof -
    from that obtain q where "verfer_qb64 pr (sn_verfer s) = Inr q" by (auto simp: sound_signer_def is_ok_iff)
    with digest_ok [OF assms(1,2), of q] show ?thesis by (simp add: next_digest_def digest_qb64_def)
  qed
  with assms(3) show ?thesis
    by (auto simp: next_key_digests_def list_all_iff is_ok_iff intro!: mapR_ok [unfolded is_ok_iff])
qed


subsection \<open>The operations succeed and keep the hab sound\<close>

definition sound_hab :: "prims \<Rightarrow> nat \<Rightarrow> hab \<Rightarrow> bool" where
  "sound_hab pr limit h \<longleftrightarrow>
     length (mat_raw (st_matter (hb_salter h))) = 16 \<and> hb_code h = ''A'' \<and>
     list_all (sound_signer pr) (hb_signers h) \<and> length (hb_signers h) \<le> limit \<and>
     list_all (sound_signer pr) (hb_next_signers h) \<and> length (hb_next_signers h) \<le> limit"

lemma persist_ok: "accepting st \<Longrightarrow> is_ok (persist (Some st) s ev p n)"
proof -
  assume "accepting st"
  then obtain s' where "st_store_event st s (sd_said ev) (sd_raw ev) p n (Some (sd_signatures ev)) = Inr s'"
    unfolding accepting_def never_full_def by blast
  then show ?thesis by (simp add: persist_def)
qed

lemma hab_interact_ok:
  assumes laws: "total_laws pr limit" "matter_laws pr" "signature_laws pr" and st: "accepting st" and h: "sound_hab pr limit h"
  shows "\<exists>msg s' h'. hab_interact pr anchors st s h = Inr (msg, s', h') \<and> sound_hab pr limit h' \<and>
    hb_transferable h' = hb_transferable h \<and> hb_sn h' = hb_sn h + 1 \<and> hb_prefix h' = hb_prefix h"
proof -
  obtain ev where ev: "sign_event pr (hb_signers h) (ixn_sad h (hb_sn h + 1) anchors) = Inr ev"
    using sign_event_ok [OF laws] h by (auto simp: sound_hab_def ixn_sad_def is_ok_iff)
  obtain s' where "persist (Some st) s ev (hb_prefix h) (hb_sn h + 1) = Inr s'"
    using persist_ok [OF st, of s ev "hb_prefix h" "hb_sn h + 1"] by (auto simp: is_ok_iff)
  with ev h show ?thesis by (simp add: hab_interact_def interact_inner_def sound_hab_def)
qed

lemma hab_rotate_ok:
  assumes laws: "total_laws pr limit" "matter_laws pr" "signature_laws pr" and st: "accepting st" and h: "sound_hab pr limit h"
    and c: "hb_transferable h" "rc_next_count config \<le> limit"
  shows "\<exists>msg s' h'. hab_rotate pr config st s h = (Inr (msg, s'), h') \<and> sound_hab pr limit h' \<and>
    hb_transferable h' = hb_transferable h \<and> hb_sn h' = hb_sn h + 1 \<and> hb_prefix h' = hb_prefix h"
proof -
  obtain next' where next': "derive_signers pr (hb_salter h) ''A'' True (hb_key_gen h + 1) (rc_next_count config) = Inr next'"
    "list_all (sound_signer pr) next'" "length next' = rc_next_count config"
    using derive_signers_sound [OF laws, of "hb_salter h" True "hb_key_gen h + 1" "rc_next_count config"] h
    by (auto simp: sound_hab_def)
  obtain keys where "key_texts pr (hb_next_signers h) = Inr keys"
    using key_texts_ok h by (auto simp: sound_hab_def is_ok_iff)
  moreover obtain digests where "next_key_digests pr next' = Inr digests"
    using next_key_digests_ok [OF laws(1,2) next'(2)] by (auto simp: is_ok_iff)
  moreover obtain ev where "sign_event pr (hb_next_signers h) (rot_sad h config (hb_sn h + 1) keys digests) = Inr ev"
    using sign_event_ok [OF laws] h by (auto simp: sound_hab_def rot_sad_def is_ok_iff)
  moreover obtain s' where "persist (Some st) s ev (hb_prefix h) (hb_sn h + 1) = Inr s'"
    using persist_ok [OF st, of s ev "hb_prefix h" "hb_sn h + 1"] by (auto simp: is_ok_iff)
  ultimately show ?thesis
    using h c next' by (simp add: hab_rotate_def rotate_inner_def rotation_steps_def sound_hab_def)
qed

lemma hab_incept_ok:
  assumes laws: "total_laws pr limit" "matter_laws pr" "signature_laws pr" and st: "accepting st"
    and c: "ic_code config = ''A''" "ic_count config \<le> limit" "ic_next_count config \<le> limit"
    and salt: "length (case ic_salt config of Some salt \<Rightarrow> salt | None \<Rightarrow> rand16) = 16"
  shows "\<exists>h msg s'. hab_incept pr rand16 name' config st s = Inr (h, msg, s') \<and> sound_hab pr limit h \<and>
    hb_transferable h = ic_transferable config \<and> hb_sn h = 0"
proof -
  let ?salt = "case ic_salt config of Some salt \<Rightarrow> salt | None \<Rightarrow> rand16"
  obtain m where m: "matter_new pr ''0A'' ?salt = Inr m" using total_lawsD(1) [OF laws(1) salt] by blast
  then have raw: "length (mat_raw m) = 16" using matter_lawsD [OF laws(2) m] salt by simp
  have salter: "map_err KeriCrypto (case ic_salt config of Some salt \<Rightarrow> salter_new pr ''0A'' salt
      | None \<Rightarrow> salter_new_random pr rand16) = Inr \<lparr>st_matter = m\<rparr>"
    using m by (simp add: salter_new_def salter_new_random_def split: option.splits)
  note derive = derive_signers_sound [OF laws, of "\<lparr>st_matter = m\<rparr>" "ic_transferable config"]
  obtain ss where ss: "derive_signers pr \<lparr>st_matter = m\<rparr> ''A'' (ic_transferable config) 0 (ic_count config) = Inr ss"
    "list_all (sound_signer pr) ss" "length ss = ic_count config"
    using derive [of 0 "ic_count config"] raw by auto
  obtain next' where next': "derive_signers pr \<lparr>st_matter = m\<rparr> ''A'' (ic_transferable config) 1 (ic_next_count config) = Inr next'"
    "list_all (sound_signer pr) next'" "length next' = ic_next_count config"
    using derive [of 1 "ic_next_count config"] raw by auto
  obtain keys where "key_texts pr ss = Inr keys" using key_texts_ok [OF ss(2)] by (auto simp: is_ok_iff)
  moreover obtain digests where "next_key_digests pr next' = Inr digests"
    using next_key_digests_ok [OF laws(1,2) next'(2)] by (auto simp: is_ok_iff)
  moreover obtain ev where "sign_event pr ss (icp_sad config keys digests) = Inr ev"
    using sign_event_ok [OF laws ss(2)] ss(3) c(2) by (auto simp: icp_sad_def is_ok_iff)
  moreover obtain bs where "json_to_vec pr (icp_hab_data name' config (sd_said ev)) = Inr bs"
    using total_lawsD(7) [OF laws(1)] by blast
  moreover obtain s' where "st_store_event_with_hab st s (sd_said ev) (sd_raw ev) (sd_said ev) 0 (Some (sd_signatures ev)) name' bs = Inr s'"
    using st unfolding accepting_def by blast
  ultimately show ?thesis
    using salter ss next' c raw by (simp add: hab_incept_def incept_inner_def sound_hab_def)
qed

lemma hab_obeys_ok:
  assumes laws: "total_laws pr limit" "matter_laws pr" "signature_laws pr" and st: "accepting st"
  shows "sound_hab pr limit h \<Longrightarrow> list_all (command_ok limit (hb_transferable h)) cmds \<Longrightarrow>
    \<exists>msgs s' h'. hab_obeys pr st (s, h) cmds = Inr (msgs, s', h') \<and> length msgs = length cmds \<and>
      sound_hab pr limit h' \<and> hb_sn h' = hb_sn h + of_nat (length cmds) \<and> hb_prefix h' = hb_prefix h"
proof (induction cmds arbitrary: s h)
  case (Cons cmd cmds)
  have *: ?case
    if h': "sound_hab pr limit h'" "hb_transferable h' = hb_transferable h" "hb_sn h' = hb_sn h + 1" "hb_prefix h' = hb_prefix h"
      and run: "\<And>msgs end'. hab_obeys pr st (s', h') cmds = Inr (msgs, end') \<Longrightarrow> hab_obeys pr st (s, h) (cmd # cmds) = Inr (msg # msgs, end')"
    for msg s' h'
  proof -
    from Cons.IH [OF h'(1), of s'] Cons.prems(2) h'(2) obtain msgs s2 h2 where
      "hab_obeys pr st (s', h') cmds = Inr (msgs, s2, h2)" "length msgs = length cmds" "sound_hab pr limit h2"
      "hb_sn h2 = hb_sn h' + of_nat (length cmds)" "hb_prefix h2 = hb_prefix h'" by auto
    with run h' show ?thesis by simp
  qed
  show ?case
  proof (cases cmd)
    case (Rotate config)
    with Cons.prems(2) have "hb_transferable h" "rc_next_count config \<le> limit" by simp_all
    from hab_rotate_ok [OF laws st Cons.prems(1) this] obtain msg s' h' where
      "hab_rotate pr config st s h = (Inr (msg, s'), h')" and h': "sound_hab pr limit h'"
      "hb_transferable h' = hb_transferable h" "hb_sn h' = hb_sn h + 1" "hb_prefix h' = hb_prefix h" by blast
    then show ?thesis by (intro * [where msg = msg and s' = s', OF h']) (simp add: Rotate)
  next
    case (Interact anchors)
    from hab_interact_ok [OF laws st Cons.prems(1)] obtain msg s' h' where
      "hab_interact pr anchors st s h = Inr (msg, s', h')" and h': "sound_hab pr limit h'"
      "hb_transferable h' = hb_transferable h" "hb_sn h' = hb_sn h + 1" "hb_prefix h' = hb_prefix h" by blast
    then show ?thesis by (intro * [where msg = msg and s' = s', OF h']) (simp add: Interact)
  qed
qed simp

end
