(* ===== verification/Keri_Lmdb_Open.thy ===== *)
theory Keri_Lmdb_Open
  imports Keri_Lmdb
begin

section \<open>Opening an LMDB store\<close>

text \<open>
  \<open>LmdbStore::open\<close>, \<open>open_with_config\<close> and \<open>sync\<close> of \<open>lmdb.rs\<close>. The record \<open>lmdb_handle\<close>
  is the struct; a database handle is the name it was created with. What the code calls of
  the file system and of the environment builder of \<open>heed\<close> is the record \<open>lmdb_os\<close>, over a
  file system \<open>'d\<close>, with its documented behaviour in \<open>lmdb_os_laws\<close>: creating a database that
  exists opens it, and creating one or syncing changes no entry. The lemmas tie the handles to the
  names that the operations of \<open>Keri_Lmdb\<close> use, and show that opening a store finds in it
  what the environment held.
\<close>

record lmdb_config =
  lc_no_sync :: bool
  lc_write_map :: bool

definition lmdb_config_default :: "lmdb_config" where
  "lmdb_config_default = \<lparr>lc_no_sync = False, lc_write_map = False\<rparr>"

definition MAX_MAP_SIZE :: "nat" where "MAX_MAP_SIZE = 1024 * 1024 * 1024"
definition MAX_DBS :: "nat" where "MAX_DBS = 20"

datatype env_flag = NO_SYNC | WRITE_MAP | MAP_ASYNC

text \<open>\<open>EnvOpenOptions\<close>, as far as the code sets it.\<close>

record open_options =
  oo_map_size :: "nat option"
  oo_max_dbs :: "nat option"
  oo_flags :: "env_flag set"

record ('d, 'e) lmdb_os =
  os_create_dir_all :: "'d \<Rightarrow> string \<Rightarrow> string + 'd"
  os_open :: "open_options \<Rightarrow> 'd \<Rightarrow> string \<Rightarrow> string + 'd \<times> 'e"
  os_create_database :: "'e \<Rightarrow> string \<Rightarrow> string + 'e"
  os_force_sync :: "'e \<Rightarrow> string + 'e"

definition lmdb_os_laws :: "'e heed \<Rightarrow> ('d, 'e) lmdb_os \<Rightarrow> bool" where
  "lmdb_os_laws h os \<longleftrightarrow>
     (\<forall>t d t'. os_create_database os t d = Inr t' \<longrightarrow> h_content (Rep_heed h) t' = h_content (Rep_heed h) t) \<and>
     (\<forall>e e'. os_force_sync os e = Inr e' \<longrightarrow> h_content (Rep_heed h) e' = h_content (Rep_heed h) e)"

record 'e lmdb_handle =
  ls_path :: string
  ls_env :: 'e
  ls_evts :: string
  ls_kels :: string
  ls_fels :: string
  ls_dtss :: string
  ls_sigs :: string
  ls_wigs :: string
  ls_rcts :: string
  ls_states :: string
  ls_ooes :: string
  ls_pses :: string
  ls_habs :: string

text \<open>The databases, created in one write transaction; a handle is the name.\<close>

definition create_database :: "('d, 'e) lmdb_os \<Rightarrow> 'e \<Rightarrow> string \<Rightarrow> ('e \<times> string) db_result" where
  "create_database os t name' = bindR (lm (os_create_database os t name')) (\<lambda>t'. Inr (t', name'))"

definition open_databases :: "'e heed \<Rightarrow> ('d, 'e) lmdb_os \<Rightarrow> string \<Rightarrow> 'e \<Rightarrow> 'e lmdb_handle db_result" where
  "open_databases h os path env =
     bindR (lm (h_write_txn (Rep_heed h) env)) (\<lambda>wtxn.
     bindR (create_database os wtxn ''evts'') (\<lambda>(wtxn, evts).
     bindR (create_database os wtxn ''kels'') (\<lambda>(wtxn, kels).
     bindR (create_database os wtxn ''fels'') (\<lambda>(wtxn, fels).
     bindR (create_database os wtxn ''dtss'') (\<lambda>(wtxn, dtss).
     bindR (create_database os wtxn ''sigs'') (\<lambda>(wtxn, sigs).
     bindR (create_database os wtxn ''wigs'') (\<lambda>(wtxn, wigs).
     bindR (create_database os wtxn ''rcts'') (\<lambda>(wtxn, rcts).
     bindR (create_database os wtxn ''states'') (\<lambda>(wtxn, states).
     bindR (create_database os wtxn ''ooes'') (\<lambda>(wtxn, ooes).
     bindR (create_database os wtxn ''pses'') (\<lambda>(wtxn, pses).
     bindR (create_database os wtxn ''habs'') (\<lambda>(wtxn, habs).
     bindR (lm (h_commit (Rep_heed h) wtxn)) (\<lambda>env'.
     Inr \<lparr>ls_path = path, ls_env = env', ls_evts = evts, ls_kels = kels, ls_fels = fels, ls_dtss = dtss, ls_sigs = sigs,
          ls_wigs = wigs, ls_rcts = rcts, ls_states = states, ls_ooes = ooes, ls_pses = pses, ls_habs = habs\<rparr>)))))))))))))"

definition lmdb_open :: "'e heed \<Rightarrow> ('d, 'e) lmdb_os \<Rightarrow> string \<Rightarrow> 'd \<Rightarrow> ('d \<times> 'e lmdb_handle) db_result" where
  "lmdb_open h os path disk =
     bindR (map_err (\<lambda>_. Database ''failed to create db dir'') (os_create_dir_all os disk path)) (\<lambda>disk.
     bindR (lm (os_open os \<lparr>oo_map_size = Some MAX_MAP_SIZE, oo_max_dbs = Some MAX_DBS, oo_flags = {}\<rparr> disk path)) (\<lambda>(disk, env).
     bindR (open_databases h os path env) (\<lambda>store. Inr (disk, store))))"

definition config_flags :: "lmdb_config \<Rightarrow> env_flag set" where
  "config_flags config =
     (if lc_no_sync config then {NO_SYNC} else {}) \<union> (if lc_write_map config then {WRITE_MAP, MAP_ASYNC} else {})"

definition lmdb_open_with_config ::
    "'e heed \<Rightarrow> ('d, 'e) lmdb_os \<Rightarrow> string \<Rightarrow> lmdb_config \<Rightarrow> 'd \<Rightarrow> ('d \<times> 'e lmdb_handle) db_result" where
  "lmdb_open_with_config h os path config disk =
     bindR (map_err (\<lambda>_. Database ''failed to create db dir'') (os_create_dir_all os disk path)) (\<lambda>disk.
     let opts = \<lparr>oo_map_size = Some MAX_MAP_SIZE, oo_max_dbs = Some MAX_DBS, oo_flags = {}\<rparr>;
         flags = config_flags config;
         opts = (if flags \<noteq> {} then opts\<lparr>oo_flags := flags\<rparr> else opts) in
     bindR (lm (os_open os opts disk path)) (\<lambda>(disk, env).
     bindR (open_databases h os path env) (\<lambda>store. Inr (disk, store))))"

definition lmdb_sync :: "('d, 'e) lmdb_os \<Rightarrow> 'e lmdb_handle \<Rightarrow> 'e lmdb_handle db_result" where
  "lmdb_sync os store =
     bindR (map_err (\<lambda>_. Database ''sync failed'') (os_force_sync os (ls_env store))) (\<lambda>env'. Inr (store\<lparr>ls_env := env'\<rparr>))"


subsection \<open>An opened store\<close>

text \<open>The handles of a store are the names that its operations use.\<close>

definition well_opened :: "'e lmdb_handle \<Rightarrow> bool" where
  "well_opened s \<longleftrightarrow>
     ls_evts s = ''evts'' \<and> ls_kels s = ''kels'' \<and> ls_fels s = ''fels'' \<and> ls_dtss s = ''dtss'' \<and> ls_sigs s = ''sigs'' \<and>
     ls_wigs s = ''wigs'' \<and> ls_rcts s = ''rcts'' \<and> ls_states s = ''states'' \<and> ls_ooes s = ''ooes'' \<and>
     ls_pses s = ''pses'' \<and> ls_habs s = ''habs''"

lemma create_database_content:
  assumes "lmdb_os_laws h os" "create_database os t name' = Inr r"
  shows "snd r = name' \<and> h_content (Rep_heed h) (fst r) = h_content (Rep_heed h) t"
  using assms by (auto simp: create_database_def lmdb_os_laws_def res_simps)

lemma lmdb_view_content: "h_content (Rep_heed h) e' = h_content (Rep_heed h) e \<Longrightarrow> lmdb_view h e' = lmdb_view h e"
  by (simp add: lmdb_view_def)

lemma open_databases_content:
  assumes laws: "lmdb_os_laws h os" and o': "open_databases h os path env = Inr store"
  shows "well_opened store \<and> ls_path store = path \<and> h_content (Rep_heed h) (ls_env store) = h_content (Rep_heed h) env"
  using o' unfolding open_databases_def
  by (auto simp: well_opened_def res_simps case_prod_beta dest!: create_database_content [OF laws] heed_lawsD)

text \<open>Opening a store loses nothing and invents nothing.\<close>

lemma open_keeps_view:
  assumes laws: "lmdb_os_laws h os" and o': "lmdb_open_with_config h os path config disk = Inr (disk', store)"
  shows "\<exists>opts disk0 env. os_create_dir_all os disk path = Inr disk0 \<and> os_open os opts disk0 path = Inr (disk', env) \<and>
    oo_max_dbs opts = Some MAX_DBS \<and> well_opened store \<and> lmdb_view h (ls_env store) = lmdb_view h env"
proof -
  let ?none = "\<lparr>oo_map_size = Some MAX_MAP_SIZE, oo_max_dbs = Some MAX_DBS, oo_flags = {}\<rparr>"
  let ?opts = "if config_flags config \<noteq> {} then ?none\<lparr>oo_flags := config_flags config\<rparr> else ?none"
  from o' obtain disk0 env where "os_create_dir_all os disk path = Inr disk0" "os_open os ?opts disk0 path = Inr (disk', env)"
    "open_databases h os path env = Inr store"
    by (auto simp: lmdb_open_with_config_def Let_def res_simps split del: if_split)
  moreover have "oo_max_dbs ?opts = Some MAX_DBS" by simp
  ultimately show ?thesis using open_databases_content [OF laws] lmdb_view_content [of h] by blast
qed

text \<open>The default configuration is the plain opening.\<close>

lemma open_default: "lmdb_open_with_config h os path lmdb_config_default disk = lmdb_open h os path disk"
  by (simp add: lmdb_open_with_config_def lmdb_open_def config_flags_def lmdb_config_default_def)

lemma sync_keeps_view:
  "lmdb_os_laws h os \<Longrightarrow> lmdb_sync os store = Inr store' \<Longrightarrow>
     lmdb_view h (ls_env store') = lmdb_view h (ls_env store) \<and> (well_opened store \<longrightarrow> well_opened store')"
  by (auto simp: lmdb_sync_def lmdb_os_laws_def well_opened_def res_simps intro!: lmdb_view_content)

end
