(* ===== verification/Hab_Properties.thy ===== *)
theory Hab_Properties
  imports Keri_Witness_Demo Keri_Hab_Read Keri_Hab_Live Data_Properties Keri_Equivocation Keri_Receipt Keri_Lmdb_Open Node_Properties
begin

section \<open>Properties of habs\<close>

text \<open>
  What \<open>hab.rs\<close> and \<open>habery.rs\<close> promise, over every third-party instance that satisfies
  \<open>hab_laws\<close>. The witnesses follow the hab \<open>bob\<close> of \<open>Keri_Hab_Demo\<close>.
\<close>

text \<open>C19: Events as made are events as read. What a hab signs is the text of a value that the struct of its ilk reads, and
  that the struct serialises back to, field by field. An inception lists the public keys of the hab's signers and the digests
  of its next ones under the two thresholds of the configuration, with the hab's backers; a rotation
  lists the keys of the signers it installs and the digests of the new next ones, names the hab's prefix, the
  next sequence number and the last digest, and cuts and adds the backers of the configuration; an
  interaction names the same and carries the anchors. The templates of \<open>hab.rs\<close> and the field
  names of \<open>event.rs\<close> are written apart from each other. The thresholds are those a message can
  state, and the hab has a prefix.\<close>

theorem made_events_read:
  "(incept_inner pr rand16 name' ic store s = Inr (h, ev, s') \<and> statable (ic_threshold ic) \<and> statable (ic_next_threshold ic) \<and>
      ic_backer_threshold ic < 2 ^ 64 \<longrightarrow>
    (\<exists>sad e. json_to_vec pr sad = Inr (sd_raw ev) \<and> icp_from_value sad = Some e \<and> icp_to_value e = sad \<and>
      icp_ilk e = ''icp'' \<and> icp_said e = sd_said ev \<and> icp_prefix e = hb_prefix h \<and> u64_from_hex (icp_sn e) = Some (hb_sn h) \<and>
      icp_keys_threshold e = Simple (ic_threshold ic) \<and> key_texts pr (hb_signers h) = Inr (icp_keys e) \<and>
      icp_next_threshold e = Simple (ic_next_threshold ic) \<and> next_key_digests pr (hb_next_signers h) = Inr (icp_next_keys e) \<and>
      usize_from_dec (icp_backer_threshold e) = Some (hb_backer_threshold h) \<and> icp_backers e = hb_backers h \<and>
      icp_config e = ic_config_traits ic \<and> icp_anchors e = [])) \<and>
   (rotate_inner pr rc store s k = (Inr (ev, s'), k') \<and> statable (rc_threshold rc) \<and> statable (rc_next_threshold rc) \<and>
      hb_backer_threshold k < 2 ^ 64 \<and> hb_prefix k \<noteq> [] \<longrightarrow>
    (\<exists>sad e. json_to_vec pr sad = Inr (sd_raw ev) \<and> rot_from_value sad = Some e \<and> rot_to_value e = sad \<and>
      rot_ilk e = ''rot'' \<and> rot_said e = sd_said ev \<and> rot_prefix e = hb_prefix k \<and> u64_from_hex (rot_sn e) = Some (hb_sn k + 1) \<and>
      rot_prior_said e = hb_last_said k \<and>
      rot_keys_threshold e = Simple (rc_threshold rc) \<and> key_texts pr (hb_signers k') = Inr (rot_keys e) \<and>
      rot_next_threshold e = Simple (rc_next_threshold rc) \<and> next_key_digests pr (hb_next_signers k') = Inr (rot_next_keys e) \<and>
      usize_from_dec (rot_backer_threshold e) = Some (hb_backer_threshold k) \<and>
      rot_backers_remove e = rc_backers_remove rc \<and> rot_backers_add e = rc_backers_add rc \<and> rot_config e = [] \<and> rot_anchors e = [])) \<and>
   (interact_inner pr anchors store s k = Inr (ev, s', k') \<and> list_all json_ok anchors \<and> hb_prefix k \<noteq> [] \<longrightarrow>
    (\<exists>sad e. json_to_vec pr sad = Inr (sd_raw ev) \<and> ixn_from_value sad = Some e \<and> ixn_to_value e = sad \<and>
      ixn_ilk e = ''ixn'' \<and> ixn_said e = sd_said ev \<and> ixn_prefix e = hb_prefix k \<and> u64_from_hex (ixn_sn e) = Some (hb_sn k + 1) \<and>
      ixn_prior_said e = hb_last_said k \<and> ixn_anchors e = anchors))"
  by (intro conjI impI; elim conjE) (rule made_inception_reads made_rotation_reads made_interaction_reads; assumption)+

theorem made_events_read_witness:
  "\<exists>ev sad e. rotate_inner (hab_demo []) rotation_config_default None () bob = (Inr (ev, ()), bob_rotated) \<and>
     json_to_vec (hab_demo []) sad = Inr (sd_raw ev) \<and> rot_from_value sad = Some e \<and>
     rot_keys e = [bob_key 1] \<and> rot_next_keys e = [bob_digest 3] \<and> rot_prior_said e = hb_last_said bob"
proof -
  let ?pr = "hab_demo []" and ?c = "rotation_config_default"
  obtain ev where "hab_rotate_event ?pr ?c bob = (Inr ev, bob_rotated)" using bob_rotation by blast
  then have r: "rotate_inner ?pr ?c None () bob = (Inr (ev, ()), bob_rotated)"
    by (auto simp: hab_rotate_event_def res_simps split: prod.splits)
  have "statable (rc_threshold ?c) \<and> statable (rc_next_threshold ?c) \<and> hb_backer_threshold bob < 2 ^ 64 \<and> hb_prefix bob \<noteq> []"
    by (simp add: statable_def rotation_config_default_def bob_def said_of_length_def)
  with r made_events_read [THEN conjunct2, THEN conjunct1, of ?pr ?c None "()" bob ev "()" bob_rotated] obtain sad e where
    "json_to_vec ?pr sad = Inr (sd_raw ev)" "rot_from_value sad = Some e" "rot_prior_said e = hb_last_said bob"
    "key_texts ?pr (hb_signers bob_rotated) = Inr (rot_keys e)" "next_key_digests ?pr (hb_next_signers bob_rotated) = Inr (rot_next_keys e)"
    by blast
  with r show ?thesis by (auto simp: bob_rotated_def bob_texts)
qed

text \<open>C36: The log a hab makes verifies. Whatever inceptions, rotations and interactions a hab makes whose thresholds can be met,
  a verifier accepts the inception and after it every event of the log, as composed by the
  composer, and ends in step with the hab: same prefix, sequence number and last digest, the
  hab's signers hold the keys in force and its next signers the keys committed to.\<close>

theorem hab_log_accepted:
  assumes "hab_laws pr" "hab_log pr h first evs"
  shows "\<exists>s sigs vs kv0 es kv. sent_as pr (hb_prefix h) s sigs first \<and> kever_new pr s sigs vs = Inr kv0 \<and>
    list_all2 (\<lambda>e ev. sent_as pr (hb_prefix h) (event_serder e) (event_sigs e) ev) es evs \<and>
    kel_run pr kv0 es = Some kv \<and> hab_follows pr h kv"
  by (rule hab_log_verifies [OF assms])

lemma bob_logs:
  "\<exists>first ev. hab_log (hab_demo docs) bob_rotated first [ev]"
  "\<exists>first. hab_log (hab_demo docs) bob first []"
proof -
  obtain first where "hab_incept_event (hab_demo docs) [] ''bob'' bob_config = Inr (bob, first)" "event_fits first []"
    using bob_inception by blast
  then have log: "hab_log (hab_demo docs) bob first []"
    by (intro hab_log.incepted [of bob_config]) (simp_all add: inception_ok_def bob_config_defs)
  then show "\<exists>first. hab_log (hab_demo docs) bob first []" by blast
  obtain ev where "hab_rotate_event (hab_demo docs) rotation_config_default bob = (Inr ev, bob_rotated)" "event_fits ev (hb_prefix bob)"
    using bob_rotation by blast
  then have "hab_log (hab_demo docs) bob_rotated first ([] @ [ev])"
    by (intro hab_log.rotated [OF log, of rotation_config_default])
      (simp_all add: rotation_ok_def rotation_config_default_def bob_def new_backers_def)
  then show "\<exists>first ev. hab_log (hab_demo docs) bob_rotated first [ev]" by auto
qed

theorem hab_log_accepted_witness:
  "\<exists>kv0 e kv. kel_run (hab_demo []) kv0 [e] = Some kv \<and> ks_sn (kv_state kv) = 1 \<and>
     ks_prefix (kv_state kv) = hb_prefix bob \<and> ks_keys (kv_state kv) = [bob_key 1]"
proof -
  obtain first ev where "hab_log (hab_demo []) bob_rotated first [ev]" using bob_logs by blast
  from hab_log_accepted [OF hab_demo_laws this] obtain kv0 es kv where
    "kel_run (hab_demo []) kv0 es = Some kv" "length es = 1" and f: "hab_follows (hab_demo []) bob_rotated kv"
    by (auto dest: list_all2_lengthD)
  then obtain e where "kel_run (hab_demo []) kv0 [e] = Some kv" by (auto simp: length_Suc_conv)
  moreover from f have "ks_sn (kv_state kv) = 1 \<and> ks_prefix (kv_state kv) = hb_prefix bob \<and> ks_keys (kv_state kv) = [bob_key 1]"
    by (auto simp: hab_follows_def Let_def bob_rotated_def bob_signer_def demo_key_text bob_key_def list_all2_Cons2)
  ultimately show ?thesis by blast
qed

text \<open>C37: A witnessed log gets through. Whatever a hab does (inception, rotations, interactions), if enough of its backers
  receipt each event, then a node whose store does not fail accepts every message, from the
  bytes on (the composed event followed by the composed receipts, read by the parser, checked,
  stored), and its verifier of the prefix ends in step with the hab, as its key state entry
  reports.\<close>

theorem hab_and_node_in_step:
  assumes "hab_laws pr" "wire_laws pr" "hab_feed pr h msgs" "kevers (hb_prefix h) = None" "never_full st"
  shows "\<exists>s1 kv. node_run pr st (s, kevers) msgs = Some (s1, kevers(hb_prefix h \<mapsto> kv)) \<and> hab_follows pr h kv \<and>
    key_state_entry_from kv = \<lparr>kse_prefix = hb_prefix h, kse_sn = hb_sn h, kse_said = hb_last_said h\<rparr>"
proof -
  obtain kv where "fed pr st s kevers h msgs kv" using feed_accepted [where kevers = kevers, OF assms] by blast
  then show ?thesis
    by (auto simp: fed_def key_state_entry_from_def kever_prefix_def kever_sn_def hab_follows_def Let_def)
qed

lemma demo_readable: "readable (lmdb_store demo_heed)"
  by (simp add: readable_def demo_gets)

lemma demo_unseen: "sv_fels (lmdb_view demo_heed demo_empty) (p, k) = None"
  by (simp add: demo_empty_view)

theorem hab_and_node_in_step_witness:
  "\<exists>msgs s1 kv. node_run (hab_demo []) (lmdb_store demo_heed) (demo_empty, Map.empty) msgs = Some (s1, [hb_prefix carol \<mapsto> kv]) \<and>
     length msgs = 2 \<and> ks_sn (kv_state kv) = 1 \<and> ks_backer_threshold (kv_state kv) = 2"
proof -
  obtain msg0 where feed: "hab_feed (hab_demo []) carol [msg0]" using carol_incepted by blast
  obtain ev msg where "hab_makes (hab_demo []) carol ev carol_interacted" "with_receipts (hab_demo []) ev (map watcher ''qr'') msg"
    using carol_messages [OF feed] by blast
  with hab_feed.continued [OF feed] carol_witnesses(2) [of "''qr''"]
  have "hab_feed (hab_demo []) carol_interacted ([msg0] @ [msg])" by fastforce
  from hab_and_node_in_step [where kevers = Map.empty, OF hab_demo_laws hab_demo_wire this _ demo_never_full, of demo_empty] obtain s1 kv where
    "node_run (hab_demo []) (lmdb_store demo_heed) (demo_empty, Map.empty) [msg0, msg] = Some (s1, [hb_prefix carol_interacted \<mapsto> kv])"
    "hab_follows (hab_demo []) carol_interacted kv" by auto
  then show ?thesis
    by (intro exI [of _ "[msg0, msg]"] exI [of _ s1] exI [of _ kv])
      (simp add: hab_follows_def Let_def carol_interacted_def carol_def del: node_run.simps)
qed

text \<open>C13: Witnesses decide. A node that accepted what a hab sent so far processes its next event with some receipts attached if
  and only if the distinct backers of the hab's new state among the receipting witnesses
  reach its threshold: receipts of strangers and repeated receipts do not help, and nothing
  else in an honest message can make the node refuse it.\<close>

theorem witnesses_decide:
  assumes "hab_laws pr" "wire_laws pr" "hab_feed pr h msgs" "kevers (hb_prefix h) = None" "never_full st"
    and "node_run pr st (s, kevers) msgs = Some (s1, kevers1)" "hab_makes pr h ev h'" "with_receipts pr ev ws msg"
  shows "(\<exists>res. process_message pr st msg s1 kevers1 = Some (Inr res)) \<longleftrightarrow>
    hb_backer_threshold h' \<le> card (set (hb_backers h') \<inter> witness_prefixes pr ws)"
proof -
  obtain kv where "fed pr st s kevers h msgs kv" using feed_accepted [where kevers = kevers, OF assms(1-5)] by blast
  from next_event(1) [OF assms(1,2) this assms(7,8,5,6)] show ?thesis by (simp add: enough_witnesses_def)
qed

theorem witnesses_decide_witness:
  "\<exists>s1 kevers1 msg1 msg2. (\<nexists>res. process_message (hab_demo []) (lmdb_store demo_heed) msg1 s1 kevers1 = Some (Inr res)) \<and>
     (\<exists>res. process_message (hab_demo []) (lmdb_store demo_heed) msg2 s1 kevers1 = Some (Inr res))"
proof -
  obtain msg0 where feed: "hab_feed (hab_demo []) carol [msg0]" using carol_incepted by blast
  obtain ev msg1 msg2 where msgs: "hab_makes (hab_demo []) carol ev carol_interacted"
    "with_receipts (hab_demo []) ev (map watcher ''p'') msg1" "with_receipts (hab_demo []) ev (map watcher ''qr'') msg2"
    using carol_messages [OF feed] by blast
  obtain s1 kevers1 where "node_run (hab_demo []) (lmdb_store demo_heed) (demo_empty, Map.empty) [msg0] = Some (s1, kevers1)"
    using feed_accepted [OF hab_demo_laws hab_demo_wire feed _ demo_never_full, of Map.empty demo_empty] by (auto simp: fed_def)
  note decide = witnesses_decide [where kevers = Map.empty, OF hab_demo_laws hab_demo_wire feed _ demo_never_full this msgs(1)]
  from decide [OF _ msgs(2)] decide [OF _ msgs(3)] carol_witnesses(2) [of "''p''"] carol_witnesses(2) [of "''qr''"] show ?thesis
    by (intro exI [of _ s1] exI [of _ kevers1] exI [of _ msg1] exI [of _ msg2]) (simp add: enough_witnesses_def)
qed

text \<open>C17: A new message reads back. Where the encoding writes the six size digits at one byte each
  (\<open>size_stable\<close>) and the message is below 16 MiB, the version of a message that \<open>Serder::new\<close>
  built carries the length of its bytes, in the field and in the text of the value, whose other
  members stay. If it is JSON with the version in front, of plain texts and of a protocol the reader knows, then
  \<open>Serder::from_raw\<close> reads exactly that message off the front of any buffer, whatever bytes follow.\<close>

theorem new_message_reads_back:
  assumes "serder_new pr kind sad = Inr s" "get_str sad ''v'' = Some vs"
    and "serialize_value pr sad kind = Inr raw" "length raw < 16 ^ 6"
    and "size_stable pr kind (base_version kind vs) sad"
  shows "(\<exists>ver. serder_version s = Some ver \<and> v_size ver = length (serder_raw s) \<and>
      serialize_value pr (serder_sad s) kind = Inr (serder_raw s) \<and>
      jget (serder_sad s) ''v'' = Some (JString (to_version_string ver)) \<and>
      (\<forall>k. k \<noteq> ''v'' \<longrightarrow> jget (serder_sad s) k = jget sad k)) \<and>
    (kind = JsonKind \<longrightarrow> json_text_laws pr \<longrightarrow> text_json 127 sad \<longrightarrow> (\<exists>mem. sad = JObject ((''v'', JString vs) # mem)) \<longrightarrow>
      v_protocol (base_version kind vs) \<in> set protocols \<longrightarrow> serder_from_raw pr (serder_raw s @ rest) = Inr s)"
proof -
  have "serder_from_raw pr (serder_raw s @ rest) = Inr s"
    if "kind = JsonKind" "json_text_laws pr" "text_json 127 sad" "sad = JObject ((''v'', JString vs) # mem)"
      "v_protocol (base_version kind vs) \<in> set protocols" for mem
    using new_message_reads [of pr sad s vs mem raw rest] that assms by simp
  then show ?thesis using serder_new_version [OF assms] serder_new_Inr(2,3) [OF assms(1)] by blast
qed

theorem new_message_reads_back_witness:
  "\<exists>s. serder_new (hab_demo []) JsonKind (demo_doc ''KERI10JSON000000_'') = Inr s \<and> length (serder_raw s) = 33 \<and>
     serder_from_raw (hab_demo []) (serder_raw s @ ''-AAB and more'') = Inr s"
proof -
  let ?pr = "hab_demo []"
  have ser: "serialize_value ?pr v JsonKind = Inr (demo_print v)" for v by simp
  have v: "get_str (demo_doc ''KERI10JSON000000_'') ''v'' = Some ''KERI10JSON000000_''"
    by (simp add: demo_doc_def get_str_def)
  let ?b = "base_version JsonKind ''KERI10JSON000000_''"
  have len: "length (demo_print (demo_doc (to_version_string (?b\<lparr>v_size := n\<rparr>)))) = 33" if "n < 16 ^ 6" for n
    using length_to_version_string [OF base_version_ok [OF that]]
    by (simp add: length_demo_doc KERI_VER_FULLSIZE_def)
  have stable: "size_stable ?pr JsonKind ?b (demo_doc ''KERI10JSON000000_'')"
    unfolding size_stable_def put_version_demo_doc ser using len by (intro exI [of _ 33]) auto
  have short: "length (demo_print (demo_doc ''KERI10JSON000000_'')) = 33" by (simp add: length_demo_doc)
  obtain s where s: "serder_new ?pr JsonKind (demo_doc ''KERI10JSON000000_'') = Inr s"
    by (simp add: serder_new_eq v ser Let_def del: serialize_value.simps)
  have "serder_raw s = demo_print (demo_doc (to_version_string (?b\<lparr>v_size := 33\<rparr>)))"
    using s len [of 33] by (simp add: serder_new_eq v ser put_version_demo_doc short Let_def del: serialize_value.simps) auto
  then have raw: "length (serder_raw s) = 33" using len [of 33] by simp
  have "json_text_laws ?pr" using hab_demo_wire by (simp add: wire_laws_def)
  moreover have "text_json 127 (demo_doc ''KERI10JSON000000_'')"
    unfolding demo_doc_def by (simp add: plain_code byte_def)
  moreover have "replicate 5 (CHR ''0'') = ''00000''" by (simp add: numeral_eq_Suc)
  then have "version_text 0 = ''KERI10JSON000000_''"
    by (simp add: version_text_def hex_padded_def to_radix_padded_def to_radix.simps Let_def digit_char_def char_of_digits)
  then have "v_protocol (?b\<lparr>v_size := 0\<rparr>) = ''KERI''"
    using base_version_text [of 0 0] by (simp add: version_default_v1_def version_new_def)
  then have "v_protocol ?b \<in> set protocols" by (simp add: protocols_def)
  ultimately have "serder_from_raw ?pr (serder_raw s @ ''-AAB and more'') = Inr s"
    using new_message_reads_back [OF s v ser _ stable, of "''-AAB and more''"] short by (simp add: demo_doc_def)
  with s raw show ?thesis by blast
qed

text \<open>C25: A receipt travels. The message that a witness makes of an event is parsed to a receipt message with the event's
  prefix and sequence number and one couple, of the witness's key and a signature that
  counts for the event exactly when the key is a backer. The witness has stored the
  attachment under the digest of the event. A node that processes the message stores the couple
  under the digest of the receipt message, and its verifiers stay as they are.\<close>

theorem receipt_message_travels:
  assumes "hab_laws pr" "wire_laws pr" "witness_hab pr w" "table_for other = V1"
    and "serder_prefix other = Inr p" "plain p" "p \<noteq> []"
    and "receipt_message pr (lmdb_store e) s w other = Some (Inr (msg, s'))" "length msg < 16 ^ 6"
  shows "\<exists>m key sig said.
    parse_next pr msg = Some (Inr (\<lparr>pm_serder = m, pm_attachments = [ReceiptCouples [(key, sig)]]\<rparr>, length msg)) \<and>
    serder_ilk m = Inr ''rct'' \<and> serder_prefix m = Inr p \<and> serder_sn m = serder_sn other \<and>
    verfer_qb64 pr (sn_verfer (hd (hb_signers w))) = Inr key \<and>
    (\<forall>backers n. verify_witness_receipts_static pr (serder_raw other) [(key, sig)] backers n = Inr () \<longleftrightarrow>
       n \<le> card (set backers \<inter> {key})) \<and>
    serder_said other = Inr said \<and> sv_rcts (lmdb_view e s') said = Some (drop (length (serder_raw m)) msg) \<and>
    (\<forall>s1 kevers res s2 kevers2. process_message pr (lmdb_store e) msg s1 kevers = Some (Inr (res, s2, kevers2)) \<longrightarrow>
       kevers2 = kevers \<and> serder_said m = Inr (pr_said res) \<and> sv_rcts (lmdb_view e s2) (pr_said res) = Some (key @ sig))"
proof -
  obtain m key sig n said where
    p: "parse_next pr msg = Some (Inr (\<lparr>pm_serder = m, pm_attachments = [ReceiptCouples [(key, sig)]]\<rparr>, length msg))"
    and m: "serder_ilk m = Inr ''rct''" "serder_prefix m = Inr p" "serder_sn other = Inr n" "serder_sn m = Inr n"
    and r: "receipt_of pr (serder_raw other) w (key, sig)" and said: "serder_said other = Inr said"
      "st_put_receipts (lmdb_store e) s said (drop (length (serder_raw m)) msg) = Inr s'"
    by (rule receipt_message_parses [OF assms])
  have node: "kevers2 = kevers \<and> serder_said m = Inr (pr_said res) \<and> sv_rcts (lmdb_view e s2) (pr_said res) = Some (key @ sig)"
    if "process_message pr (lmdb_store e) msg s1 kevers = Some (Inr (res, s2, kevers2))" for s1 kevers res s2 kevers2
    using that m by (auto simp: process_message_def p process_parsed_def res_simps dest: lmdb.put_receipts)
  from lmdb.put_receipts [OF said(2)] have "sv_rcts (lmdb_view e s') said = Some (drop (length (serder_raw m)) msg)" by simp
  moreover have "verfer_qb64 pr (sn_verfer (hd (hb_signers w))) = Inr key" using r by (simp add: receipt_of_def Let_def)
  moreover have "serder_sn m = serder_sn other" using m(3,4) by simp
  ultimately show ?thesis using p m(1,2) said(1) single_receipt_counts [OF r] node by blast
qed

lemma demo_put_receipts: "\<exists>s'. st_put_receipts (lmdb_store demo_heed) s k x = Inr s'"
  by (simp add: lmdb_store_def lmdb_put_receipts_def txn_put_def Rep_demo_heed alist_heed_def)

theorem receipt_message_travels_witness:
  "\<exists>other msg s' m sig. receipt_message (hab_demo []) (lmdb_store demo_heed) demo_empty (watcher (CHR ''p'')) other = Some (Inr (msg, s')) \<and>
     parse_next (hab_demo []) msg =
       Some (Inr (\<lparr>pm_serder = m, pm_attachments = [ReceiptCouples [(watcher_key (CHR ''p''), sig)]]\<rparr>, length msg)) \<and>
     serder_prefix m = Inr (hb_prefix bob)"
proof -
  obtain other where other: "table_for other = V1" "serder_prefix other = Inr (hb_prefix bob)" "is_ok (serder_sn other)" "is_ok (serder_said other)"
    using bob_message by blast
  have w: "witness_hab (hab_demo []) (watcher (CHR ''p''))" by (rule watcher_witnesses) (simp add: plain_code byte_def)
  have p: "plain (hb_prefix bob)" "hb_prefix bob \<noteq> []" "length (hb_prefix bob) = 44" by (simp_all add: bob_def said_of_length_def)
  obtain msg s' where msg: "receipt_message (hab_demo []) (lmdb_store demo_heed) demo_empty (watcher (CHR ''p'')) other = Some (Inr (msg, s'))"
    using watcher_receipt_message [OF other(2-4) demo_put_receipts, of "CHR ''p''" "[]" demo_empty] by (auto simp: plain_code byte_def)
  from watcher_receipt_length [OF w msg other(2) p] have "length msg < 16 ^ 6" .
  from receipt_message_travels [OF hab_demo_laws hab_demo_wire w other(1,2) p(1,2) msg this] msg watcher_verfer [of "[]" "CHR ''p''"]
  show ?thesis by fastforce
qed

text \<open>C33: Equivocation is recorded. A judge accepts everything that a hab and its witnesses send, and the first of two different
  events that the hab makes from one state with the same keys (two interactions, or two
  rotations). The second it reports, with or without receipts: the evidence holds both
  events, is the one entry of the duplicitous event log, and the prefix, trusted until then,
  is duplicitous from then on.\<close>

theorem equivocation_recorded:
  assumes "hab_laws pr" "wire_laws pr" "hab_feed pr h msgs" "length msgs < 2 ^ 64"
    and "never_full (lmdb_store e)" "readable (lmdb_store e)" "\<And>k. sv_fels (lmdb_view e s) (hb_prefix h, k) = None"
    and "hab_makes pr h ev1 h1" "with_receipts pr ev1 ws1 msg1" "enough_witnesses pr h1 ws1"
    and "hab_makes pr h ev2 h2" "with_receipts pr ev2 ws2 msg2" "hb_signers h1 = hb_signers h2" "sd_said ev1 \<noteq> sd_said ev2"
  shows "\<exists>j j' ev. judge_accepts pr (lmdb_store e) (judge_new s) (msgs @ [msg1]) = Some j \<and>
    verdict_of j (hb_prefix h) = Trusted \<and>
    judge_process pr (lmdb_store e) msg2 j = Some (Inr (DuplicityDetected ev, j')) \<and> evidence_for j' (hb_prefix h) = [ev] \<and>
    ev = \<lparr>de_prefix = hb_prefix h, de_sn = hb_sn h + 1, de_first_seen_said = sd_said ev1, de_duplicitous_said = sd_said ev2,
      de_first_seen_event = sd_raw ev1, de_duplicitous_event = sd_raw ev2\<rparr> \<and>
    verdict_of j' (hb_prefix h) = Duplicitous \<and> \<not> is_duplicitous j (hb_prefix h) \<and> is_duplicitous j' (hb_prefix h)"
proof -
  have n: "length msgs \<le> 2 ^ 64" using assms(4) by simp
  obtain j0 where j0: "judge_accepts pr (lmdb_store e) (judge_new s) msgs = Some j0" "judge_follows pr (lmdb_view e) j0 h (length msgs)"
    using lmdb.judge_accepts_feed [OF assms(1-3) n assms(5,6,7)] by blast
  from lmdb.judge_continues [OF assms(1,2) j0(2) assms(4,8-10,5,6)] obtain r j where
    a: "judge_process pr (lmdb_store e) msg1 j0 = Some (Inr (Accepted r, j))" "judge_follows pr (lmdb_view e) j h1 (Suc (length msgs))"
    and seen: "sv_fels (lmdb_view e (jd_store j)) (hb_prefix h, hb_sn h + 1) = Some (sd_said ev1)"
      "sv_evts (lmdb_view e (jd_store j)) (sd_said ev1) = Some (sd_raw ev1)" by blast
  have p: "hb_prefix h1 = hb_prefix h" by (rule made_prefix [OF assms(8)])
  have trusted: "verdict_of j (hb_prefix h) = Trusted" "\<not> is_duplicitous j (hb_prefix h)"
    using a(2) by (auto simp: judge_follows_def p verdict_of_def is_duplicitous_def)
  note detects = lmdb.judge_detects [OF assms(1,2) j0(2) assms(11,12,6) a(2) p assms(13) seen(1) assms(14) seen(2) refl]
  show ?thesis
    using judge_accepts_snoc [OF j0(1) a(1)] trusted detects by (auto simp: verdict_of_def evidence_for_def is_duplicitous_def)
qed

theorem equivocation_recorded_witness:
  "\<exists>msg0 msg1 msg2 j j' ev. judge_accepts (hab_demo []) (lmdb_store demo_heed) (judge_new demo_empty) [msg0, msg1] = Some j \<and>
     judge_process (hab_demo []) (lmdb_store demo_heed) msg2 j = Some (Inr (DuplicityDetected ev, j')) \<and>
     verdict_of j' (hb_prefix bob) = Duplicitous"
proof -
  obtain msg0 where feed: "hab_feed (hab_demo []) bob [msg0]" using bob_feed by blast
  obtain ev1 ev2 where ev: "hab_makes (hab_demo []) bob ev1 bob_interacted" "hab_makes (hab_demo []) bob ev2 bob_twin"
    "sd_said ev1 \<noteq> sd_said ev2" using bob_equivocates by blast
  have "hb_signers bob_interacted = hb_signers bob_twin" by (simp add: bob_interacted_def bob_twin_def)
  from equivocation_recorded [OF hab_demo_laws hab_demo_wire feed _ demo_never_full demo_readable demo_unseen ev(1) bob_unwitnessed(1,3)
      ev(2) bob_unwitnessed(1) this ev(3)] obtain j j' e where
    "judge_accepts (hab_demo []) (lmdb_store demo_heed) (judge_new demo_empty) [msg0, sd_composed ev1] = Some j"
    "judge_process (hab_demo []) (lmdb_store demo_heed) (sd_composed ev2) j = Some (Inr (DuplicityDetected e, j'))"
    "verdict_of j' (hb_prefix bob) = Duplicitous" by (auto simp del: judge_accepts.simps)
  then show ?thesis by blast
qed

text \<open>C38: A hab is resumed exactly. However a hab incepted from a salt was used since (rotations that failed included), its
  state written as JSON reads back, and the state and the salt rebuild that hab: prefix,
  counters, backers, and both generations of signing keys.\<close>

theorem hab_resumes:
  assumes "hab_run pr salt h" "hab_state_ok (hab_to_state h)"
  shows "map_option (\<lambda>state. hab_resume pr state salt) (hab_state_from_value (hab_state_to_value (hab_to_state h))) = Some (Inr h)"
  by (rule state_resumes [OF hab_run_derived [OF assms(1)] assms(2)])

lemma bob_runs: "hab_run (hab_demo docs) bob_salt bob" "hab_run (hab_demo docs) bob_salt bob_rotated"
proof -
  obtain first where "hab_incept_event (hab_demo docs) [] ''bob'' bob_config = Inr (bob, first)"
    using bob_inception by blast
  then show run: "hab_run (hab_demo docs) bob_salt bob" by (rule hab_run.incepted [rotated]) (simp add: bob_config_defs)
  obtain ev where "hab_rotate_event (hab_demo docs) rotation_config_default bob = (Inr ev, bob_rotated)"
    using bob_rotation by blast
  then show "hab_run (hab_demo docs) bob_salt bob_rotated" by (rule hab_run.rotated [OF run])
qed

theorem hab_resumes_witness:
  "map_option (\<lambda>state. hab_resume (hab_demo []) state bob_salt) (hab_state_from_value (hab_state_to_value (hab_to_state bob_rotated)))
     = Some (Inr bob_rotated)"
  by (rule hab_resumes [OF bob_runs(2)]) (simp add: hab_state_ok_def hab_to_state_def bob_rotated_def bob_def)

text \<open>C18: A hab is never stuck. Where the code outside the repository does what it is documented to do and the store takes every
  event, an inception of Ed25519 keys succeeds, and after it every sequence of interactions and
  rotations (these for a transferable identifier) does: each command gives one message, the sequence number counts them and the
  prefix stays. \<open>limit\<close> is the number of keys that signatures can index (64 in the CESR tables), which the configurations respect.\<close>

theorem hab_never_stuck:
  assumes "total_laws pr limit" "matter_laws pr" "signature_laws pr" "accepting st"
    and "ic_code config = ''A''" "ic_count config \<le> limit" "ic_next_count config \<le> limit"
    and "length (case ic_salt config of Some salt \<Rightarrow> salt | None \<Rightarrow> rand16) = 16"
    and "list_all (command_ok limit (ic_transferable config)) cmds"
  shows "\<exists>h msg s1 msgs s2 h'. hab_incept pr rand16 name' config st s = Inr (h, msg, s1) \<and>
    hab_obeys pr st (s1, h) cmds = Inr (msgs, s2, h') \<and> length msgs = length cmds \<and>
    hb_sn h' = of_nat (length cmds) \<and> hb_prefix h' = hb_prefix h"
proof -
  from hab_incept_ok [OF assms(1-8)] obtain h msg s1 where h: "hab_incept pr rand16 name' config st s = Inr (h, msg, s1)"
    "sound_hab pr limit h" "hb_transferable h = ic_transferable config" "hb_sn h = 0" by blast
  from hab_obeys_ok [OF assms(1-4) h(2), of cmds s1] h(3,4) assms(9) obtain msgs s2 h' where
    "hab_obeys pr st (s1, h) cmds = Inr (msgs, s2, h')" "length msgs = length cmds"
    "hb_sn h' = of_nat (length cmds)" "hb_prefix h' = hb_prefix h" by auto
  with h(1) show ?thesis by blast
qed

lemma no_docs_total: "total_laws no_docs 63"
  unfolding total_laws_def no_docs_def demo_sel is_ok_iff
proof (intro conjI allI impI)
  fix table code and n :: nat assume "group_code ControllerIdxSigs table = Some code" "n \<le> 63"
  then show "\<exists>c q. counter_new (demo_prims []) code n = Inr c \<and> counter_qb64 (demo_prims []) c = Inr q"
    by (cases table) (auto simp: demo_prims_def demo_counter_new_def demo_counter_qb64_def)
qed (simp_all add: demo_prims_def demo_matter_new_def demo_sizes_def demo_matter_fs_def demo_indexer_new_def demo_indexer_qb64_def)

lemma demo_store_event_with_hab:
  "\<exists>e'. lmdb_store_event_with_hab demo_heed e said ev p sn sigs k x = Inr e'"
  by (cases sigs) (simp_all add: lmdb_store_event_with_hab_def put_event_records_def Rep_demo_heed alist_heed_def)

lemma demo_accepting: "accepting (lmdb_store demo_heed)"
  using demo_never_full demo_store_event_with_hab by (simp add: accepting_def lmdb_store_def)

theorem hab_never_stuck_witness:
  "\<exists>h msg s1 msgs s2 h'. hab_incept no_docs (replicate 16 (CHR ''r'')) ''eve'' inception_config_default (lmdb_store demo_heed) demo_empty =
       Inr (h, msg, s1) \<and>
     hab_obeys no_docs (lmdb_store demo_heed) (s1, h)
       [Interact [], Rotate rotation_config_default, Interact [JString ''x''], Rotate rotation_config_default] = Inr (msgs, s2, h') \<and>
     length msgs = 4 \<and> hb_sn h' = 4"
proof -
  let ?cmds = "[Interact [], Rotate rotation_config_default, Interact [JString ''x''], Rotate rotation_config_default]"
  have "matter_laws no_docs" "signature_laws no_docs" by (simp_all add: no_docs_def demo_matter_laws demo_signature_laws)
  moreover have "list_all (command_ok 63 (ic_transferable inception_config_default)) ?cmds"
    by (simp add: inception_config_default_def rotation_config_default_def)
  ultimately show ?thesis
    using hab_never_stuck [OF no_docs_total _ _ demo_accepting, of inception_config_default "replicate 16 (CHR ''r'')" ?cmds "''eve''" demo_empty]
    by (auto simp: inception_config_default_def)
qed

text \<open>C39: A failed rotation is fatal. The pre-rotated keys are taken out of the hab before anything can fail and are not put
  back; the rest of the hab stays. The next rotation that the hab makes is a message whose key list is empty and that carries no signature;
  no verifier accepts it, whatever signatures are attached to it, and none accepts any update
  without signatures. The hab is left without signing keys.\<close>

theorem failed_rotation_is_fatal:
  assumes "hb_transferable h" "rotate_inner pr c store s h = (Inl e, h1)"
    and "rotate_inner pr c' store' s1 h1 = (Inr (ev, s2), h2)"
  shows "h1 = h\<lparr>hb_next_signers := []\<rparr> \<and> sd_signatures ev = [] \<and> hb_signers h2 = [] \<and>
    (\<exists>sad. json_to_vec pr sad = Inr (sd_raw ev) \<and> jget sad ''t'' = Some (JString ''rot'') \<and> jget sad ''k'' = Some (JArray []) \<and>
       (\<forall>m kv sigs ks. serder_sad m = sad \<longrightarrow> verify_update pr kv m sigs \<noteq> Inr ks)) \<and>
    verify_update pr kv m [] \<noteq> Inr ks"
proof -
  have h1: "h1 = h\<lparr>hb_next_signers := []\<rparr>" by (rule rotate_inner_Inl [OF assms(2,1)])
  then have none: "hb_next_signers h1 = []" by simp
  from keyless_rotation_made [OF assms(3) none] keyless_rotation_refused rotate_without_keys [OF assms(3) none] h1 no_update_unsigned
  show ?thesis by blast
qed

theorem failed_rotation_is_fatal_witness:
  "\<exists>c st. fst (hab_rotate (hab_demo []) c st () bob) = Inl (KeriDb (Lmdb ''full'')) \<and>
     (case hab_rotate_event (hab_demo []) c (snd (hab_rotate (hab_demo []) c st () bob)) of
        (r, h) \<Rightarrow> is_ok r \<and> hb_signers h = [])"
proof -
  let ?pr = "hab_demo []" and ?c = "rotation_config_default"
  let ?st = "(undefined :: unit keri_store)\<lparr>st_store_event := \<lambda>_ _ _ _ _ _. Inl (Lmdb ''full'')\<rparr>"
  obtain ev where "hab_rotate_event ?pr ?c bob = (Inr ev, bob_rotated)" using bob_rotation by blast
  then have fail: "rotate_inner ?pr ?c (Some ?st) () bob = (Inl (KeriDb (Lmdb ''full'')), bob\<lparr>hb_next_signers := []\<rparr>)"
    by (auto simp: hab_rotate_event_def rotate_inner_def rotation_steps_def persist_def res_simps bob_def
        split: prod.splits sum.splits if_splits)
  let ?h1 = "bob\<lparr>hb_next_signers := []\<rparr>"
  have texts: "key_texts ?pr [] = Inr []" by (simp add: key_texts_def)
  obtain ev1 where "sign_event ?pr [] (rot_sad ?h1 ?c 1 [] [bob_digest 3]) = Inr ev1"
    using demo_sign_event [OF template_rot, of "[]" "[]"] by fastforce
  then have "\<exists>h2. rotate_inner ?pr ?c None () ?h1 = (Inr (ev1, ()), h2)"
    using demo_derive [OF plain_bob_salt, of "[]" "''0A''"] texts bob_texts(2) [of "[]"]
    by (simp add: rotate_inner_def rotation_steps_def persist_def bob_def rotation_config_default_def bob_signer_def [symmetric])
  then obtain h2 where h2: "rotate_inner ?pr ?c None () ?h1 = (Inr (ev1, ()), h2)" by blast
  from failed_rotation_is_fatal [OF _ fail h2] have "hb_signers h2 = []" by (simp add: bob_def)
  with h2 fail show ?thesis
    by (intro exI [of _ ?c] exI [of _ ?st]) (simp add: hab_rotate_def hab_rotate_event_def)
qed

text \<open>C40: The stored record of a hab is the one of its inception. A habery writes the record when it incepts an identifier, and no
  rotation or interaction after that touches it. A new process that opens the environment the
  first one left, with whatever configuration, and resumes the identifier from it therefore
  gets back the hab exactly as it was incepted, with sequence number 0 and the inception
  keys, whatever happened since.\<close>

theorem resumed_as_incepted:
  assumes "hy_store hy = lmdb_store e" "habery_incept pr rand16 name' c hy = (Inr msg, hy1)" "ic_salt c = Some salt"
    and "habery_get name' hy1 = Some h" "hab_state_ok (hab_to_state h)" "reads_back pr (hab_state_to_value (hab_to_state h))"
    and "(habery_step pr name')\<^sup>*\<^sup>* hy1 hy2" "lmdb_os_laws e os"
    and "\<And>opts d d' env. os_open os opts d path = Inr (d', env) \<Longrightarrow> lmdb_view e env = lmdb_view e (hy_state hy2)"
    and "lmdb_open_with_config e os path config disk = Inr (disk', store)" "lmdb_get_hab e (ls_env store) name' = Inr found"
  shows "fst (habery_resume pr name' salt (habery_new (lmdb_store e) (ls_env store))) = Inr h"
proof -
  from lmdb.incept_stores_state [OF assms(2,1)] assms(4) obtain bs where st: "hy_store hy1 = lmdb_store e"
    and bs: "json_to_vec pr (hab_state_to_value (hab_to_state h)) = Inr bs" "sv_habs (lmdb_view e (hy_state hy1)) name' = Some bs"
    by (auto simp: habery_get_def)
  have "lmdb_view e (ls_env store) = lmdb_view e (hy_state hy2)" using open_keeps_view [OF assms(8,10)] assms(9) by metis
  with lmdb.steps_keep_record [OF assms(7) st] lmdb.get_hab [of e "ls_env store" name' found] bs(2) assms(11)
  have found: "found = Some bs" by (simp add: lmdb_store_def)
  from bs(1) assms(6) have rb: "json_from_slice pr bs = Inr (hab_state_to_value (hab_to_state h))"
    by (auto simp: reads_back_def)
  from assms(2,4) obtain s' where "hab_incept pr rand16 name' c (hy_store hy) (hy_state hy) = Inr (h, msg, s')"
    by (auto simp: habery_incept_def habery_get_def split: if_splits sum.splits)
  from hab_incept_as_event [OF this] obtain ev where "hab_incept_event pr rand16 name' c = Inr (h, ev)" by blast
  from resume_derived [OF hab_run_derived [OF hab_run.incepted [OF assms(3) this]]]
  have "stored_hab pr name' salt (habery_new (lmdb_store e) (ls_env store)) = Inr h"
    using assms(5,11) found rb
    by (simp add: stored_hab_def habery_new_def lmdb_store_def hab_state_codec.dec_enc)
  then show ?thesis by (simp add: habery_resume_def habery_new_def)
qed

text \<open>Bob in a habery on an LMDB store: incepted, then one interaction.\<close>

lemma demo_get_hab: "\<exists>found. lmdb_get_hab demo_heed e k = Inr found"
  by (simp add: lmdb_get_hab_def txn_get_def Rep_demo_heed alist_heed_def)

text \<open>A file system with one environment, as a process left it.\<close>

definition demo_os_at :: "'e \<Rightarrow> (unit, 'e) lmdb_os" where
  "demo_os_at e =
     \<lparr>os_create_dir_all = (\<lambda>_ _. Inr ()), os_open = (\<lambda>_ _ _. Inr ((), e)), os_create_database = (\<lambda>t _. Inr t), os_force_sync = Inr\<rparr>"

lemma demo_os_laws: "lmdb_os_laws h (demo_os_at e)"
  by (simp add: lmdb_os_laws_def demo_os_at_def)

lemma demo_opens: "\<exists>store. lmdb_open_with_config demo_heed (demo_os_at e) path lmdb_config_default () = Inr ((), store)"
  by (simp add: lmdb_open_with_config_def config_flags_def lmdb_config_default_def open_databases_def create_database_def demo_os_at_def
      Rep_demo_heed alist_heed_def)

theorem resumed_as_incepted_witness:
  "\<exists>hy. habery_get ''bob'' hy = Some bob_interacted \<and> hb_sn bob_interacted = 1 \<and>
     (\<exists>store. lmdb_open_with_config demo_heed (demo_os_at (hy_state hy)) ''db'' lmdb_config_default () = Inr ((), store) \<and>
       fst (habery_resume (hab_demo [hab_state_to_value (hab_to_state bob)]) ''bob'' bob_salt
         (habery_new (lmdb_store demo_heed) (ls_env store))) = Inr bob)"
proof -
  let ?pr = "hab_demo [hab_state_to_value (hab_to_state bob)]" and ?st = "lmdb_store demo_heed"
  let ?hy = "habery_new ?st demo_empty"
  obtain ev where "hab_incept_event ?pr [] ''bob'' bob_config = Inr (bob, ev)" using bob_inception by blast
  then obtain s1 where "hab_incept ?pr [] ''bob'' bob_config ?st demo_empty = Inr (bob, sd_composed ev, s1)"
    using hab_incept_stored [of ?pr "[]" "''bob''" bob_config bob ev ?st demo_empty] demo_store_event_with_hab
    by (auto simp: lmdb_store_def)
  then have inc: "habery_incept ?pr [] ''bob'' bob_config ?hy = (Inr (sd_composed ev), \<lparr>hy_store = ?st, hy_state = s1, hy_habs = [''bob'' \<mapsto> bob]\<rparr>)"
    by (simp add: habery_incept_def habery_new_def)
  obtain ev1 where "hab_interact_event ?pr [] bob = Inr (ev1, bob_interacted)" using bob_interaction by blast
  then obtain s2 where "hab_interact ?pr [] ?st s1 bob = Inr (sd_composed ev1, s2, bob_interacted)"
    using hab_interact_stored [of ?pr "[]" bob ev1 bob_interacted ?st s1] demo_store_event by (auto simp: lmdb_store_def)
  then have "habery_interact ?pr ''bob'' [] \<lparr>hy_store = ?st, hy_state = s1, hy_habs = [''bob'' \<mapsto> bob]\<rparr>
      = (Inr (sd_composed ev1), \<lparr>hy_store = ?st, hy_state = s2, hy_habs = [''bob'' \<mapsto> bob_interacted]\<rparr>)"
    by (simp add: habery_interact_def habery_get_mut_def)
  then have step: "(habery_step ?pr ''bob'')\<^sup>*\<^sup>* \<lparr>hy_store = ?st, hy_state = s1, hy_habs = [''bob'' \<mapsto> bob]\<rparr>
      \<lparr>hy_store = ?st, hy_state = s2, hy_habs = [''bob'' \<mapsto> bob_interacted]\<rparr>"
    by (intro r_into_rtranclp habery_step.interact)
  obtain store where store: "lmdb_open_with_config demo_heed (demo_os_at s2) ''db'' lmdb_config_default () = Inr ((), store)"
    using demo_opens [of s2] by blast
  obtain found where "lmdb_get_hab demo_heed (ls_env store) ''bob'' = Inr found" using demo_get_hab by blast
  from resumed_as_incepted [OF _ inc _ _ _ _ step demo_os_laws [of demo_heed s2] _ store this, of bob_salt bob]
  have "fst (habery_resume ?pr ''bob'' bob_salt (habery_new ?st (ls_env store))) = Inr bob"
    by (simp add: habery_new_def bob_config_defs habery_get_def hab_state_ok_def hab_to_state_def bob_def reads_back_def hab_read_def demo_read_def
        demo_os_at_def)
  with store show ?thesis
    by (intro exI [of _ "\<lparr>hy_store = ?st, hy_state = s2, hy_habs = [''bob'' \<mapsto> bob_interacted]\<rparr>"])
      (auto simp: habery_get_def bob_interacted_def)
qed

end
