(* ===== verification/Spec2Isabelle.thy ===== *)
theory Spec2Isabelle
  imports Log_Properties Data_Properties Stream_Properties Node_Properties Hab_Properties Keri_Lmdb_Open
begin

text \<open>
  A formal model of affinidi-keri-rs, a Rust implementation of KERI (Key Event Receipt
  Infrastructure). The crates are under \<open>src/crates/\<close>: \<open>affinidi-keri-core\<close> (events,
  verification, parsing), \<open>affinidi-keri-crypto\<close> (keys, digests, signatures),
  \<open>affinidi-keri-db\<close> (the store) and \<open>affinidi-keri\<close> (controllers, direct mode, judge).

  \<^bold>\<open>The program.\<close> An identifier is the prefix of a log of signed JSON events. The parser
  splits a byte stream into messages and their attached signatures and receipts; a
  \<open>Kever\<close> verifies an event (digest, signatures, the commitment to the next keys,
  delegation) and computes the next key state; direct mode drives kevers and the store
  from parsed messages; the judge in front of it keeps the first seen version of every
  event and records duplicity; the escrow keeps what cannot be verified yet. A \<open>Hab\<close> is
  the other side: it makes the events of one identifier from keys derived from a salt,
  and a \<open>Habery\<close> keeps the habs of a process.

  \<^bold>\<open>Theories and sources.\<close>
  \<^item> \<open>Keri_Prelude\<close>: results (\<open>Inl\<close> is the error), integers and strings of Rust, the locales
    \<open>codec\<close> and \<open>exact_codec\<close> that every pair of printer and parser interprets.
    \<open>Keri_Json\<close>: \<open>serde_json::Value\<close>. \<open>Keri_Errors\<close>: the \<open>error.rs\<close> of each crate.
  \<^item> \<open>Keri_Prims\<close>: the third-party code (CESR codec, curves, hashes, Argon2, the JSON, CBOR and
    MessagePack encoders) as a record of functions that every definition takes as its
    argument, with the documented behaviour that properties may assume as named predicates.
  \<^item> \<open>Keri_Crypto\<close>: the crypto crate (\<open>verfer\<close>, \<open>diger\<close>, \<open>siger\<close>, \<open>cigar\<close>, \<open>signer\<close>, \<open>salter\<close>,
    \<open>prefixer\<close>). \<open>Keri_Tags\<close>: \<open>ilk.rs\<close>, \<open>counter_table.rs\<close>, \<open>seal.rs\<close>. \<open>Keri_Version\<close>: \<open>version.rs\<close>.
    \<open>Keri_Threshold\<close>: \<open>threshold.rs\<close>. \<open>Keri_Said\<close>: \<open>said.rs\<close>. \<open>Keri_Serder\<close>: \<open>serder.rs\<close>.
    \<open>Keri_Event\<close>: \<open>event.rs\<close>.
  \<^item> \<open>Keri_Key_State\<close>, \<open>Keri_Delegation\<close>, \<open>Keri_Kever\<close>: the files of these names; \<open>Keri_Kel\<close> is the
    log as a sequence of verifier steps, with the locale \<open>linked_log\<close> as its contract.
  \<^item> \<open>Keri_Parser\<close>, \<open>Keri_Composer\<close>, \<open>Keri_Escrow\<close>: \<open>parser.rs\<close>, \<open>composer.rs\<close>, \<open>escrow.rs\<close>.
  \<^item> \<open>Keri_Store\<close>: \<open>keys.rs\<close> and the trait \<open>KeriStore\<close> of \<open>store.rs\<close> as a record of operations;
    the locale \<open>store_laws\<close> says what each does to an abstract \<open>store_view\<close>. \<open>Keri_Lmdb\<close>: \<open>lmdb.rs\<close>
    over the transactions of \<open>heed\<close>, which interprets \<open>store_laws\<close>.
  \<^item> \<open>Keri_Direct\<close>, \<open>Keri_Judge\<close>: \<open>direct.rs\<close>, \<open>judge.rs\<close>; their invariants are proved in the
    context of \<open>store_laws\<close> and reach the properties through its LMDB interpretation.
    \<open>Keri_Replay\<close> is the specification of a node, one list of messages per prefix, computed from the
    messages it was sent (\<open>accepted\<close>); it shows that the store and the verifiers are its image.
    \<open>Keri_Interleave\<close> shows that identifiers do not interfere.
    \<open>Keri_Escrow_Spec\<close> specifies the escrow as queues by key, with the locale \<open>data_refinement\<close>.
  \<^item> \<open>Keri_Config\<close>, \<open>Keri_Hab\<close>, \<open>Keri_Habery\<close>: \<open>config.rs\<close>, \<open>hab.rs\<close>, \<open>habery.rs\<close>.
    \<open>Keri_Hab_Events\<close> shows what \<open>sign_event\<close> produces, \<open>Keri_Hab_Step\<close> that each event keeps
    hab and verifier in step, \<open>Keri_Hab_Log\<close> the same of a whole log, and resumption;
    \<open>Keri_Hab_Read\<close> that the structs of \<open>event.rs\<close> read the templates of \<open>hab.rs\<close>, and what a rotation
    without keys is; \<open>Keri_Hab_Live\<close> that no operation of a hab fails where no third-party call does.
  \<^item> From bytes to bytes: \<open>Keri_Wire\<close> parses back what a hab composed, \<open>Keri_Witness\<close> what its
    witnesses attach, \<open>Keri_Receipt\<close> their receipt messages. \<open>Keri_Hab_Direct\<close> feeds the messages
    of a hab and its witnesses to a node in direct mode, \<open>Keri_Equivocation\<close> to a judge.
  \<^item> \<open>Keri_Lmdb_Open\<close>: \<open>open\<close>, \<open>open_with_config\<close> and \<open>sync\<close> of \<open>lmdb.rs\<close>.
  \<^item> \<open>Keri_Demo\<close>, \<open>Keri_Demo_Wire\<close>, \<open>Keri_Scenario\<close>, \<open>Keri_Hab_Demo\<close>, \<open>Keri_Witness_Demo\<close>: a concrete
    instance of the third-party code (with a JSON printer and a reader that inverts it) and
    logs on it, at which the witnesses evaluate the properties. They model no code.

  A struct is a record whose fields carry a prefix (\<open>ks_\<close> for \<open>KeyState\<close>, \<open>hb_\<close> for \<open>Hab\<close>, and
  so on), an enum a datatype, \<open>u64\<close> and \<open>u32\<close> are words, \<open>usize\<close> is a natural number with its
  bound where one matters, a byte and a \<open>char\<close> are both \<open>char\<close>, a hash map is a map or an
  association list with distinct keys. A method with \<open>&mut self\<close> returns the new value; the
  store is passed as a state. A clock reading and the bytes of the random generator are
  arguments.

  \<^bold>\<open>Properties.\<close>
  \<^item> \<open>Log_Properties\<close>: authority over a log, the chain, delegation, rotation, the equivalence of
    the signature and receipt checks with set-based quorums, exactness of weighted
    thresholds and when more signatures keep them satisfied, and what the code does not enforce: the
    committed next threshold, and a say of its own for the key that is a basic prefix.
  \<^item> \<open>Data_Properties\<close>: versions, SAIDs and thresholds as values, signing.
  \<^item> \<open>Stream_Properties\<close>: the parser terminates within its bounds and reads back what the
    composer wrote.
  \<^item> \<open>Node_Properties\<close>: the store refines its contract, a node has exactly the logs it verified,
    however they are interleaved, the judge keeps what it saw first, duplicity is genuine, the
    escrow answers as its queues do.
  \<^item> \<open>Hab_Properties\<close>: a new message is read back from the front of a buffer; the events a hab makes
    are the events the structs read; a hab is never stuck; the log of a hab is accepted by every verifier; what a hab and enough of
    its witnesses send gets through a node from the bytes on, and the witnesses alone decide
    whether it does; two events of one state are reported by a judge; a receipt message is
    read back and counts; a hab resumes exactly from its state and salt, a failed rotation is
    fatal, and the record in the store is only ever the state at inception.

  \<^bold>\<open>Fuel and bounds.\<close> Only the parser recurses on something other than its data:
  \<open>parse_attachments\<close> calls itself on the contents of wrapper groups and takes fuel. \<open>parse_next\<close>
  gives it one more than the length of the input, every call consumes at least a counter,
  and \<open>parsing_terminates\<close> shows that the fuel never runs out. Everything else is structural.
  The events of a hab fit the version string below 16 MiB, which is a hypothesis
  (\<open>event_fits\<close>) of the hab properties, together with the digest being a text without
  escapes. In \<open>Keri_Hab\<close> the value \<open>None\<close> of an operation on signers is a panic of
  the source (indexing an empty list of signers).

  \<^bold>\<open>Third-party code.\<close> The properties of habs assume \<open>hab_laws\<close> (texts of primitives read back,
  signatures of a key verify under it, the encoder writes strings at their width) and, where
  bytes are parsed, \<open>wire_laws\<close>: \<open>serde_json\<close> reads a value of plain texts without numbers,
  nested at most 127 deep (its recursion limit), back from what it wrote, and writes members
  in their order; the texts of the CESR crate for signatures, keys, counters and indexed signatures of the
  current-only codes, which are all that a hab writes, can be read from the front of a stream.
  Nothing is assumed of indexed signatures with a second index (\<open>sign_indexed\<close> with \<open>only\<close> false),
  which no hab makes and whose small texts cannot carry it.
  \<open>Keri_Hab_Demo\<close> proves both of the concrete instance, which makes such signatures too. A store that
  never refuses (\<open>never_full\<close>, \<open>accepting\<close>, \<open>readable\<close>) is an assumption where something must get through,
  and \<open>total_laws\<close> (the CESR crate builds primitives of the right size, Argon2 and the JSON writer
  do not fail) where a hab must. \<open>one_body\<close>, of the logs a node holds, says that no two of the messages
  it was sent claim one digest for different bodies: messages of unknown types are stored unverified.

  \<^bold>\<open>Not modelled.\<close> \<open>Weight::as_f64\<close>, a floating point view that nothing reads; accessors that are the
  selector of a record; the interpolated values of error messages; tests, examples and
  benchmarks. The sequence number of a hab wraps in the model where a debug build of the
  source panics, and so does the sequence number that the escrow expects next; the clock of the escrow is an
  unbounded integer, where \<open>chrono\<close> panics outside its range. \<open>Habery::resume\<close> decodes the stored text directly, the model reads it as a
  JSON value first; the two differ only on texts that hold a member twice.
\<close>

end
